(* ===== verification/Tunnel_Prelude.thy ===== *)
theory Tunnel_Prelude
  imports Main "HOL-Library.Word"
begin

text \<open>
  Shared vocabulary of the development: the machine types of the Rust sources, the parts of
  Rust's standard library that the tunnel uses (strings, UTF-8, durations), a small model of
  asynchronous tasks with deadlines (tokio futures), and reachability of step relations.
\<close>

named_theorems std_simps \<open>equations of the modelled standard-library functions\<close>
named_theorems task_simps \<open>equations of the task combinators\<close>

section \<open>Machine types\<close>

type_synonym byte = "8 word"
type_synonym u32 = "32 word"
type_synonym u64 = "64 word"
type_synonym usize = "64 word"

text \<open>\<open>saturating_add\<close> of an unsigned integer type.\<close>

definition sat_add :: "'a::len word \<Rightarrow> 'a word \<Rightarrow> 'a word" where
  "sat_add x y = (if unat x + unat y < 2 ^ LENGTH('a) then x + y else - 1)"

definition sat_sub :: "'a::len word \<Rightarrow> 'a word \<Rightarrow> 'a word" where
  "sat_sub x y = (if y \<le> x then x - y else 0)"

lemma unat_sat_add:
  "unat (sat_add x y) = min (unat x + unat y) (2 ^ LENGTH('a) - 1)" for x y :: "'a::len word"
proof (cases "unat x + unat y < 2 ^ LENGTH('a)")
  case True
  then show ?thesis
    by (simp add: sat_add_def unat_word_ariths take_bit_nat_eq_self)
next
  case False
  then show ?thesis
    by (simp add: sat_add_def unsigned_minus_1_eq_mask mask_eq_exp_minus_1)
qed

lemma unat_sat_sub: "unat (sat_sub x y) = unat x - unat y"
  by (auto simp: sat_sub_def unat_sub word_le_nat_alt)

section \<open>Strings\<close>

text \<open>
  A Rust \<open>str\<close> is a UTF-8 byte sequence; its characters here are the bytes, so that the
  separators the code splits at (all ASCII) are found at the same positions.
\<close>

definition as_bytes :: "string \<Rightarrow> byte list" where
  "as_bytes s = map (\<lambda>c. of_nat (of_char c)) s"

definition str_of_bytes :: "byte list \<Rightarrow> string" where
  "str_of_bytes bs = map (\<lambda>b. char_of (unat b)) bs"

lemma str_of_as_bytes [simp]: "str_of_bytes (as_bytes s) = s"
proof -
  have "char_of (unat (of_nat (of_char c) :: byte)) = c" for c
    by (simp add: unat_of_nat)
  then show ?thesis
    by (simp add: str_of_bytes_def as_bytes_def comp_def)
qed

lemma as_bytes_of_str [simp]: "as_bytes (str_of_bytes bs) = bs"
proof -
  have "of_nat (of_char (char_of (unat b) :: char)) = b" for b :: byte
  proof -
    have "unat b < 256" using unsigned_less [of b] by simp
    then show ?thesis by simp
  qed
  then show ?thesis
    by (simp add: str_of_bytes_def as_bytes_def comp_def)
qed

lemma length_as_bytes [simp]: "length (as_bytes s) = length s"
  by (simp add: as_bytes_def)

lemma as_bytes_inject [simp]: "as_bytes s = as_bytes t \<longleftrightarrow> s = t"
  by (metis str_of_as_bytes)

text \<open>\<open>s.split(c).next()\<close>, which is never \<open>None\<close>.\<close>

definition split_next :: "char \<Rightarrow> string \<Rightarrow> string" where
  "split_next c s = takeWhile (\<lambda>x. x \<noteq> c) s"

fun split_once :: "char \<Rightarrow> string \<Rightarrow> (string \<times> string) option" where
  "split_once c [] = None"
| "split_once c (x # xs) =
     (if x = c then Some ([], xs) else map_option (\<lambda>(a, b). (x # a, b)) (split_once c xs))"

definition rsplit_once :: "char \<Rightarrow> string \<Rightarrow> (string \<times> string) option" where
  "rsplit_once c s = map_option (\<lambda>(a, b). (rev b, rev a)) (split_once c (rev s))"

definition ends_with :: "string \<Rightarrow> string \<Rightarrow> bool" where
  "ends_with s t \<longleftrightarrow> length t \<le> length s \<and> drop (length s - length t) s = t"

lemma split_once_None [std_simps]: "split_once c s = None \<longleftrightarrow> c \<notin> set s"
  by (induction s) auto

lemma split_once_Some [std_simps]:
  "split_once c s = Some (a, b) \<longleftrightarrow> s = a @ c # b \<and> c \<notin> set a"
proof (induction s arbitrary: a)
  case (Cons x s)
  then show ?case by (cases a) (auto split: if_splits)
qed simp

lemma rsplit_once_None [std_simps]: "rsplit_once c s = None \<longleftrightarrow> c \<notin> set s"
  by (simp add: rsplit_once_def split_once_None)

lemma rsplit_once_Some [std_simps]:
  "rsplit_once c s = Some (a, b) \<longleftrightarrow> s = a @ c # b \<and> c \<notin> set b"
proof -
  have "rsplit_once c s = Some (a, b) \<longleftrightarrow> split_once c (rev s) = Some (rev b, rev a)"
    unfolding rsplit_once_def by (cases "split_once c (rev s)") (auto simp: rev_swap)
  also have "\<dots> \<longleftrightarrow> rev s = rev b @ c # rev a \<and> c \<notin> set b"
    by (simp add: split_once_Some)
  also have "rev s = rev b @ c # rev a \<longleftrightarrow> s = a @ c # b"
    by (metis append.assoc append_Cons append_Nil rev_append rev_rev_ident rev_singleton_conv)
  finally show ?thesis .
qed

lemma split_next_append [std_simps]: "c \<notin> set a \<Longrightarrow> split_next c (a @ c # b) = a"
  by (induction a) (auto simp: split_next_def)

lemma split_next_free: "c \<notin> set (split_next c s)"
  by (auto simp: split_next_def dest: set_takeWhileD)

lemma ends_with_append [std_simps]: "ends_with s t \<longleftrightarrow> (\<exists>p. s = p @ t)"
  by (metis append_take_drop_id append_eq_conv_conj ends_with_def
      length_append le_add2 add_diff_cancel_right')


section \<open>UTF-8\<close>

text \<open>
  \<open>utf8_scan\<close> looks at the head of a byte sequence: \<open>(True, n)\<close> when the first \<open>n\<close> bytes
  encode a character, \<open>(False, n)\<close> when they are a maximal ill-formed part (the \<open>error_len\<close>
  of \<open>std::str::Utf8Error\<close>, or the rest of the input when it is cut short).
\<close>

definition utf8_cont :: "byte \<Rightarrow> bool" where
  "utf8_cont b \<longleftrightarrow> 0x80 \<le> b \<and> b \<le> 0xBF"

definition utf8_second :: "byte \<Rightarrow> byte \<Rightarrow> bool" where
  "utf8_second b0 b1 \<longleftrightarrow>
     (if b0 = 0xE0 then 0xA0 \<le> b1 \<and> b1 \<le> 0xBF
      else if b0 = 0xED then 0x80 \<le> b1 \<and> b1 \<le> 0x9F
      else if b0 = 0xF0 then 0x90 \<le> b1 \<and> b1 \<le> 0xBF
      else if b0 = 0xF4 then 0x80 \<le> b1 \<and> b1 \<le> 0x8F
      else utf8_cont b1)"

definition utf8_width :: "byte \<Rightarrow> nat" where
  "utf8_width b =
     (if b < 0x80 then 1 else if b < 0xC2 then 0 else if b < 0xE0 then 2
      else if b < 0xF0 then 3 else if b < 0xF5 then 4 else 0)"

definition utf8_scan :: "byte \<Rightarrow> byte list \<Rightarrow> bool \<times> nat" where
  "utf8_scan b r =
     (let w = utf8_width b in
      if w = 0 then (False, 1)
      else if w = 1 then (True, 1)
      else if r = [] \<or> \<not> utf8_second b (r ! 0) then (False, 1)
      else if w = 2 then (True, 2)
      else if length r < 2 \<or> \<not> utf8_cont (r ! 1) then (False, 2)
      else if w = 3 then (True, 3)
      else if length r < 3 \<or> \<not> utf8_cont (r ! 2) then (False, 3)
      else (True, 4))"

lemma utf8_scan_pos: "0 < snd (utf8_scan b r)"
  by (simp add: utf8_scan_def Let_def)

function utf8_ok :: "byte list \<Rightarrow> bool" where
  "utf8_ok [] = True"
| "utf8_ok (b # r) =
     (case utf8_scan b r of (ok, n) \<Rightarrow> ok \<and> utf8_ok (drop (n - 1) r))"
  by pat_completeness auto
termination
  by (relation "measure length") auto

definition from_utf8 :: "byte list \<Rightarrow> string option" where
  "from_utf8 bs = (if utf8_ok bs then Some (str_of_bytes bs) else None)"

function utf8_lossy :: "byte list \<Rightarrow> byte list" where
  "utf8_lossy [] = []"
| "utf8_lossy (b # r) =
     (case utf8_scan b r of (ok, n) \<Rightarrow>
        (if ok then take n (b # r) else [0xEF, 0xBF, 0xBD]) @ utf8_lossy (drop (n - 1) r))"
  by pat_completeness auto
termination
  by (relation "measure length") auto

definition from_utf8_lossy :: "byte list \<Rightarrow> string" where
  "from_utf8_lossy bs = str_of_bytes (utf8_lossy bs)"

lemma utf8_lossy_valid: "utf8_ok bs \<Longrightarrow> utf8_lossy bs = bs"
proof (induction bs rule: utf8_ok.induct)
  case (2 b r)
  obtain ok n where sc: "utf8_scan b r = (ok, n)" by fastforce
  then have "0 < n" using utf8_scan_pos [of b r] by simp
  from "2.prems" sc have "ok" and rest: "utf8_ok (drop (n - 1) r)" by simp_all
  have "utf8_lossy (drop (n - 1) r) = drop (n - 1) r"
    using "2.IH" [OF sc [symmetric]] rest sc by simp
  moreover have "take n (b # r) @ drop (n - 1) r = b # r"
    using \<open>0 < n\<close> by (cases n) simp_all
  ultimately show ?case using \<open>ok\<close> sc by simp
qed simp

lemma from_utf8_lossy_valid: "from_utf8 bs = Some s \<Longrightarrow> from_utf8_lossy bs = s"
  by (auto simp: from_utf8_def from_utf8_lossy_def utf8_lossy_valid split: if_splits)

lemma from_utf8_as_bytes: "from_utf8 bs = Some s \<Longrightarrow> as_bytes s = bs"
  by (auto simp: from_utf8_def split: if_splits)

lemma utf8_ascii: "\<forall>b \<in> set bs. b < 0x80 \<Longrightarrow> utf8_ok bs"
  by (induction bs) (simp_all add: utf8_scan_def utf8_width_def)

section \<open>Durations\<close>

text \<open>
  A \<open>std::time::Duration\<close> counts nanoseconds up to \<open>Duration::MAX\<close> (\<open>u64::MAX\<close> seconds and
  999999999 nanoseconds); an \<open>Instant\<close> counts nanoseconds from an arbitrary origin.
\<close>

type_synonym duration = nat
type_synonym instant = nat

definition DURATION_MAX :: duration where
  "DURATION_MAX = (2 ^ 64 - 1) * 10 ^ 9 + 999999999"

definition from_secs :: "nat \<Rightarrow> duration" where
  "from_secs n = n * 10 ^ 9"

definition as_secs :: "duration \<Rightarrow> nat" where
  "as_secs d = d div 10 ^ 9"

definition from_millis :: "nat \<Rightarrow> duration" where
  "from_millis n = n * 10 ^ 6"

definition as_millis :: "duration \<Rightarrow> nat" where
  "as_millis d = d div 10 ^ 6"

definition saturating_mul :: "duration \<Rightarrow> nat \<Rightarrow> duration" where
  "saturating_mul d k = min (d * k) DURATION_MAX"

lemma as_millis_from_millis [simp]: "as_millis (from_millis n) = n"
  by (simp add: as_millis_def from_millis_def)

lemma saturating_mul_mono: "d \<le> e \<Longrightarrow> saturating_mul d k \<le> saturating_mul e k"
  by (simp add: saturating_mul_def min.coboundedI1 mult_le_mono1)

lemma saturating_double_ge: "d \<le> DURATION_MAX \<Longrightarrow> d \<le> saturating_mul d 2"
  by (simp add: saturating_mul_def)

section \<open>Step relations\<close>

inductive reachable :: "('s \<Rightarrow> bool) \<Rightarrow> ('s \<Rightarrow> 's \<Rightarrow> bool) \<Rightarrow> 's \<Rightarrow> bool" for init step where
  reach_init: "init s \<Longrightarrow> reachable init step s"
| reach_step: "reachable init step s \<Longrightarrow> step s t \<Longrightarrow> reachable init step t"

text \<open>
  The contract of an inductive invariant: it holds initially and every step keeps it. Each
  component with a step relation interprets it on its own invariant.
\<close>

locale invariant_of =
  fixes init :: "'s \<Rightarrow> bool" and step :: "'s \<Rightarrow> 's \<Rightarrow> bool" and inv :: "'s \<Rightarrow> bool"
  assumes inv_init: "init s \<Longrightarrow> inv s"
    and inv_step: "inv s \<Longrightarrow> step s t \<Longrightarrow> inv t"
begin

lemma inv_reachable: "reachable init step s \<Longrightarrow> inv s"
  by (induction rule: reachable.induct) (auto intro: inv_init inv_step)

lemma inv_steps: "step\<^sup>*\<^sup>* s t \<Longrightarrow> inv s \<Longrightarrow> inv t"
  by (induction rule: rtranclp_induct) (auto intro: inv_step)

end

lemma reachable_steps: "reachable init step s \<Longrightarrow> step\<^sup>*\<^sup>* s t \<Longrightarrow> reachable init step t"
  by (rotate_tac, induction rule: rtranclp_induct) (auto intro: reach_step)

end
