(* ===== verification/Async_Task.thy ===== *)
theory Async_Task
  imports Tunnel_Prelude
begin

text \<open>
  Asynchronous code. A task is what one \<open>async\<close> block does when it is awaited: the effects it
  has, each with the time (in nanoseconds since the await) at which it happens, and its result
  with the time it takes, or \<open>None\<close> when it never resolves. What the peer, the network or a
  library answers is such a timed reply too. Composition adds the times, so that
  \<open>tokio::time::timeout\<close> around a sequence of awaits bounds the sequence as a whole.
\<close>

type_synonym 'a fut = "(duration \<times> 'a) option"

datatype ('e, 'a) task = Task (effects: "(duration \<times> 'e) list") (outcome: "'a fut")

definition shift :: "duration \<Rightarrow> ('e, 'a) task \<Rightarrow> ('e, 'a) task" where
  "shift t m = Task (map (apfst ((+) t)) (effects m)) (map_option (apfst ((+) t)) (outcome m))"

definition tret :: "'a \<Rightarrow> ('e, 'a) task" where
  "tret a = Task [] (Some (0, a))"

definition emit :: "'e \<Rightarrow> ('e, unit) task" where
  "emit e = Task [(0, e)] (Some (0, ()))"

definition await :: "'a fut \<Rightarrow> ('e, 'a) task" where
  "await f = Task [] f"

definition sleep :: "duration \<Rightarrow> ('e, unit) task" where
  "sleep d = await (Some (d, ()))"

definition tbind :: "('e, 'a) task \<Rightarrow> ('a \<Rightarrow> ('e, 'b) task) \<Rightarrow> ('e, 'b) task" where
  "tbind m k =
     (case outcome m of
        None \<Rightarrow> Task (effects m) None
      | Some (t, a) \<Rightarrow> Task (effects m @ effects (shift t (k a))) (outcome (shift t (k a))))"

definition tthen :: "('e, unit) task \<Rightarrow> ('e, 'b) task \<Rightarrow> ('e, 'b) task" where
  "tthen m n = tbind m (\<lambda>_. n)"

text \<open>\<open>let Some(x) = m.await else { return None }\<close>, also the \<open>?\<close> operator on options.\<close>

definition ttry :: "('e, 'a option) task \<Rightarrow> ('a \<Rightarrow> ('e, 'b option) task) \<Rightarrow> ('e, 'b option) task" where
  "ttry m k = tbind m (\<lambda>r. case r of None \<Rightarrow> tret None | Some a \<Rightarrow> k a)"

text \<open>The \<open>?\<close> operator on results.\<close>

definition terr :: "('e, 'x + 'a) task \<Rightarrow> ('a \<Rightarrow> ('e, 'x + 'b) task) \<Rightarrow> ('e, 'x + 'b) task" where
  "terr m k = tbind m (\<lambda>r. case r of Inl x \<Rightarrow> tret (Inl x) | Inr a \<Rightarrow> k a)"

text \<open>
  \<open>tokio::time::timeout\<close> polls the inner future first, so a result at the deadline itself still
  counts. When the deadline cuts the future off, the effects it already had stay.
\<close>

definition timeout :: "duration \<Rightarrow> ('e, 'a) task \<Rightarrow> ('e, 'a option) task" where
  "timeout d m =
     (case outcome m of
        Some (t, a) \<Rightarrow>
          if t \<le> d then Task (effects m) (Some (t, Some a))
          else Task (filter (\<lambda>(u, _). u \<le> d) (effects m)) (Some (d, None))
      | None \<Rightarrow> Task (filter (\<lambda>(u, _). u \<le> d) (effects m)) (Some (d, None)))"

definition happens :: "('e, 'a) task \<Rightarrow> 'e \<Rightarrow> bool" where
  "happens m e \<longleftrightarrow> e \<in> snd ` set (effects m)"

definition result :: "('e, 'a) task \<Rightarrow> 'a option" where
  "result m = map_option snd (outcome m)"

definition finish :: "('e, 'a) task \<Rightarrow> duration option" where
  "finish m = map_option fst (outcome m)"

subsection \<open>Equations\<close>

lemma effects_shift [task_simps]: "effects (shift t m) = map (apfst ((+) t)) (effects m)"
  by (simp add: shift_def)

lemma outcome_shift [task_simps]: "outcome (shift t m) = map_option (apfst ((+) t)) (outcome m)"
  by (simp add: shift_def)

lemma later_later [task_simps]:
  "map_option (apfst ((+) a)) (map_option (apfst ((+) b)) x) =
   map_option (apfst ((+) (a + b))) (x :: 'a fut)"
  by (cases x) (auto simp: add.assoc)

lemma later_0 [simp]: "map_option (apfst (\<lambda>t. t)) x = (x :: 'a fut)"
  by (cases x) auto

lemma shift_0 [simp]: "shift 0 m = m"
  by (cases m) (simp add: shift_def option.map_id apfst_def map_prod_def)

lemma tbind_tret [simp]: "tbind (tret a) k = k a"
  by (simp add: tbind_def tret_def)

lemma await_now [simp]: "await (Some (0, a)) = tret a"
  by (simp add: await_def tret_def)

lemma timeout_tret [simp]: "timeout d (tret a) = tret (Some a)"
  by (simp add: timeout_def tret_def)

lemma ttry_tret [simp]: "ttry (tret None) k = tret None" "ttry (tret (Some a)) k = k a"
  by (simp_all add: ttry_def)

lemma terr_tret [simp]: "terr (tret (Inl x)) k = tret (Inl x)" "terr (tret (Inr a)) k = k a"
  by (simp_all add: terr_def)

lemma tret_sel [simp]: "effects (tret a) = []" "outcome (tret a) = Some (0, a)"
  by (simp_all add: tret_def)

lemma emit_sel [simp]: "effects (emit e) = [(0, e)]" "outcome (emit e) = Some (0, ())"
  by (simp_all add: emit_def)

lemma await_sel [simp]: "effects (await f) = []" "outcome (await f) = f"
  by (simp_all add: await_def)

lemma sleep_sel [simp]: "effects (sleep d) = []" "outcome (sleep d) = Some (d, ())"
  by (simp_all add: sleep_def)

lemma tthen_sleep: "tthen (sleep d) m = shift d m"
  by (cases m) (simp add: tthen_def tbind_def shift_def)

lemma tthen_emit: "effects (tthen (emit e) n) = (0, e) # effects n"
    "outcome (tthen (emit e) n) = outcome n"
  by (simp_all add: tthen_def tbind_def)

lemma result_tret [simp]: "result (tret a) = Some a"
  by (simp add: result_def)

lemma result_tthen_emit [simp]: "result (tthen (emit e) n) = result n"
  by (simp add: result_def tthen_emit)

lemma happens_tret [simp]: "\<not> happens (tret a) e"
  by (simp add: happens_def)

lemma happens_await [simp]: "\<not> happens (await f) e"
  by (simp add: happens_def)

lemma happens_tthen_emit [simp]: "happens (tthen (emit e) n) x \<longleftrightarrow> x = e \<or> happens n x"
  by (auto simp: happens_def tthen_emit)

lemma happens_shift [simp]: "happens (shift t m) e \<longleftrightarrow> happens m e"
  by (force simp: happens_def task_simps)

lemma result_await [simp]: "result (await f) = map_option snd f"
  by (simp add: result_def)

lemma result_shift [simp]: "result (shift t m) = result m"
  by (cases "outcome m") (auto simp: result_def task_simps)

lemma happens_tbind:
  "happens (tbind m k) e \<longleftrightarrow> happens m e \<or> (\<exists>a. result m = Some a \<and> happens (k a) e)"
proof (cases "outcome m")
  case None
  then show ?thesis by (simp add: tbind_def happens_def result_def)
next
  case (Some ta)
  obtain t a where ta: "outcome m = Some (t, a)" using Some by (cases ta) simp
  have "happens (tbind m k) e \<longleftrightarrow> happens m e \<or> happens (shift t (k a)) e"
    by (auto simp: tbind_def ta happens_def)
  then show ?thesis using ta by (simp add: result_def)
qed

lemma result_tbind: "result (tbind m k) = Option.bind (result m) (\<lambda>a. result (k a))"
proof (cases "outcome m")
  case None
  then show ?thesis by (simp add: tbind_def result_def)
next
  case (Some ta)
  obtain t a where ta: "outcome m = Some (t, a)" using Some by (cases ta) simp
  have "result (tbind m k) = result (shift t (k a))"
    by (simp add: tbind_def ta result_def)
  moreover have "result m = Some a" using ta by (simp add: result_def)
  ultimately show ?thesis by simp
qed

lemma result_tbindE:
  assumes "result (tbind m k) = Some b"
  obtains a where "result m = Some a" and "result (k a) = Some b"
  using assms by (auto simp: result_tbind bind_eq_Some_conv)

lemma happens_tbindE:
  assumes "happens (tbind m k) e"
  obtains "happens m e" | a where "result m = Some a" and "happens (k a) e"
  using assms by (auto simp: happens_tbind)

lemma finish_tbind:
  "finish (tbind m k) =
     (case outcome m of None \<Rightarrow> None | Some (t, a) \<Rightarrow> map_option ((+) t) (finish (k a)))"
  by (auto simp: finish_def tbind_def task_simps option.map_comp comp_def split: option.splits)

lemma finish_tret [simp]: "finish (tret a) = Some 0"
  by (simp add: finish_def)

lemma finish_tbind_tret [simp]: "finish (tbind m (\<lambda>r. tret (f r))) = finish m"
  by (cases "outcome m") (auto simp: finish_tbind finish_def [of m])

lemma happens_tbind_tret [simp]: "happens (tbind m (\<lambda>r. tret (f r))) e \<longleftrightarrow> happens m e"
  by (simp add: happens_tbind)

lemma finish_le_tbind:
  assumes "\<exists>t \<le> d. finish m = Some t" and "\<And>a. result m = Some a \<Longrightarrow> \<exists>t \<le> e. finish (k a) = Some t"
  shows "\<exists>t \<le> d + e. finish (tbind m k) = Some t"
proof -
  from assms(1) obtain t a where t: "t \<le> d" "outcome m = Some (t, a)" by (auto simp: finish_def)
  then have "result m = Some a" by (simp add: result_def)
  from assms(2) [OF this] obtain u where "u \<le> e" "finish (k a) = Some u" by blast
  with t have "t + u \<le> d + e" "finish (tbind m k) = Some (t + u)"
    by (auto simp: finish_tbind)
  then show ?thesis by blast
qed

lemma finish_le_terr:
  assumes "\<exists>t \<le> d. finish m = Some t" and "\<And>a. result m = Some (Inr a) \<Longrightarrow> \<exists>t \<le> e. finish (k a) = Some t"
  shows "\<exists>t \<le> d + e. finish (terr m k) = Some t"
  unfolding terr_def
  by (rule finish_le_tbind [OF assms(1)]) (auto split: sum.split simp: assms(2))

lemma finish_le_sleep:
  assumes "\<exists>t \<le> e. finish m = Some t"
  shows "\<exists>t \<le> d + e. finish (tthen (sleep d) m) = Some t"
  using assms by (auto simp: tthen_def finish_tbind)

lemma finish_tthen_emit [simp]: "finish (tthen (emit e) m) = finish m"
  by (simp add: finish_def tthen_emit)

lemma happens_tthen_sleep [simp]: "happens (tthen (sleep d) m) e \<longleftrightarrow> happens m e"
  by (simp add: tthen_sleep)

lemma result_tthen_sleep [simp]: "result (tthen (sleep d) m) = result m"
  by (simp add: tthen_sleep)

lemma happens_terr:
  "happens (terr m k) e \<longleftrightarrow> happens m e \<or> (\<exists>a. result m = Some (Inr a) \<and> happens (k a) e)"
proof (cases "result m")
  case (Some r)
  then show ?thesis by (cases r) (simp_all add: terr_def happens_tbind)
qed (simp add: terr_def happens_tbind)

lemma result_terr:
  "result (terr m k) = Some (Inr b) \<longleftrightarrow> (\<exists>a. result m = Some (Inr a) \<and> result (k a) = Some (Inr b))"
proof (cases "result m")
  case (Some r)
  then show ?thesis by (cases r) (simp_all add: terr_def result_tbind)
qed (simp add: terr_def result_tbind)

subsection \<open>Traces\<close>

text \<open>The effects in the order in which they happen.\<close>

definition trace :: "('e, 'a) task \<Rightarrow> 'e list" where
  "trace m = map snd (effects m)"

lemma trace_simps [simp]:
  "trace (tret a) = []" "trace (await f) = []" "trace (tthen (emit e) m) = e # trace m"
  "trace (shift t m) = trace m"
  by (simp_all add: trace_def tthen_emit task_simps comp_def)

lemma trace_tbind: "trace (tbind m k) = trace m @ (case result m of None \<Rightarrow> [] | Some a \<Rightarrow> trace (k a))"
  by (auto simp: trace_def tbind_def result_def task_simps comp_def split: option.splits)

lemma trace_terr:
  "trace (terr m k) = trace m @ (case result m of Some (Inr a) \<Rightarrow> trace (k a) | _ \<Rightarrow> [])"
  by (auto simp: terr_def trace_tbind split: option.splits sum.splits)

lemma terr_course:
  obtains (stops) "trace (terr m k) = trace m"
    | (continues) a where "result m = Some (Inr a)" "trace (terr m k) = trace m @ trace (k a)"
        "result (terr m k) = result (k a)"
proof (cases "result m")
  case (Some r)
  then show ?thesis
    using that by (cases r) (simp_all add: trace_terr, simp add: terr_def result_tbind)
qed (use that in \<open>simp add: trace_terr\<close>)

lemma result_terr_Some:
  "result (terr m k) = Some r \<longleftrightarrow>
     (\<exists>x. result m = Some (Inl x) \<and> r = Inl x) \<or> (\<exists>a. result m = Some (Inr a) \<and> result (k a) = Some r)"
proof (cases "result m")
  case (Some y)
  then show ?thesis by (cases y) (auto simp: terr_def result_tbind)
qed (simp add: terr_def result_tbind)

subsection \<open>Deadlines\<close>

lemma timeout_resolves: "\<exists>t r. outcome (timeout d m) = Some (t, r) \<and> t \<le> d"
  by (auto simp: timeout_def split: option.splits)

lemma timeout_Some:
  "outcome (timeout d m) = Some (t, Some a) \<longleftrightarrow> outcome m = Some (t, a) \<and> t \<le> d"
  by (auto simp: timeout_def split: option.splits)

lemma result_timeout_Some: "result (timeout d m) = Some (Some a) \<Longrightarrow> result m = Some a"
  by (auto simp: result_def timeout_def split: option.splits if_splits)

lemma happens_timeout: "happens (timeout d m) e \<Longrightarrow> happens m e"
  by (auto simp: happens_def timeout_def split: option.splits if_splits)

lemma not_happens_timeout [simp]: "\<not> happens m e \<Longrightarrow> \<not> happens (timeout d m) e"
  by (erule contrapos_nn) (rule happens_timeout)

lemma happens_timeout_emit [simp]:
  "happens (timeout d (tthen (emit x) m)) e \<longleftrightarrow> e = x \<or> happens (timeout d m) e"
  by (auto simp: happens_def timeout_def tthen_emit split: option.split)

lemma timeout_in_time:
  "outcome m = Some (t, a) \<Longrightarrow> t \<le> d \<Longrightarrow> timeout d m = Task (effects m) (Some (t, Some a))"
  by (simp add: timeout_def)

lemma finish_timeout: "\<exists>t \<le> d. finish (timeout d m) = Some t"
  using timeout_resolves [of d m] by (auto simp: finish_def)

lemma outcome_tbind:
  "outcome m = Some (t, a) \<Longrightarrow> outcome (tbind m k) = map_option (apfst ((+) t)) (outcome (k a))"
  by (simp add: tbind_def task_simps)

lemma outcome_tbind_await [simp]:
  "outcome (tbind (await (Some (t, a))) k) = map_option (apfst ((+) t)) (outcome (k a))"
  by (simp add: outcome_tbind)

lemma trace_tbind_Some: "outcome m = Some (t, a) \<Longrightarrow> trace (tbind m k) = trace m @ trace (k a)"
  by (simp add: trace_tbind result_def)

lemma timeout_prompt:
  assumes "outcome m = Some (t, x)" and "t \<le> d"
  shows "outcome (timeout d m) = Some (t, Some x)" "trace (timeout d m) = trace m"
  using assms by (simp_all add: timeout_def trace_def)

lemma result_timeout_finish:
  assumes "finish m = Some t" and "t \<le> d" and "result m = Some r"
  shows "result (timeout d m) = Some (Some r)"
  using assms timeout_prompt(1) [of m t r d] by (auto simp: finish_def result_def)

lemma result_terr_eq:
  "result (terr m k) =
     (case result m of None \<Rightarrow> None | Some (Inl e) \<Rightarrow> Some (Inl e) | Some (Inr a) \<Rightarrow> result (k a))"
  by (auto simp: terr_def result_tbind split: option.split sum.split)

lemma outcome_terr:
  "outcome (terr m k) = (case outcome m of None \<Rightarrow> None | Some (t, Inl e) \<Rightarrow> Some (t, Inl e)
     | Some (t, Inr a) \<Rightarrow> map_option (apfst ((+) t)) (outcome (k a)))"
proof (cases "outcome m")
  case (Some ta)
  then show ?thesis by (cases ta; cases "snd ta") (simp_all add: terr_def outcome_tbind)
qed (simp add: terr_def tbind_def)

section \<open>Incoming streams\<close>

text \<open>
  What a peer sends on one stream: its items, each with the delay since the one before, and
  whether the stream then ends (after a further delay) or stays silent for ever.
\<close>

datatype 'a source = Source (items: "(duration \<times> 'a) list") (fin: "duration option")

definition instantly :: "'a list \<Rightarrow> 'a source" where
  "instantly xs = Source (map (Pair 0) xs) (Some 0)"

definition contents :: "'a source \<Rightarrow> 'a list" where
  "contents s = map snd (items s)"

definition delay_of :: "(duration \<times> 'a) list \<Rightarrow> duration" where
  "delay_of xs = sum_list (map fst xs)"

text \<open>
  \<open>AsyncReadExt::read_exact\<close>: the first \<open>n\<close> items once they have all arrived; an error when the
  stream ends first; pending for ever when it falls silent first.
\<close>

definition read_exact :: "nat \<Rightarrow> 'a source \<Rightarrow> ('e, ('a list \<times> 'a source) option) task" where
  "read_exact n s =
     (if n \<le> length (items s)
      then await (Some (delay_of (take n (items s)),
             Some (map snd (take n (items s)), Source (drop n (items s)) (fin s))))
      else await (map_option (\<lambda>d. (delay_of (items s) + d, None)) (fin s)))"

lemma contents_instantly [simp]: "contents (instantly xs) = xs"
  by (simp add: contents_def instantly_def comp_def)

lemma items_instantly: "items (instantly xs) = map (Pair 0) xs" "fin (instantly xs) = Some 0"
  by (simp_all add: instantly_def)

lemma delay_of_instant [simp]: "delay_of (map (Pair 0) xs) = 0"
  by (simp add: delay_of_def comp_def)

lemma read_exact_instantly:
  "n \<le> length xs \<Longrightarrow>
   read_exact n (instantly xs) = tret (Some (take n xs, instantly (drop n xs)))"
  by (simp add: read_exact_def items_instantly take_map drop_map comp_def)
     (simp add: instantly_def)

lemma read_exact_instantly_short:
  "length xs < n \<Longrightarrow> read_exact n (instantly xs) = tret None"
  by (simp add: read_exact_def items_instantly)

lemma happens_read_exact [simp]: "\<not> happens (read_exact n s) e"
  by (simp add: read_exact_def)

lemma result_read_exact:
  "result (read_exact n s) =
     (if n \<le> length (contents s)
      then Some (Some (take n (contents s), Source (drop n (items s)) (fin s)))
      else map_option (\<lambda>_. None) (fin s))"
  by (simp add: read_exact_def result_def contents_def take_map option.map_comp comp_def)

lemma contents_drop: "contents (Source (drop n (items s)) f) = drop n (contents s)"
  by (simp add: contents_def drop_map)

end
