(* ===== verification/Ctrl_Frame.thy ===== *)
theory Ctrl_Frame
  imports Async_Task
begin

text \<open>
  The control channel of \<^verbatim>\<open>tunnel-common/src/lib.rs\<close>: length-prefixed frames
  (\<open>ctrl_read\<close>, \<open>ctrl_write\<close>) on QUIC and bounded request bodies (\<open>collect_h2_body\<close>) on H2, with
  the protocol constants both sides share.
\<close>

named_theorems ctrl_defs \<open>definitions of the control channel\<close>

section \<open>Constants\<close>

definition REJECT_UNAUTHORIZED :: u32 where "REJECT_UNAUTHORIZED = 1"
definition CLOSE_TIMEOUT :: u32 where "CLOSE_TIMEOUT = 2"
definition CTRL_REJECT_PATH :: string where "CTRL_REJECT_PATH = ''/_ctrl/reject''"
definition MAX_CTRL_FRAME :: nat where "MAX_CTRL_FRAME = 4096"

section \<open>Big-endian lengths\<close>

definition u32_to_be_bytes :: "u32 \<Rightarrow> byte list" where
  "u32_to_be_bytes w = map (\<lambda>i. of_nat (unat w div 256 ^ i)) [3, 2, 1, 0]"

definition u32_from_be_bytes :: "byte list \<Rightarrow> u32" where
  "u32_from_be_bytes bs = of_nat (foldl (\<lambda>a b. 256 * a + unat b) 0 bs)"

lemma length_to_be_bytes [simp]: "length (u32_to_be_bytes w) = 4"
  by (simp add: u32_to_be_bytes_def)

lemma base_256:
  assumes "(n::nat) < 4294967296"
  shows "256 * (256 * (256 * (n div 16777216 mod 256) + n div 65536 mod 256) + n div 256 mod 256)
    + n mod 256 = n"
proof -
  have d: "n div 65536 = n div 256 div 256" "n div 16777216 = n div 256 div 256 div 256"
    by (simp_all add: div_mult2_eq [symmetric])
  have "n div 256 div 256 div 256 < 256"
    using assms by (simp add: div_mult2_eq [symmetric])
  then show ?thesis
    unfolding d by (metis mod_less mult_div_mod_eq)
qed

lemma from_to_be_bytes [simp]: "u32_from_be_bytes (u32_to_be_bytes w) = w"
proof -
  define n where "n = unat w"
  have n: "n < 4294967296" using unsigned_less [of w] by (simp add: n_def)
  have byte: "unat (of_nat k :: byte) = k mod 256" for k
    by (simp add: unsigned_of_nat take_bit_eq_mod)
  have b0: "unat (ucast w :: byte) = unat w mod 256"
    by (simp add: unsigned_ucast_eq take_bit_eq_mod)
  have "foldl (\<lambda>a b. 256 * a + unat b) 0 (u32_to_be_bytes w) =
      256 * (256 * (256 * (n div 16777216 mod 256) + n div 65536 mod 256) + n div 256 mod 256)
        + n mod 256"
    by (simp add: u32_to_be_bytes_def byte b0 n_def)
  also have "\<dots> = n"
    using n by (rule base_256)
  finally show ?thesis
    by (simp add: u32_from_be_bytes_def n_def)
qed

section \<open>Frames\<close>

datatype ctrl_error =
    UnexpectedEof
  | FrameTooLarge nat
  | CannotAllocate nat
  | BrokenPipe

text \<open>
  \<open>alloc\<close> says whether the allocator can reserve that many bytes (\<open>try_reserve_exact\<close>). On
  success the frame comes with what is left of the stream.
\<close>

definition ctrl_read :: "(nat \<Rightarrow> bool) \<Rightarrow> byte source \<Rightarrow>
    ('e, ctrl_error + (byte list \<times> byte source)) task" where
  "ctrl_read alloc r =
     tbind (read_exact 4 r) (\<lambda>h. case h of
        None \<Rightarrow> tret (Inl UnexpectedEof)
      | Some (len_buf, r1) \<Rightarrow>
          (let len = unat (u32_from_be_bytes len_buf) in
           if MAX_CTRL_FRAME < len then tret (Inl (FrameTooLarge len))
           else if \<not> alloc len then tret (Inl (CannotAllocate len))
           else tbind (read_exact len r1) (\<lambda>b. case b of
                    None \<Rightarrow> tret (Inl UnexpectedEof)
                  | Some (buf, r2) \<Rightarrow> tret (Inr (buf, r2)))))"

text \<open>
  A writer: the bytes handed to the transport so far and, when it is going to fail, how many
  more it accepts before it does.
\<close>

record sink =
  sent :: "byte list"
  room :: "nat option"

definition write_all :: "sink \<Rightarrow> byte list \<Rightarrow> sink \<times> bool" where
  "write_all w bs =
     (case room w of
        None \<Rightarrow> (w\<lparr>sent := sent w @ bs\<rparr>, True)
      | Some k \<Rightarrow>
          if length bs \<le> k
          then (w\<lparr>sent := sent w @ bs, room := Some (k - length bs)\<rparr>, True)
          else (w\<lparr>sent := sent w @ take k bs, room := Some 0\<rparr>, False))"

definition ctrl_write :: "sink \<Rightarrow> byte list \<Rightarrow> sink \<times> (ctrl_error + unit)" where
  "ctrl_write w data =
     (if length data \<le> MAX_CTRL_FRAME then
        (case write_all w (u32_to_be_bytes (of_nat (length data))) of
           (w1, False) \<Rightarrow> (w1, Inl BrokenPipe)
         | (w1, True) \<Rightarrow>
             (case write_all w1 data of
                (w2, False) \<Rightarrow> (w2, Inl BrokenPipe)
              | (w2, True) \<Rightarrow> (w2, Inr ())))
      else (w, Inl (FrameTooLarge (length data))))"

definition frame :: "byte list \<Rightarrow> byte list" where
  "frame data = u32_to_be_bytes (of_nat (length data)) @ data"

fun ctrl_write_seq :: "sink \<Rightarrow> byte list list \<Rightarrow> sink \<times> (ctrl_error + unit)" where
  "ctrl_write_seq w [] = (w, Inr ())"
| "ctrl_write_seq w (d # ds) =
     (case ctrl_write w d of
        (w', Inl e) \<Rightarrow> (w', Inl e)
      | (w', Inr _) \<Rightarrow> ctrl_write_seq w' ds)"

fun ctrl_read_seq :: "(nat \<Rightarrow> bool) \<Rightarrow> nat \<Rightarrow> byte source \<Rightarrow>
    ('e, ctrl_error + (byte list list \<times> byte source)) task" where
  "ctrl_read_seq alloc 0 r = tret (Inr ([], r))"
| "ctrl_read_seq alloc (Suc n) r =
     terr (ctrl_read alloc r) (\<lambda>(d, r1).
       terr (ctrl_read_seq alloc n r1) (\<lambda>(ds, r2). tret (Inr (d # ds, r2))))"

lemmas [ctrl_defs] = ctrl_read_def ctrl_write_def write_all_def

subsection \<open>What a read returns\<close>

lemma happens_ctrl_read [simp]: "\<not> happens (ctrl_read alloc r) e"
  by (auto simp: ctrl_read_def happens_tbind Let_def split: option.splits)

lemma unat_len_u32: "length d \<le> MAX_CTRL_FRAME \<Longrightarrow> unat (of_nat (length d) :: u32) = length d"
  by (simp add: unsigned_of_nat take_bit_nat_eq_self MAX_CTRL_FRAME_def)

lemma result_ctrl_read_frame:
  assumes "contents r = frame d @ rest" and "length d \<le> MAX_CTRL_FRAME" and "alloc (length d)"
  shows "\<exists>r'. result (ctrl_read alloc r) = Some (Inr (d, r')) \<and> contents r' = rest
    \<and> fin r' = fin r"
proof -
  let ?r1 = "Source (drop 4 (items r)) (fin r)"
  have c1: "contents ?r1 = d @ rest"
    using assms(1) by (simp add: contents_drop frame_def)
  have h: "result (read_exact 4 r) = Some (Some (u32_to_be_bytes (of_nat (length d)), ?r1))"
    using assms(1) by (simp add: result_read_exact frame_def)
  have len: "unat (of_nat (length d) :: u32) = length d"
    using assms(2) by (rule unat_len_u32)
  have b: "result (read_exact (length d) ?r1) =
      Some (Some (d, Source (drop (length d) (items ?r1)) (fin r)))"
    using c1 by (simp add: result_read_exact)
  have "result (ctrl_read alloc r) =
      Some (Inr (d, Source (drop (length d) (items ?r1)) (fin r)))"
    using assms(2,3) by (simp add: ctrl_read_def result_tbind h len b Let_def)
  moreover have "contents (Source (drop (length d) (items ?r1)) (fin r)) = rest"
    using c1 contents_drop [of "length d" ?r1] by simp
  ultimately show ?thesis by auto
qed

lemma ctrl_read_instantly:
  assumes "length d \<le> MAX_CTRL_FRAME" and "alloc (length d)"
  shows "ctrl_read alloc (instantly (frame d @ rest)) =
    (tret (Inr (d, instantly rest)) :: ('e, _) task)"
proof -
  have "read_exact 4 (instantly (frame d @ rest)) =
      (tret (Some (u32_to_be_bytes (of_nat (length d)), instantly (d @ rest))) :: ('e, _) task)"
    by (simp add: read_exact_instantly frame_def)
  then show ?thesis
    using assms by (simp add: ctrl_read_def unat_len_u32 Let_def read_exact_instantly)
qed

lemma ctrl_read_ok_length:
  "result (ctrl_read alloc r) = Some (Inr (d, r')) \<Longrightarrow> length d \<le> MAX_CTRL_FRAME"
  by (auto simp: ctrl_read_def result_tbind result_read_exact Let_def bind_eq_Some_conv
      split: if_splits option.splits)

lemma ctrl_read_ok_contents:
  assumes "result (ctrl_read alloc r :: ('e, _) task) = Some (Inr (d, r'))"
  shows "\<exists>p. length p = 4 \<and> contents r = p @ d @ contents r'"
proof -
  from assms have n4: "4 \<le> length (contents r)"
    by (auto simp: ctrl_read_def result_tbind result_read_exact bind_eq_Some_conv
        split: if_splits option.splits)
  define r1 where "r1 = Source (drop 4 (items r)) (fin r)"
  define n where "n = unat (u32_from_be_bytes (take 4 (contents r)))"
  have c1: "contents r1 = drop 4 (contents r)"
    by (simp add: r1_def contents_drop)
  have h: "result (read_exact 4 r :: ('e, _) task) = Some (Some (take 4 (contents r), r1))"
    using n4 by (simp add: result_read_exact r1_def)
  have "result (read_exact n r1 :: ('e, _) task) = Some (Some (d, r'))"
    using assms by (auto simp: ctrl_read_def result_tbind h Let_def n_def [symmetric]
        bind_eq_Some_conv split: if_splits option.splits)
  then have "d = take n (contents r1)" and "contents r' = drop n (contents r1)"
    by (auto simp: result_read_exact contents_drop split: if_splits)
  then have "d @ contents r' = contents r1"
    by simp
  then have "d @ contents r' = drop 4 (contents r)"
    by (simp only: c1)
  then have "contents r = take 4 (contents r) @ d @ contents r'"
    by simp
  with n4 show ?thesis
    by (intro exI [of _ "take 4 (contents r)"]) simp
qed

subsection \<open>What a write sends\<close>

lemma ctrl_write_ok:
  "room w = None \<Longrightarrow> length d \<le> MAX_CTRL_FRAME \<Longrightarrow>
   ctrl_write w d = (w\<lparr>sent := sent w @ frame d\<rparr>, Inr ())"
  by (simp add: ctrl_defs frame_def)

lemma ctrl_write_seq_ok:
  "room w = None \<Longrightarrow> \<forall>d \<in> set ds. length d \<le> MAX_CTRL_FRAME \<Longrightarrow>
   ctrl_write_seq w ds = (w\<lparr>sent := sent w @ concat (map frame ds)\<rparr>, Inr ())"
  by (induction ds arbitrary: w) (simp_all add: ctrl_write_ok)

lemma ctrl_write_success:
  "ctrl_write w d = (w', Inr ()) \<Longrightarrow>
   length d \<le> MAX_CTRL_FRAME \<and> sent w' = sent w @ frame d"
  by (auto simp: ctrl_defs frame_def split: if_splits option.splits prod.splits bool.splits)

lemma ctrl_write_seq_success:
  "ctrl_write_seq w ds = (w', Inr ()) \<Longrightarrow>
   (\<forall>d \<in> set ds. length d \<le> MAX_CTRL_FRAME) \<and> sent w' = sent w @ concat (map frame ds)"
proof (induction ds arbitrary: w)
  case (Cons d ds)
  obtain w1 r where w1: "ctrl_write w d = (w1, r)" by fastforce
  with Cons.prems have r: "r = Inr ()" and rest: "ctrl_write_seq w1 ds = (w', Inr ())"
    by (auto split: sum.splits)
  from ctrl_write_success w1 r have "length d \<le> MAX_CTRL_FRAME \<and> sent w1 = sent w @ frame d"
    by blast
  with Cons.IH [OF rest] show ?case by simp
qed simp

lemma result_ctrl_read_seq:
  assumes "contents r = concat (map frame ds) @ rest"
    and "\<forall>d \<in> set ds. length d \<le> MAX_CTRL_FRAME \<and> alloc (length d)"
  shows "\<exists>r'. result (ctrl_read_seq alloc (length ds) r :: ('e, _) task) = Some (Inr (ds, r')) \<and> contents r' = rest"
  using assms
proof (induction ds arbitrary: r)
  case (Cons d ds)
  from Cons.prems obtain r1 where
    r1: "result (ctrl_read alloc r :: ('e, _) task) = Some (Inr (d, r1))" "contents r1 = concat (map frame ds) @ rest"
    using result_ctrl_read_frame [of r d "concat (map frame ds) @ rest" alloc] by auto
  from Cons.IH [OF r1(2)] Cons.prems(2) obtain r2 where
    "result (ctrl_read_seq alloc (length ds) r1 :: ('e, _) task) = Some (Inr (ds, r2))" "contents r2 = rest"
    by auto
  with r1 show ?case
    by (simp add: terr_def result_tbind)
qed (simp add: contents_def)


section \<open>Bounded bodies\<close>

datatype body_error = BodyIo string | BodyTooLarge nat

text \<open>
  \<open>released n\<close> is the effect of handing \<open>n\<close> bytes of flow-control capacity back to the peer.
\<close>

fun collect_chunks :: "(nat \<Rightarrow> 'e) \<Rightarrow> nat \<Rightarrow> byte list \<Rightarrow>
    (duration \<times> (string + byte list)) list \<Rightarrow> duration option \<Rightarrow>
    ('e, body_error + byte list) task" where
  "collect_chunks released max_len buf [] end =
     await (map_option (\<lambda>d. (d, Inr buf)) end)"
| "collect_chunks released max_len buf ((d, chunk) # rest) end =
     tbind (await (Some (d, chunk))) (\<lambda>c. case c of
        Inl e \<Rightarrow> tret (Inl (BodyIo e))
      | Inr bs \<Rightarrow>
          if length buf + length bs > max_len then tret (Inl (BodyTooLarge max_len))
          else tthen (emit (released (length bs)))
                 (collect_chunks released max_len (buf @ bs) rest end))"

definition collect_h2_body :: "(nat \<Rightarrow> 'e) \<Rightarrow> nat \<Rightarrow> (string + byte list) source \<Rightarrow>
    ('e, body_error + byte list) task" where
  "collect_h2_body released max_len body =
     collect_chunks released max_len [] (items body) (fin body)"

lemma result_collect_chunks:
  "result (collect_chunks rel m buf cs f) = Some (Inr b) \<longleftrightarrow>
   f \<noteq> None \<and> (\<exists>bss. map snd cs = map Inr bss \<and> b = buf @ concat bss
     \<and> (length b \<le> m \<or> bss = []))"
proof (induction rel m buf cs f rule: collect_chunks.induct)
  case (1 rel m buf f)
  then show ?case by (cases f) (auto simp: result_def)
next
  case (2 rel m buf d chunk rest f)
  show ?case
  proof (cases chunk)
    case (Inl e)
    then show ?thesis
      by (auto simp: result_tbind result_def [of "await _"] map_eq_Cons_conv)
  next
    case (Inr bs)
    have step: "result (collect_chunks rel m buf ((d, chunk) # rest) f) =
        (if m < length buf + length bs then Some (Inl (BodyTooLarge m))
         else result (collect_chunks rel m (buf @ bs) rest f))"
      using Inr by (simp add: result_tbind result_def [of "await _"])
    have IH: "\<not> m < length buf + length bs \<Longrightarrow>
        result (collect_chunks rel m (buf @ bs) rest f) = Some (Inr b) \<longleftrightarrow>
        f \<noteq> None \<and> (\<exists>bss. map snd rest = map Inr bss \<and> b = (buf @ bs) @ concat bss
          \<and> (length b \<le> m \<or> bss = []))"
      using "2" Inr by simp
    show ?thesis
      unfolding step using IH Inr by (auto simp: Cons_eq_map_conv)
  qed
qed

lemma released_collect_chunks:
  assumes "result (collect_chunks rel m buf cs f) = Some (Inr b)"
  shows "map snd (effects (collect_chunks rel m buf cs f)) = map (rel \<circ> length \<circ> projr \<circ> snd) cs"
  using assms
proof (induction rel m buf cs f rule: collect_chunks.induct)
  case (2 rel m buf d chunk rest f)
  obtain bs where bs: "chunk = Inr bs" and le: "\<not> m < length buf + length bs"
    using "2.prems" by (auto simp: result_tbind result_def [of "await _"] split: sum.splits if_splits)
  have "result (collect_chunks rel m (buf @ bs) rest f) = Some (Inr b)"
    using "2.prems" bs le by (simp add: result_tbind result_def [of "await _"])
  then have "map snd (effects (collect_chunks rel m (buf @ bs) rest f)) =
      map (rel \<circ> length \<circ> projr \<circ> snd) rest"
    using "2.IH" bs le by simp
  then show ?case
    using bs le by (simp add: tbind_def tthen_emit task_simps comp_def)
qed simp

section \<open>Properties\<close>

text \<open>
  C40. Frames written with \<open>ctrl_write\<close> are read back by \<open>ctrl_read\<close> exactly, one by one and in
  order, however the bytes are delayed and split on the way, and the bytes after them stay on the
  stream.
\<close>

theorem ctrl_frames_roundtrip:
  assumes "ctrl_write_seq w ds = (w', Inr ())"
    and "contents r = drop (length (sent w)) (sent w') @ rest"
    and "\<forall>n \<le> MAX_CTRL_FRAME. alloc n"
  shows "\<exists>r'. result (ctrl_read_seq alloc (length ds) r) = Some (Inr (ds, r')) \<and> contents r' = rest"
proof (rule result_ctrl_read_seq)
  show "contents r = concat (map frame ds) @ rest"
    using assms(2) ctrl_write_seq_success [OF assms(1)] by simp
  show "\<forall>d \<in> set ds. length d \<le> MAX_CTRL_FRAME \<and> alloc (length d)"
    using assms(3) ctrl_write_seq_success [OF assms(1)] by simp
qed

theorem ctrl_frames_roundtrip_witness:
  "\<exists>r'. result (ctrl_read_seq (\<lambda>_. True) 2
       (instantly [0, 0, 0, 2, 7, 8, 0, 0, 0, 0, 99]) :: (unit, _) task) =
     Some (Inr ([[7, 8], []], r')) \<and> contents r' = [99]"
proof -
  have "ctrl_write_seq \<lparr>sent = [5], room = None\<rparr> [[7, 8], []] =
      (\<lparr>sent = [5, 0, 0, 0, 2, 7, 8, 0, 0, 0, 0], room = None\<rparr>, Inr ())"
    by (simp add: ctrl_defs MAX_CTRL_FRAME_def u32_to_be_bytes_def)
  from ctrl_frames_roundtrip [OF this, of "instantly [0, 0, 0, 2, 7, 8, 0, 0, 0, 0, 99]" "[99]"
      "\<lambda>_. True"]
  show ?thesis by (simp add: numeral_2_eq_2)
qed

text \<open>
  Whatever length prefix the peer sends, \<open>ctrl_read\<close> never asks the allocator for more than
  \<open>MAX_CTRL_FRAME\<close> bytes (it behaves the same under two allocators that agree up to that size),
  and a frame it returns is no longer than that and consists of the bytes that follow the prefix.
\<close>

theorem ctrl_read_bounded:
  assumes "\<forall>n \<le> MAX_CTRL_FRAME. alloc n = alloc' n"
  shows "ctrl_read alloc r = ctrl_read alloc' r
    \<and> (\<forall>d r'. result (ctrl_read alloc r) = Some (Inr (d, r')) \<longrightarrow>
          length d \<le> MAX_CTRL_FRAME
          \<and> (\<exists>p. length p = 4 \<and> contents r = p @ d @ contents r'))"
proof -
  have "ctrl_read alloc r = ctrl_read alloc' r"
    using assms unfolding ctrl_read_def
    by (intro arg_cong2 [where f = tbind] ext refl)
       (simp add: Let_def not_less split: option.splits)
  then show ?thesis
    by (blast dest: ctrl_read_ok_length ctrl_read_ok_contents)
qed

theorem ctrl_read_bounded_witness:
  "ctrl_read (\<lambda>_. True) (instantly [255, 255, 255, 255]) =
   (ctrl_read (\<lambda>n. n \<le> 4096) (instantly [255, 255, 255, 255]) :: (unit, _) task)"
  by (rule ctrl_read_bounded [THEN conjunct1]) (simp add: MAX_CTRL_FRAME_def)

text \<open>
  Oversized frames are refused on both sides. A reader refuses as soon as the four prefix
  bytes are there, without waiting for the payload; a writer refuses without emitting a byte, so
  the stream is not desynchronised.
\<close>

theorem ctrl_oversize_refused:
  assumes "4 \<le> length (contents r)"
    and "MAX_CTRL_FRAME < unat (u32_from_be_bytes (take 4 (contents r)))"
    and "MAX_CTRL_FRAME < length data"
  shows "outcome (ctrl_read alloc r) = Some (delay_of (take 4 (items r)),
        Inl (FrameTooLarge (unat (u32_from_be_bytes (take 4 (contents r))))))
    \<and> ctrl_write w data = (w, Inl (FrameTooLarge (length data)))"
  using assms
  by (simp add: ctrl_read_def ctrl_write_def tbind_def read_exact_def contents_def take_map
      task_simps)

theorem ctrl_oversize_refused_witness:
  "outcome (ctrl_read (\<lambda>_. True) (instantly [255, 255, 255, 255]) :: (unit, _) task) =
     Some (0, Inl (FrameTooLarge 4294967295))
   \<and> ctrl_write \<lparr>sent = [], room = None\<rparr> (replicate 4097 0) =
        (\<lparr>sent = [], room = None\<rparr>, Inl (FrameTooLarge 4097))"
proof -
  have v: "unat (u32_from_be_bytes [255, 255, 255, 255]) = 4294967295"
    by (simp add: u32_from_be_bytes_def)
  have h: "4 \<le> length (contents (instantly [255, 255, 255, 255 :: byte]))"
    "MAX_CTRL_FRAME < unat (u32_from_be_bytes (take 4 (contents (instantly [255, 255, 255, 255]))))"
    "MAX_CTRL_FRAME < length (replicate 4097 (0 :: byte))"
    by (simp_all add: MAX_CTRL_FRAME_def v)
  show ?thesis
    using ctrl_oversize_refused [OF h]
    by (simp add: v items_instantly) (simp add: delay_of_def)
qed

text \<open>
  \<open>collect_h2_body\<close> succeeds exactly when the body ends, no chunk is an error and the total is
  within the limit; it then returns the concatenation of the chunks, and has handed back the
  flow-control capacity of every chunk.
\<close>

theorem collect_h2_body_exact:
  "result (collect_h2_body released m body) = Some (Inr b) \<longleftrightarrow>
     fin body \<noteq> None \<and> contents body = map Inr (map projr (contents body))
     \<and> b = concat (map projr (contents body)) \<and> length b \<le> m
     \<and> map snd (effects (collect_h2_body released m body)) =
         map (released \<circ> length \<circ> projr) (contents body)"
  (is "?L \<longleftrightarrow> ?F \<and> ?M \<and> ?B \<and> ?N \<and> ?E")
proof
  assume L: ?L
  then obtain bss where "fin body \<noteq> None" and c: "contents body = map Inr bss"
      and "b = concat bss" and "length b \<le> m \<or> bss = []"
    unfolding collect_h2_body_def result_collect_chunks contents_def by auto
  moreover have "map projr (contents body) = bss"
    by (simp add: c comp_def)
  moreover have ?E
    using released_collect_chunks [OF L [unfolded collect_h2_body_def]]
    by (simp add: collect_h2_body_def contents_def comp_def)
  ultimately show "?F \<and> ?M \<and> ?B \<and> ?N \<and> ?E" by auto
next
  assume "?F \<and> ?M \<and> ?B \<and> ?N \<and> ?E"
  then show ?L
    unfolding collect_h2_body_def result_collect_chunks contents_def by (metis append_Nil map_is_Nil_conv)
qed

end
