(* ===== verification/H2_Transport.thy ===== *)
theory H2_Transport
  imports Async_Task
begin

text \<open>
  The H2 adapters of \<^verbatim>\<open>tunnel-common/src/lib.rs\<close>: \<open>H2Send\<close> and \<open>H2Recv\<close>, which turn an H2
  stream into a byte stream, and the PING-based liveness of an H2 connection. The \<open>h2\<close> crate is
  not part of the repository: what it answers (flow-control capacity, data, pongs) is a script
  the definitions take as an argument.
\<close>

section \<open>Writing\<close>

text \<open>
  \<open>poll_capacity\<close> may report a capacity (zero included), an error, the end of the stream, or that
  it is pending.
\<close>

datatype cap_poll = CapOk nat | CapErr string | CapClosed | CapPending

datatype 'a poll = Ready 'a | Pending

record h2_send =
  capacity :: nat
  queued :: "byte list"
  reserved :: nat
  end_stream :: bool
  send_fails :: "string option"

definition send_data :: "h2_send \<Rightarrow> byte list \<Rightarrow> bool \<Rightarrow> h2_send \<times> (string + unit)" where
  "send_data s bs eos =
     (case send_fails s of
        Some e \<Rightarrow> (s, Inl e)
      | None \<Rightarrow> (s\<lparr>queued := queued s @ bs, capacity := capacity s - length bs,
                  end_stream := eos\<rparr>, Inr ()))"

text \<open>
  \<open>H2Send::poll_write\<close>: the result, the stream and what is left of the script; no result when the
  script ends inside the loop.
\<close>

fun poll_write :: "h2_send \<Rightarrow> byte list \<Rightarrow> cap_poll list \<Rightarrow>
    h2_send \<times> cap_poll list \<times> (string + nat) poll option" where
  "poll_write s buf script =
     (if buf = [] then (s, script, Some (Ready (Inr 0)))
      else
        (let n = min (capacity s) (length buf) in
         if 0 < n then
           (case send_data s (take n buf) False of
              (s', Inl e) \<Rightarrow> (s', script, Some (Ready (Inl e)))
            | (s', Inr _) \<Rightarrow> (s', script, Some (Ready (Inr n))))
         else
           (let s = s\<lparr>reserved := length buf\<rparr> in
            case script of
              [] \<Rightarrow> (s, [], None)
            | CapOk c # rest \<Rightarrow> poll_write (s\<lparr>capacity := c\<rparr>) buf rest
            | CapPending # rest \<Rightarrow> (s, rest, Some Pending)
            | CapErr e # rest \<Rightarrow> (s, rest, Some (Ready (Inl e)))
            | CapClosed # rest \<Rightarrow> (s, rest, Some (Ready (Inl ''closed''))))))"

declare poll_write.simps [simp del]

definition poll_flush :: "h2_send \<Rightarrow> (string + unit) poll" where
  "poll_flush s = Ready (Inr ())"

definition poll_shutdown :: "h2_send \<Rightarrow> h2_send \<times> (string + unit) poll" where
  "poll_shutdown s = (case send_data s [] True of (s', r) \<Rightarrow> (s', Ready r))"

text \<open>The branches of one call.\<close>

lemma poll_write_empty [simp]: "poll_write s [] script = (s, script, Some (Ready (Inr 0)))"
  by (simp add: poll_write.simps)

lemma poll_write_now:
  assumes "buf \<noteq> []" and "0 < capacity s"
  shows "poll_write s buf script =
    (case send_data s (take (min (capacity s) (length buf)) buf) False of
       (s', Inl e) \<Rightarrow> (s', script, Some (Ready (Inl e)))
     | (s', Inr _) \<Rightarrow> (s', script, Some (Ready (Inr (min (capacity s) (length buf))))))"
  using assms by (subst poll_write.simps) (simp add: Let_def)

lemma poll_write_wait:
  assumes "buf \<noteq> []" and "capacity s = 0"
  shows "poll_write s buf [] = (s\<lparr>reserved := length buf\<rparr>, [], None)"
    and "poll_write s buf (CapOk c # rest) =
           poll_write (s\<lparr>reserved := length buf, capacity := c\<rparr>) buf rest"
    and "poll_write s buf (CapPending # rest) =
           (s\<lparr>reserved := length buf\<rparr>, rest, Some Pending)"
    and "poll_write s buf (CapErr e # rest) =
           (s\<lparr>reserved := length buf\<rparr>, rest, Some (Ready (Inl e)))"
    and "poll_write s buf (CapClosed # rest) =
           (s\<lparr>reserved := length buf\<rparr>, rest, Some (Ready (Inl ''closed'')))"
  using assms by (subst poll_write.simps, simp add: Let_def)+

text \<open>
  One call either writes a non-empty prefix, or writes nothing and consumes the script.
\<close>

definition wrote :: "h2_send \<Rightarrow> byte list \<Rightarrow> h2_send \<Rightarrow> (string + nat) poll option \<Rightarrow> bool" where
  "wrote s buf s' r =
     (case r of
        Some (Ready (Inr n)) \<Rightarrow>
          queued s' = queued s @ take n buf \<and> n \<le> length buf \<and> (buf = [] \<or> 0 < n)
      | _ \<Rightarrow> queued s' = queued s)"

text \<open>
  The flow-control window still to come, and a script in which the peer keeps the stream open.
\<close>

fun granted :: "cap_poll list \<Rightarrow> nat" where
  "granted [] = 0"
| "granted (CapOk c # rest) = c + granted rest"
| "granted (_ # rest) = granted rest"

definition open_script :: "cap_poll list \<Rightarrow> bool" where
  "open_script script = list_all (\<lambda>a. case a of CapOk _ \<Rightarrow> True | CapPending \<Rightarrow> True | _ \<Rightarrow> False) script"

definition window :: "h2_send \<Rightarrow> cap_poll list \<Rightarrow> nat" where
  "window s script = capacity s + granted script"

definition written :: "(string + nat) poll option \<Rightarrow> nat" where
  "written r = (case r of Some (Ready (Inr n)) \<Rightarrow> n | _ \<Rightarrow> 0)"

lemma poll_write_immediate:
  assumes "buf = [] \<or> 0 < capacity s" and "poll_write s buf script = (s', script', r)"
  shows "wrote s buf s' r \<and> script' = script \<and> r \<noteq> Some Pending \<and> send_fails s' = send_fails s"
    and "send_fails s = None \<Longrightarrow>
      r = Some (Ready (Inr (written r))) \<and> window s script = written r + window s' script'"
  using assms
  by (cases "buf = []";
      auto simp: poll_write_now send_data_def wrote_def window_def written_def
        split: option.splits)+

lemma poll_write_wrote:
  "poll_write s buf script = (s', script', r) \<Longrightarrow>
   wrote s buf s' r \<and> length script' \<le> length script \<and>
   (r = Some Pending \<longrightarrow> length script' < length script)"
proof (induction script arbitrary: s)
  case Nil
  then show ?case
    using poll_write_immediate(1) [OF _ Nil]
    by (cases "buf = [] \<or> 0 < capacity s") (auto simp: wrote_def poll_write_wait)
next
  case (Cons a script)
  show ?case
  proof (cases "buf = [] \<or> 0 < capacity s")
    case True
    from poll_write_immediate(1) [OF this Cons.prems] show ?thesis by simp
  next
    case False
    then have w: "buf \<noteq> []" "capacity s = 0" by auto
    show ?thesis
    proof (cases a)
      case (CapOk c)
      with Cons.prems w
      have "poll_write (s\<lparr>reserved := length buf, capacity := c\<rparr>) buf script = (s', script', r)"
        by (simp add: poll_write_wait)
      from Cons.IH [OF this] show ?thesis
        by (auto simp: wrote_def split: option.splits poll.splits sum.splits)
    qed (use Cons.prems w in \<open>auto simp: wrote_def poll_write_wait\<close>)
  qed
qed

lemma poll_write_window:
  "poll_write s buf script = (s', script', r) \<Longrightarrow> open_script script \<Longrightarrow> send_fails s = None \<Longrightarrow>
   open_script script' \<and> send_fails s' = None \<and>
   window s script = written r + window s' script' \<and>
   (r = None \<longrightarrow> window s' script' = 0) \<and> (\<forall>e. r \<noteq> Some (Ready (Inl e)))"
proof (induction script arbitrary: s)
  case Nil
  show ?case
  proof (cases "buf = [] \<or> 0 < capacity s")
    case True
    from poll_write_immediate [OF this Nil(1)] Nil show ?thesis
      by (metis option.inject option.distinct(1) poll.inject sum.distinct(1))
  next
    case False
    with Nil show ?thesis by (auto simp: poll_write_wait window_def written_def)
  qed
next
  case (Cons a script)
  show ?case
  proof (cases "buf = [] \<or> 0 < capacity s")
    case True
    from poll_write_immediate [OF this Cons.prems(1)] Cons.prems show ?thesis
      by (metis option.inject option.distinct(1) poll.inject sum.distinct(1))
  next
    case False
    then have w: "buf \<noteq> []" "capacity s = 0" by auto
    show ?thesis
    proof (cases a)
      case (CapOk c)
      with Cons.prems w
      have "poll_write (s\<lparr>reserved := length buf, capacity := c\<rparr>) buf script = (s', script', r)"
        by (simp add: poll_write_wait)
      from Cons.IH [OF this] Cons.prems CapOk w show ?thesis
        by (simp add: open_script_def window_def)
    qed (use Cons.prems w in \<open>auto simp: poll_write_wait open_script_def window_def written_def\<close>)
  qed
qed

text \<open>
  Writing a whole buffer, as \<open>write_all\<close> does over \<open>poll_write\<close>: a pending call is polled again
  when the task is woken.
\<close>

function h2_write_all :: "h2_send \<Rightarrow> byte list \<Rightarrow> cap_poll list \<Rightarrow>
    h2_send \<times> (string + unit) option" where
  "h2_write_all s buf script =
     (if buf = [] then (s, Some (Inr ()))
      else (case poll_write s buf script of
         (s', script', Some (Ready (Inr n))) \<Rightarrow> h2_write_all s' (drop n buf) script'
       | (s', script', Some (Ready (Inl e))) \<Rightarrow> (s', Some (Inl e))
       | (s', script', Some Pending) \<Rightarrow> h2_write_all s' buf script'
       | (s', script', None) \<Rightarrow> (s', None)))"
  by auto
termination
proof (relation "measure (\<lambda>(s, buf, script). length buf + length script)", goal_cases)
  case (2 s buf script s' q script' r u v n)
  then have "poll_write s buf script = (s', script', Some (Ready (Inr n)))" by simp
  from poll_write_wrote [OF this] 2 show ?case by (auto simp: wrote_def)
next
  case (3 s buf script s' q script' r u)
  then have "poll_write s buf script = (s', script', Some Pending)" by simp
  from poll_write_wrote [OF this] show ?case by simp
qed auto

declare h2_write_all.simps [simp del]

lemma h2_write_all_steps:
  assumes "buf \<noteq> []"
  shows "poll_write s buf script = (s', script', Some (Ready (Inr n))) \<Longrightarrow>
           h2_write_all s buf script = h2_write_all s' (drop n buf) script'"
    and "poll_write s buf script = (s', script', Some Pending) \<Longrightarrow>
           h2_write_all s buf script = h2_write_all s' buf script'"
    and "poll_write s buf script = (s', script', Some (Ready (Inl e))) \<Longrightarrow>
           h2_write_all s buf script = (s', Some (Inl e))"
    and "poll_write s buf script = (s', script', None) \<Longrightarrow>
           h2_write_all s buf script = (s', None)"
  using assms by (simp_all add: h2_write_all.simps [of s buf script])

lemma h2_write_all_Nil [simp]: "h2_write_all s [] script = (s, Some (Inr ()))"
  by (simp add: h2_write_all.simps)

lemma poll_result_cases:
  obtains (wrote) n where "r = Some (Ready (Inr n))" | (pending) "r = Some Pending"
    | (failed) e where "r = Some (Ready (Inl e))" | (stuck) "r = None"
proof (cases r)
  case (Some p)
  then show ?thesis
  proof (cases p)
    case (Ready q)
    with Some that show ?thesis by (cases q) simp_all
  qed (use that in simp)
qed (use that in simp)

lemma h2_write_all_prefix:
  "\<exists>k \<le> length buf. queued (fst (h2_write_all s buf script)) = queued s @ take k buf \<and>
     (snd (h2_write_all s buf script) = Some (Inr ()) \<longrightarrow> k = length buf)"
proof (induction "length buf + length script" arbitrary: s buf script rule: less_induct)
  case less
  obtain s' script' r where p: "poll_write s buf script = (s', script', r)"
    by (metis prod_cases3)
  note w = poll_write_wrote [OF p]
  show ?case
  proof (cases "buf = []")
    case False
    note step = h2_write_all_steps [OF False]
    show ?thesis
    proof (cases r rule: poll_result_cases)
      case (wrote n)
      with w False have n: "queued s' = queued s @ take n buf" "n \<le> length buf" "0 < n"
        by (auto simp: wrote_def)
      have "length script' \<le> length script" using w by simp
      with n have "length (drop n buf) + length script' < length buf + length script"
        by (simp only: length_drop)
      from less [OF this, of s'] obtain k where
        k: "k \<le> length (drop n buf)"
          "queued (fst (h2_write_all s' (drop n buf) script')) = queued s' @ take k (drop n buf)"
          "snd (h2_write_all s' (drop n buf) script') = Some (Inr ()) \<longrightarrow> k = length (drop n buf)"
        by blast
      show ?thesis
        using k n wrote p by (intro exI [of _ "n + k"]) (auto simp: step(1) take_add)
    next
      case pending
      with w have "length buf + length script' < length buf + length script"
        and "queued s' = queued s" by (auto simp: wrote_def)
      with less [OF this(1), of s'] pending p show ?thesis by (simp add: step(2))
    next
      case (failed e)
      with w p show ?thesis by (intro exI [of _ 0]) (simp add: step(3) wrote_def)
    next
      case stuck
      with w p show ?thesis by (intro exI [of _ 0]) (simp add: step(4) wrote_def)
    qed
  qed simp
qed

lemma h2_write_all_completes:
  "open_script script \<Longrightarrow> send_fails s = None \<Longrightarrow> length buf \<le> window s script \<Longrightarrow>
   snd (h2_write_all s buf script) = Some (Inr ())"
proof (induction "length buf + length script" arbitrary: s buf script rule: less_induct)
  case less
  obtain s' script' r where p: "poll_write s buf script = (s', script', r)"
    by (metis prod_cases3)
  note w = poll_write_wrote [OF p]
  note v = poll_write_window [OF p less.prems(1,2)]
  show ?case
  proof (cases "buf = []")
    case False
    note step = h2_write_all_steps [OF False]
    show ?thesis
    proof (cases r rule: poll_result_cases)
      case (wrote n)
      with w False have n: "n \<le> length buf" "0 < n" by (auto simp: wrote_def)
      have "length script' \<le> length script" using w by simp
      with n have "length (drop n buf) + length script' < length buf + length script"
        by (simp only: length_drop)
      from less.hyps [OF this, of s'] v n wrote less.prems(3) p show ?thesis
        by (simp add: step(1) written_def)
    next
      case pending
      with w have "length buf + length script' < length buf + length script" by auto
      from less.hyps [OF this, of s'] v pending less.prems(3) p show ?thesis
        by (simp add: step(2) written_def)
    next
      case (failed e)
      with v show ?thesis by simp
    next
      case stuck
      with v less.prems(3) False show ?thesis by (simp add: written_def)
    qed
  qed simp
qed

text \<open>
  Bytes written to an H2 stream are neither lost, repeated nor reordered: whatever the peer's
  flow control does (capacity granted piecemeal, zero-capacity wake-ups, errors, a closed stream),
  what a full-buffer write hands to the stream is a prefix of the buffer, all of it when the write
  succeeds; and as long as the peer keeps the stream open and grants enough window, it does succeed.
\<close>

theorem h2_send_conserves:
  "(\<exists>k \<le> length buf. queued (fst (h2_write_all s buf script)) = queued s @ take k buf \<and>
     (snd (h2_write_all s buf script) = Some (Inr ()) \<longrightarrow> k = length buf)) \<and>
   (open_script script \<and> send_fails s = None \<and> length buf \<le> window s script \<longrightarrow>
     snd (h2_write_all s buf script) = Some (Inr ()))"
  using h2_write_all_prefix [of buf s script] h2_write_all_completes [of script s buf] by blast

theorem h2_send_conserves_witness:
  "snd (h2_write_all \<lparr>capacity = 1, queued = [], reserved = 0, end_stream = False,
      send_fails = None\<rparr> [1, 2, 3] [CapPending, CapOk 0, CapOk 2]) = Some (Inr ())"
  by (rule h2_send_conserves [THEN conjunct2, rule_format])
     (simp add: open_script_def window_def)

section \<open>Reading\<close>

datatype data_poll = DataOk "byte list" | DataErr string | DataEnd | DataPending

record h2_recv =
  recv_buf :: "byte list"
  incoming :: "data_poll list"
  released :: nat

definition H2Recv_new :: "data_poll list \<Rightarrow> h2_recv" where
  "H2Recv_new r = \<lparr>recv_buf = [], incoming = r, released = 0\<rparr>"

text \<open>
  \<open>H2Recv::poll_read\<close> into a buffer with \<open>room\<close> free bytes, returning the bytes put there. A
  stream that has said everything in the script has ended.
\<close>

definition poll_read :: "h2_recv \<Rightarrow> nat \<Rightarrow> h2_recv \<times> (string + byte list) poll" where
  "poll_read s room =
     (if recv_buf s \<noteq> [] then
        (let n = min room (length (recv_buf s)) in
         (s\<lparr>recv_buf := drop n (recv_buf s)\<rparr>, Ready (Inr (take n (recv_buf s)))))
      else
        (case incoming s of
           DataOk data # rest \<Rightarrow>
             (let s = s\<lparr>incoming := rest, released := released s + length data\<rparr>;
                  n = min room (length data) in
              (if n < length data then s\<lparr>recv_buf := drop n data\<rparr> else s,
               Ready (Inr (take n data))))
         | DataErr e # rest \<Rightarrow> (s\<lparr>incoming := rest\<rparr>, Ready (Inl e))
         | DataEnd # rest \<Rightarrow> (s\<lparr>incoming := rest\<rparr>, Ready (Inr []))
         | DataPending # rest \<Rightarrow> (s\<lparr>incoming := rest\<rparr>, Pending)
         | [] \<Rightarrow> (s, Ready (Inr []))))"

text \<open>The bytes the stream still owes its reader.\<close>

fun payload :: "data_poll list \<Rightarrow> byte list" where
  "payload [] = []"
| "payload (DataOk d # rest) = d @ payload rest"
| "payload (_ # rest) = payload rest"

definition unread :: "h2_recv \<Rightarrow> byte list" where
  "unread s = recv_buf s @ payload (incoming s)"

definition delivered :: "(string + byte list) poll \<Rightarrow> byte list" where
  "delivered r = (case r of Ready (Inr bs) \<Rightarrow> bs | _ \<Rightarrow> [])"

lemma poll_read_conserves:
  assumes "poll_read s room = (s', r)"
  shows "unread s = delivered r @ unread s'"
    and "released s + length (payload (incoming s)) = released s' + length (payload (incoming s'))"
    and "length (incoming s') \<le> length (incoming s)"
    and "r = Pending \<Longrightarrow> length (incoming s') < length (incoming s)"
  using assms
  by (auto simp: poll_read_def unread_def delivered_def Let_def
      split: if_splits list.splits data_poll.splits)

text \<open>
  A reader that polls until it is told the end: as \<open>AsyncRead\<close> has it, a ready read that puts no
  byte into the buffer.
\<close>

function h2_read_all :: "nat \<Rightarrow> h2_recv \<Rightarrow> h2_recv \<times> byte list \<times> string option" where
  "h2_read_all room s =
     (case poll_read s room of
        (s', Pending) \<Rightarrow> h2_read_all room s'
      | (s', Ready (Inl e)) \<Rightarrow> (s', [], Some e)
      | (s', Ready (Inr bs)) \<Rightarrow>
          if bs = [] then (s', [], None)
          else (case h2_read_all room s' of (s'', out, e) \<Rightarrow> (s'', bs @ out, e)))"
  by auto
termination
proof (relation "measure (\<lambda>(room, s). length (unread s) + length (incoming s))", goal_cases)
  case (2 room s s' r q bs)
  then have "poll_read s room = (s', Ready (Inr bs))" by simp
  from poll_read_conserves [OF this] 2(4) show ?case
    by (cases bs) (auto simp: delivered_def)
next
  case (3 room s s' r)
  then have "poll_read s room = (s', Pending)" by simp
  from poll_read_conserves [OF this] show ?case by (simp add: delivered_def)
qed simp

declare h2_read_all.simps [simp del]

text \<open>What the reader is shown: the chunks up to an error, the end, or an empty chunk.\<close>

fun shown :: "data_poll list \<Rightarrow> byte list \<times> string option" where
  "shown [] = ([], None)"
| "shown (DataOk d # rest) = (if d = [] then ([], None) else apfst ((@) d) (shown rest))"
| "shown (DataErr e # rest) = ([], Some e)"
| "shown (DataEnd # rest) = ([], None)"
| "shown (DataPending # rest) = shown rest"

lemma h2_read_all_Ready:
  assumes "poll_read s room = (s', Ready (Inr bs))" and "bs \<noteq> []"
  shows "snd (h2_read_all room s) = apfst ((@) bs) (snd (h2_read_all room s'))"
  using assms by (cases "h2_read_all room s'") (simp add: h2_read_all.simps [of room s])

lemma h2_read_all_stop:
  "poll_read s room = (s', Ready (Inr [])) \<Longrightarrow> snd (h2_read_all room s) = ([], None)"
  "poll_read s room = (s', Ready (Inl e)) \<Longrightarrow> snd (h2_read_all room s) = ([], Some e)"
  "poll_read s room = (s', Pending) \<Longrightarrow> h2_read_all room s = h2_read_all room s'"
  by (simp_all add: h2_read_all.simps [of room s])

lemma h2_read_all_shown:
  "0 < room \<Longrightarrow> snd (h2_read_all room s) = apfst ((@) (recv_buf s)) (shown (incoming s))"
proof (induction "length (unread s) + length (incoming s)" arbitrary: s rule: less_induct)
  case less
  obtain out e where sh: "shown (incoming s) = (out, e)" by (metis surj_pair)
  show ?case
  proof (cases "recv_buf s = []")
    case False
    let ?s = "s\<lparr>recv_buf := drop room (recv_buf s)\<rparr>"
    have p: "poll_read s room = (?s, Ready (Inr (take room (recv_buf s))))"
      using False by (simp add: poll_read_def Let_def min_def)
    have "length (unread ?s) + length (incoming ?s) < length (unread s) + length (incoming s)"
      using less.prems False by (simp add: unread_def)
    from less.hyps [OF this less.prems] h2_read_all_Ready [OF p] less.prems False sh
    show ?thesis by simp
  next
    case empty: True
    show ?thesis
    proof (cases "incoming s")
      case Nil
      with empty show ?thesis by (simp add: h2_read_all_stop poll_read_def)
    next
      case (Cons a rest)
      show ?thesis
      proof (cases a)
        case (DataOk d)
        let ?s = "s\<lparr>recv_buf := drop room d, incoming := rest, released := released s + length d\<rparr>"
        have p: "poll_read s room = (?s, Ready (Inr (take room d)))"
          using empty Cons DataOk by (cases s) (auto simp: poll_read_def Let_def min_def)
        have "length (unread ?s) + length (incoming ?s) < length (unread s) + length (incoming s)"
          using empty Cons DataOk by (simp add: unread_def)
        from less.hyps [OF this less.prems]
        have ih: "snd (h2_read_all room ?s) = apfst ((@) (drop room d)) (shown rest)" by simp
        show ?thesis
        proof (cases "d = []")
          case True
          with p empty Cons DataOk show ?thesis by (simp add: h2_read_all_stop)
        next
          case False
          then show ?thesis
            using h2_read_all_Ready [OF p] ih less.prems empty Cons DataOk
            by (cases "shown rest") simp
        qed
      next
        case DataPending
        let ?s = "s\<lparr>incoming := rest\<rparr>"
        have p: "poll_read s room = (?s, Pending)"
          using empty Cons DataPending by (simp add: poll_read_def)
        have "length (unread ?s) + length (incoming ?s) < length (unread s) + length (incoming s)"
          using empty Cons DataPending by (simp add: unread_def)
        from less.hyps [OF this less.prems] empty Cons DataPending show ?thesis
          by (simp add: h2_read_all_stop(3) [OF p])
      qed (use empty Cons in \<open>simp_all add: h2_read_all_stop poll_read_def\<close>)
    qed
  qed
qed

lemma shown_chunks:
  "filter ((\<noteq>) DataPending) script = map DataOk chunks \<Longrightarrow>
   shown script = (concat (takeWhile ((\<noteq>) []) chunks), None)"
proof (induction script arbitrary: chunks)
  case (Cons a script)
  show ?case
  proof (cases "a = DataPending")
    case True
    with Cons show ?thesis by simp
  next
    case False
    with Cons show ?thesis by (cases a; cases chunks) auto
  qed
qed simp

text \<open>
  C39. A reader of an H2 stream gets the chunks of the body in order whatever the size of its
  buffer and however the chunks arrive, but only up to the first empty chunk: an empty DATA frame
  in the middle of a stream looks like its end.
\<close>

theorem h2_recv_delivers:
  assumes "0 < room" and "filter ((\<noteq>) DataPending) script = map DataOk chunks"
  shows "snd (h2_read_all room (H2Recv_new script)) = (concat (takeWhile ((\<noteq>) []) chunks), None)"
  using assms by (simp add: h2_read_all_shown H2Recv_new_def shown_chunks)

theorem h2_recv_delivers_witness:
  "snd (h2_read_all 2 (H2Recv_new [DataOk [1, 2, 3], DataPending, DataOk [], DataOk [4]])) =
     ([1, 2, 3], None)"
  using h2_recv_delivers
    [of 2 "[DataOk [1, 2, 3], DataPending, DataOk [], DataOk [4]]" "[[1, 2, 3], [], [4]]"]
  by simp

section \<open>Liveness of an established connection\<close>

definition H2_PING_INTERVAL :: duration where "H2_PING_INTERVAL = from_secs 10"

definition H2_PING_TIMEOUT :: duration where "H2_PING_TIMEOUT = from_secs 20"

definition H2_DATA_STREAM_WINDOW :: u32 where "H2_DATA_STREAM_WINDOW = 10000000"

definition H2_DATA_CONN_WINDOW :: u32 where "H2_DATA_CONN_WINDOW = 10000000"

definition QUIC_KEEP_ALIVE_INTERVAL :: duration where "QUIC_KEEP_ALIVE_INTERVAL = from_secs 10"

definition QUIC_MAX_IDLE_TIMEOUT :: duration where
  "QUIC_MAX_IDLE_TIMEOUT = from_secs (as_secs H2_PING_INTERVAL + as_secs H2_PING_TIMEOUT)"

record h2_keepalive =
  interval :: duration
  ping_timeout :: duration

definition H2KeepAlive_default :: h2_keepalive where
  "H2KeepAlive_default = \<lparr>interval = H2_PING_INTERVAL, ping_timeout = H2_PING_TIMEOUT\<rparr>"

definition H2KeepAlive_validate :: "h2_keepalive \<Rightarrow> string + unit" where
  "H2KeepAlive_validate k =
     (if interval k = 0 then Inl ''h2_keepalive.interval must be greater than zero''
      else if ping_timeout k = 0 then Inl ''h2_keepalive.timeout must be greater than zero''
      else Inr ())"

text \<open>
  The loop that pings the peer, against the answers to its pings in order; after them the peer
  is silent.
\<close>

datatype ping_failure = PingFailed string | NoPong duration

definition ping_answer :: "h2_keepalive \<Rightarrow> (string + unit) fut \<Rightarrow> ('e, ping_failure option) task" where
  "ping_answer k pong =
     tbind (timeout (ping_timeout k) (await pong))
       (\<lambda>r. tret (case r of
          Some (Inr _) \<Rightarrow> None
        | Some (Inl e) \<Rightarrow> Some (PingFailed e)
        | None \<Rightarrow> Some (NoPong (ping_timeout k))))"

fun h2_ping_loop :: "h2_keepalive \<Rightarrow> (string + unit) fut list \<Rightarrow> ('e, ping_failure) task" where
  "h2_ping_loop k [] =
     tthen (sleep (interval k)) (tbind (ping_answer k None) (\<lambda>r. tret (the r)))"
| "h2_ping_loop k (pong # pongs) =
     tthen (sleep (interval k))
       (tbind (ping_answer k pong)
          (\<lambda>r. case r of None \<Rightarrow> h2_ping_loop k pongs | Some f \<Rightarrow> tret f))"

text \<open>An answer in time, and what any other answer costs.\<close>

fun prompt :: "h2_keepalive \<Rightarrow> (string + unit) fut \<Rightarrow> bool" where
  "prompt k (Some (t, Inr _)) \<longleftrightarrow> t \<le> ping_timeout k"
| "prompt k _ \<longleftrightarrow> False"

fun verdict :: "h2_keepalive \<Rightarrow> (string + unit) fut \<Rightarrow> duration \<times> ping_failure" where
  "verdict k (Some (t, Inl e)) =
     (if t \<le> ping_timeout k then (t, PingFailed e) else (ping_timeout k, NoPong (ping_timeout k)))"
| "verdict k _ = (ping_timeout k, NoPong (ping_timeout k))"

definition rounds_time :: "h2_keepalive \<Rightarrow> (string + unit) fut list \<Rightarrow> duration" where
  "rounds_time k pongs = sum_list (map (\<lambda>p. interval k + (case p of None \<Rightarrow> 0 | Some (t, _) \<Rightarrow> t)) pongs)"

lemma outcome_ping_answer:
  "outcome (ping_answer k pong :: ('e, _) task) =
     (if prompt k pong then Some (fst (the pong), None)
      else Some (fst (verdict k pong), Some (snd (verdict k pong))))"
  by (cases "(k, pong)" rule: verdict.cases)
     (auto simp: ping_answer_def tbind_def timeout_def task_simps split: sum.splits)

lemma verdict_le: "fst (verdict k pong) \<le> ping_timeout k"
  by (cases "(k, pong)" rule: verdict.cases) auto

lemma ping_loop_dead:
  assumes "\<not> prompt k pong"
  shows "outcome (h2_ping_loop k (pong # rest) :: ('e, _) task) =
    Some (interval k + fst (verdict k pong), snd (verdict k pong))"
  using assms
  by (cases "verdict k pong") (simp add: tthen_sleep task_simps tbind_def outcome_ping_answer)

lemma ping_loop_alive:
  assumes "prompt k pong"
  shows "outcome (h2_ping_loop k (pong # rest) :: ('e, _) task) =
    map_option (apfst ((+) (rounds_time k [pong]))) (outcome (h2_ping_loop k rest :: ('e, _) task))"
  using assms
  by (cases pong)
     (auto simp: tthen_sleep task_simps tbind_def outcome_ping_answer rounds_time_def)

lemma ping_loop_rounds:
  "list_all (prompt k) good \<Longrightarrow>
   outcome (h2_ping_loop k (good @ rest) :: ('e, _) task) =
     map_option (apfst ((+) (rounds_time k good))) (outcome (h2_ping_loop k rest :: ('e, _) task))"
proof (induction good)
  case Nil
  then show ?case by (simp add: rounds_time_def del: h2_ping_loop.simps)
next
  case (Cons pong good)
  have "rounds_time k (pong # good) = rounds_time k [pong] + rounds_time k good"
    by (simp add: rounds_time_def)
  moreover have "outcome (h2_ping_loop k (pong # good @ rest) :: ('e, _) task) =
    map_option (apfst ((+) (rounds_time k [pong])))
      (outcome (h2_ping_loop k (good @ rest) :: ('e, _) task))"
    using Cons.prems by (intro ping_loop_alive) simp
  ultimately show ?case
    using Cons by (simp add: task_simps del: h2_ping_loop.simps)
qed

text \<open>
  C36. The PING loop keeps a connection for as long as every PONG arrives within the timeout, and
  resolves within one interval plus one timeout of the last good PONG once an answer is late,
  missing or an error. With the default values that window is exactly the QUIC idle timeout, so
  both transports give up on a dead peer alike.
\<close>

theorem ping_loop_detects:
  assumes "list_all (prompt k) good" and "\<not> prompt k bad"
  shows "(\<exists>t f. outcome (h2_ping_loop k (good @ bad # rest) :: (unit, _) task) =
        Some (rounds_time k good + t, f) \<and> interval k \<le> t \<and> t \<le> interval k + ping_timeout k) \<and>
      interval H2KeepAlive_default + ping_timeout H2KeepAlive_default = QUIC_MAX_IDLE_TIMEOUT"
proof
  have "outcome (h2_ping_loop k (good @ bad # rest) :: (unit, _) task) =
      Some (rounds_time k good + (interval k + fst (verdict k bad)), snd (verdict k bad))"
    by (simp add: ping_loop_rounds [OF assms(1)] ping_loop_dead [OF assms(2)]
        del: h2_ping_loop.simps)
  then show "\<exists>t f. outcome (h2_ping_loop k (good @ bad # rest) :: (unit, _) task) =
        Some (rounds_time k good + t, f) \<and> interval k \<le> t \<and> t \<le> interval k + ping_timeout k"
    using verdict_le [of k bad] by auto
qed (simp add: H2KeepAlive_default_def QUIC_MAX_IDLE_TIMEOUT_def H2_PING_INTERVAL_def
      H2_PING_TIMEOUT_def from_secs_def as_secs_def)

theorem ping_loop_detects_witness:
  "\<exists>t f. outcome (h2_ping_loop H2KeepAlive_default ([Some (5, Inr ())] @ None # []) :: (unit, _) task) =
     Some (rounds_time H2KeepAlive_default [Some (5, Inr ())] + t, f) \<and>
     interval H2KeepAlive_default \<le> t \<and>
     t \<le> interval H2KeepAlive_default + ping_timeout H2KeepAlive_default"
  by (rule ping_loop_detects [THEN conjunct1])
     (simp_all add: H2KeepAlive_default_def H2_PING_TIMEOUT_def from_secs_def)

end
