(* ===== verification/Agent_Registry.thy ===== *)
theory Agent_Registry
  imports Tunnel_Prelude "HOL-Library.Multiset"
begin

text \<open>
  The relay's shared state (\<^verbatim>\<open>tunnel-server/src/lib.rs\<close> and \<open>register\<close> of \<^verbatim>\<open>util.rs\<close>): the pools of
  agents, one per client id, and the table of connections waiting for an ACME challenge. Both
  are concurrent maps, changed by one atomic map operation at a time; the interleavings of the
  tasks that change them are the step relations \<open>registry_step\<close> and \<open>pending_step\<close>.
\<close>

section \<open>A pool of agents\<close>

type_synonym conn = nat

datatype agent = Quic conn | H2 conn

record agent_pool =
  counter :: usize
  agents :: "(u64 \<times> agent) list"

definition pool_default :: agent_pool where
  "pool_default = \<lparr>counter = 0, agents = []\<rparr>"

definition pool_push :: "u64 \<Rightarrow> agent \<Rightarrow> agent_pool \<Rightarrow> agent_pool" where
  "pool_push uid a p = p\<lparr>agents := agents p @ [(uid, a)]\<rparr>"

definition pool_remove :: "u64 \<Rightarrow> agent_pool \<Rightarrow> agent_pool" where
  "pool_remove uid p = p\<lparr>agents := filter (\<lambda>(u, _). u \<noteq> uid) (agents p)\<rparr>"

definition pool_is_empty :: "agent_pool \<Rightarrow> bool" where
  "pool_is_empty p \<longleftrightarrow> agents p = []"

definition next_agent :: "agent_pool \<Rightarrow> agent_pool \<times> agent option" where
  "next_agent p =
     (if agents p = [] then (p, None)
      else (let idx = unat (counter p) mod length (agents p) in
            (p\<lparr>counter := counter p + 1\<rparr>, Some (snd (agents p ! idx)))))"

text \<open>Consecutive requests for an agent of one pool.\<close>

fun picks :: "nat \<Rightarrow> agent_pool \<Rightarrow> agent_pool \<times> agent option list" where
  "picks 0 p = (p, [])"
| "picks (Suc n) p =
     (let (p, a) = next_agent p; (p, as) = picks n p in (p, a # as))"

lemma agents_next_agent [simp]: "agents (fst (next_agent p)) = agents p"
  by (simp add: next_agent_def Let_def)

lemma next_agent_None [simp]: "snd (next_agent p) = None \<longleftrightarrow> agents p = []"
  by (simp add: next_agent_def Let_def)

lemma next_agent_Some: "snd (next_agent p) = Some a \<Longrightarrow> a \<in> snd ` set (agents p)"
  by (auto simp: next_agent_def Let_def split: if_splits intro!: imageI)

lemma unat_Suc: "Suc (unat c) < 2 ^ 64 \<Longrightarrow> unat (c + 1 :: u64) = Suc (unat c)"
  by (simp add: unat_word_ariths)

lemma picks_nth:
  assumes "agents p \<noteq> []" and "unat (counter p) + n \<le> 2 ^ 64"
  shows "snd (picks n p) =
    map (\<lambda>i. Some (snd (agents p ! (i mod length (agents p)))))
      [unat (counter p) ..< unat (counter p) + n]"
  using assms
proof (induction n arbitrary: p)
  case (Suc n)
  let ?p = "fst (next_agent p)"
  have c: "counter ?p = counter p + 1" using Suc.prems by (simp add: next_agent_def Let_def)
  show ?case
  proof (cases n)
    case 0
    then show ?thesis using Suc.prems by (simp add: next_agent_def Let_def)
  next
    case (Suc m)
    then have u: "unat (counter ?p) = Suc (unat (counter p))"
      using Suc.prems by (simp add: c unat_Suc)
    have "snd (picks n ?p) = map (\<lambda>i. Some (snd (agents p ! (i mod length (agents p)))))
        [Suc (unat (counter p)) ..< Suc (unat (counter p)) + n]"
      using Suc.IH [of ?p] Suc.prems by (simp add: u)
    moreover have "[c ..< c + Suc n] = c # [Suc c ..< Suc c + n]" for c :: nat
      by (simp add: upt_conv_Cons del: upt_Suc)
    moreover have "snd (picks (Suc n) p) = snd (next_agent p) # snd (picks n ?p)"
      by (simp split: prod.splits)
    ultimately show ?thesis
      using Suc.prems by (simp add: next_agent_def Let_def del: upt_Suc)
  qed
qed simp

text \<open>Every residue comes up once in a full round.\<close>

lemma mset_round: "mset (map (\<lambda>i. i mod n) [c ..< c + n]) = mset [0 ..< n :: nat]"
proof (induction c)
  case 0
  have "map (\<lambda>i. i mod n) [0 ..< n] = [0 ..< n]" by (rule map_idI) simp
  then show ?case by simp
next
  case (Suc c)
  show ?case
  proof (cases n)
    case (Suc m)
    have "[c ..< c + n] = c # [Suc c ..< c + n]" "[Suc c ..< Suc c + n] = [Suc c ..< c + n] @ [c + n]"
      using Suc by (simp_all add: upt_conv_Cons)
    with Suc.IH show ?thesis by simp
  qed simp
qed

lemma mset_rounds:
  "mset (map (\<lambda>i. i mod n) [c ..< c + k * n]) = repeat_mset k (mset [0 ..< n :: nat])"
proof (induction k)
  case (Suc k)
  have "[c ..< c + Suc k * n] = [c ..< c + k * n] @ [c + k * n ..< c + k * n + n]"
    by (subst upt_add_eq_append [symmetric]) (simp_all add: algebra_simps)
  with Suc mset_round [of n "c + k * n"] show ?case by simp
qed simp

lemma image_repeat_mset: "image_mset f (repeat_mset k M) = repeat_mset k (image_mset f M)"
  by (induction k) simp_all

text \<open>
  Requests are spread evenly over the agents of a pool: in any run of whole rounds in which
  the pool does not change and the counter does not wrap around, every agent is chosen exactly
  once per round.
\<close>

theorem round_robin_fair:
  assumes "agents p \<noteq> []" and "unat (counter p) + k * length (agents p) \<le> 2 ^ 64"
  shows "mset (snd (picks (k * length (agents p)) p)) =
    repeat_mset k (mset (map (Some \<circ> snd) (agents p)))"
proof -
  let ?n = "length (agents p)" and ?pick = "\<lambda>i. Some (snd (agents p ! i))"
  have "snd (picks (k * ?n) p) =
      map ?pick (map (\<lambda>i. i mod ?n) [unat (counter p) ..< unat (counter p) + k * ?n])"
    by (simp only: picks_nth [OF assms] map_map comp_def)
  then have "mset (snd (picks (k * ?n) p)) = repeat_mset k (image_mset ?pick (mset [0 ..< ?n]))"
    by (simp only: mset_map [of ?pick] mset_rounds image_repeat_mset)
  also have "image_mset ?pick (mset [0 ..< ?n]) = mset (map ?pick [0 ..< ?n])"
    by (simp only: mset_map)
  also have "map ?pick [0 ..< ?n] = map (Some \<circ> snd) (agents p)"
    by (rule nth_equalityI) simp_all
  finally show ?thesis .
qed

theorem round_robin_fair_witness:
  "mset (snd (picks (2 * length (agents \<lparr>counter = 5, agents = [(7, Quic 1), (9, H2 2)]\<rparr>))
      \<lparr>counter = 5, agents = [(7, Quic 1), (9, H2 2)]\<rparr>)) =
   repeat_mset 2 (mset (map (Some \<circ> snd)
      (agents \<lparr>counter = 5, agents = [(7, Quic 1), (9, H2 2)]\<rparr>)))"
  by (rule round_robin_fair) simp_all

section \<open>Registration and clean-up\<close>

text \<open>
  A registration adds the agent under a random uid and spawns a task that, once the connection is
  gone, removes it again in two map operations. \<open>Live\<close>: the connection is up. \<open>Unlinked\<close>: the
  first operation is done. \<open>Gone\<close>: both are.
\<close>

datatype phase = Live | Unlinked | Gone

record registration =
  reg_id :: string
  reg_uid :: u64
  reg_agent :: agent
  reg_phase :: phase

record registry =
  pools :: "string \<rightharpoonup> agent_pool"
  regs :: "registration list"

definition register :: "string \<Rightarrow> u64 \<Rightarrow> agent \<Rightarrow> registry \<Rightarrow> registry" where
  "register i uid a s =
     s\<lparr>pools := (pools s)(i \<mapsto> pool_push uid a (case pools s i of Some p \<Rightarrow> p | None \<Rightarrow> pool_default)),
       regs := regs s @ [\<lparr>reg_id = i, reg_uid = uid, reg_agent = a, reg_phase = Live\<rparr>]\<rparr>"

definition set_phase :: "nat \<Rightarrow> phase \<Rightarrow> registry \<Rightarrow> registry" where
  "set_phase k ph s = s\<lparr>regs := (regs s)[k := (regs s ! k)\<lparr>reg_phase := ph\<rparr>]\<rparr>"

definition unlink :: "nat \<Rightarrow> registry \<Rightarrow> registry" where
  "unlink k s =
     (let r = regs s ! k in
      set_phase k Unlinked
        (case pools s (reg_id r) of
           Some p \<Rightarrow> s\<lparr>pools := (pools s)(reg_id r \<mapsto> pool_remove (reg_uid r) p)\<rparr>
         | None \<Rightarrow> s))"

definition drop_if_empty :: "nat \<Rightarrow> registry \<Rightarrow> registry" where
  "drop_if_empty k s =
     (let r = regs s ! k in
      set_phase k Gone
        (case pools s (reg_id r) of
           Some p \<Rightarrow> if pool_is_empty p then s\<lparr>pools := (pools s)(reg_id r := None)\<rparr> else s
         | None \<Rightarrow> s))"

text \<open>The lookup of the public listener: an agent of the pool for this id, if there is one.\<close>

definition pick :: "string \<Rightarrow> registry \<Rightarrow> registry \<times> agent option" where
  "pick i s =
     (case pools s i of
        None \<Rightarrow> (s, None)
      | Some p \<Rightarrow> (s\<lparr>pools := (pools s)(i \<mapsto> fst (next_agent p))\<rparr>, snd (next_agent p)))"

definition registry_init :: "registry \<Rightarrow> bool" where
  "registry_init s \<longleftrightarrow> s = \<lparr>pools = Map.empty, regs = []\<rparr>"

inductive registry_step :: "registry \<Rightarrow> registry \<Rightarrow> bool" where
  step_register: "registry_step s (register i uid a s)"
| step_unlink: "k < length (regs s) \<Longrightarrow> reg_phase (regs s ! k) = Live \<Longrightarrow>
    registry_step s (unlink k s)"
| step_drop: "k < length (regs s) \<Longrightarrow> reg_phase (regs s ! k) = Unlinked \<Longrightarrow>
    registry_step s (drop_if_empty k s)"
| step_pick: "registry_step s (fst (pick i s))"

text \<open>
  What the pools stand for: the registrations of an id whose connection is up, in the order they
  came. That is what the map holds as long as no two registrations of an id drew the same uid;
  and an empty pool is one whose clean-up is half way.
\<close>

definition entries :: "registry \<Rightarrow> string \<Rightarrow> (u64 \<times> agent) list" where
  "entries s i = (case pools s i of None \<Rightarrow> [] | Some p \<Rightarrow> agents p)"

definition live_links :: "string \<Rightarrow> registration list \<Rightarrow> (u64 \<times> agent) list" where
  "live_links i rs = map (\<lambda>r. (reg_uid r, reg_agent r))
     (filter (\<lambda>r. reg_id r = i \<and> reg_phase r = Live) rs)"

definition links :: "registry \<Rightarrow> string \<Rightarrow> (u64 \<times> agent) list" where
  "links s i = live_links i (regs s)"

definition reg_key :: "registration \<Rightarrow> string \<times> u64" where
  "reg_key r = (reg_id r, reg_uid r)"

definition keys_distinct :: "registry \<Rightarrow> bool" where
  "keys_distinct s \<longleftrightarrow> distinct (map reg_key (regs s))"

definition registry_inv :: "registry \<Rightarrow> bool" where
  "registry_inv s \<longleftrightarrow>
     (\<forall>i. set (entries s i) \<subseteq> set (links s i)) \<and>
     (keys_distinct s \<longrightarrow> (\<forall>i. entries s i = links s i)) \<and>
     (\<forall>i p. pools s i = Some p \<longrightarrow> agents p = [] \<longrightarrow>
        (\<exists>r \<in> set (regs s). reg_id r = i \<and> reg_phase r = Unlinked))"

lemma live_links_simps [simp]:
  "live_links i [] = []"
  "live_links i (r # rs) =
     (if reg_id r = i \<and> reg_phase r = Live then [(reg_uid r, reg_agent r)] else []) @ live_links i rs"
  "live_links i (rs @ rs') = live_links i rs @ live_links i rs'"
  by (simp_all add: live_links_def)

lemma live_links_other_uid:
  assumes "(i, uid) \<notin> reg_key ` set rs"
  shows "filter (\<lambda>(u, _). u \<noteq> uid) (live_links i rs) = live_links i rs"
  unfolding filter_id_conv using assms by (force simp: live_links_def reg_key_def)

text \<open>The maps and the registrations after each operation.\<close>

lemma regs_ops [simp]:
  "regs (register i uid a s) = regs s @ [\<lparr>reg_id = i, reg_uid = uid, reg_agent = a, reg_phase = Live\<rparr>]"
  "regs (unlink k s) = (regs s)[k := (regs s ! k)\<lparr>reg_phase := Unlinked\<rparr>]"
  "regs (drop_if_empty k s) = (regs s)[k := (regs s ! k)\<lparr>reg_phase := Gone\<rparr>]"
  "regs (fst (pick i s)) = regs s"
  by (auto simp: register_def unlink_def drop_if_empty_def set_phase_def pick_def Let_def
      split: option.splits)

lemma entries_ops:
  "entries (register j uid a s) i = (if i = j then entries s i @ [(uid, a)] else entries s i)"
  "entries (unlink k s) i =
     (if i = reg_id (regs s ! k)
      then filter (\<lambda>(u, _). u \<noteq> reg_uid (regs s ! k)) (entries s i) else entries s i)"
  "entries (drop_if_empty k s) i = entries s i"
  "entries (fst (pick j s)) i = entries s i"
  by (auto simp: entries_def register_def unlink_def drop_if_empty_def set_phase_def pick_def
      pool_push_def pool_remove_def pool_default_def pool_is_empty_def Let_def split: option.splits)

lemma regs_split:
  assumes "k < length rs"
  shows "rs = take k rs @ rs ! k # drop (Suc k) rs"
    and "rs[k := x] = take k rs @ x # drop (Suc k) rs"
  using assms by (simp_all add: id_take_nth_drop [symmetric] upd_conv_take_nth_drop)

lemma keys_update:
  "k < length rs \<Longrightarrow> map reg_key (rs[k := (rs ! k)\<lparr>reg_phase := ph\<rparr>]) = map reg_key rs"
  by (simp add: map_update reg_key_def list_update_same_conv)

lemma links_unlink:
  assumes "k < length (regs s)" and "keys_distinct s"
  shows "links (unlink k s) i =
    (if i = reg_id (regs s ! k)
     then filter (\<lambda>(u, _). u \<noteq> reg_uid (regs s ! k)) (links s i) else links s i)"
proof -
  define r where "r = regs s ! k"
  define xs where "xs = take k (regs s)"
  define ys where "ys = drop (Suc k) (regs s)"
  have split: "regs s = xs @ r # ys" "(regs s)[k := y] = xs @ y # ys" for y
    unfolding r_def xs_def ys_def by (rule regs_split [OF assms(1)])+
  have "reg_key r \<notin> reg_key ` set xs" "reg_key r \<notin> reg_key ` set ys"
    using assms(2) by (auto simp: keys_distinct_def split(1))
  then have "(reg_id r, reg_uid r) \<notin> reg_key ` set xs" "(reg_id r, reg_uid r) \<notin> reg_key ` set ys"
    by (simp_all add: reg_key_def)
  then show ?thesis
    by (simp add: links_def split(2) flip: r_def)
       (simp add: split(1) live_links_other_uid)
qed

lemma links_not_Live:
  assumes "k < length (regs s)" and "ph \<noteq> Live"
  shows "set (live_links i (regs s)) \<subseteq> set (live_links i ((regs s)[k := (regs s ! k)\<lparr>reg_phase := ph\<rparr>]))
     \<union> (if i = reg_id (regs s ! k) \<and> reg_phase (regs s ! k) = Live
        then {(reg_uid (regs s ! k), reg_agent (regs s ! k))} else {})"
    and "reg_phase (regs s ! k) \<noteq> Live \<Longrightarrow>
      live_links i ((regs s)[k := (regs s ! k)\<lparr>reg_phase := ph\<rparr>]) = live_links i (regs s)"
proof -
  define r where "r = regs s ! k"
  define xs where "xs = take k (regs s)"
  define ys where "ys = drop (Suc k) (regs s)"
  have split: "regs s = xs @ r # ys" "(regs s)[k := y] = xs @ y # ys" for y
    unfolding r_def xs_def ys_def by (rule regs_split [OF assms(1)])+
  show "set (live_links i (regs s)) \<subseteq> set (live_links i ((regs s)[k := (regs s ! k)\<lparr>reg_phase := ph\<rparr>]))
     \<union> (if i = reg_id (regs s ! k) \<and> reg_phase (regs s ! k) = Live
        then {(reg_uid (regs s ! k), reg_agent (regs s ! k))} else {})"
    using assms(2) by (simp add: split(2) flip: r_def) (auto simp: split(1))
  show "reg_phase (regs s ! k) \<noteq> Live \<Longrightarrow>
      live_links i ((regs s)[k := (regs s ! k)\<lparr>reg_phase := ph\<rparr>]) = live_links i (regs s)"
    using assms(2) by (simp add: split(2) flip: r_def) (auto simp: split(1))
qed

text \<open>Each step keeps the invariant.\<close>

lemma pools_ops:
  "pools (register j uid a s) i = Some p \<Longrightarrow> agents p = [] \<Longrightarrow> i \<noteq> j \<and> pools s i = Some p"
  "pools (unlink k s) i = Some p \<Longrightarrow> agents p = [] \<Longrightarrow>
     i = reg_id (regs s ! k) \<or> pools s i = Some p"
  "pools (drop_if_empty k s) i = Some p \<Longrightarrow> agents p = [] \<Longrightarrow>
     i \<noteq> reg_id (regs s ! k) \<and> pools s i = Some p"
  "pools (fst (pick j s)) i = Some p \<Longrightarrow> \<exists>q. pools s i = Some q \<and> agents q = agents p"
  by (auto simp: register_def unlink_def drop_if_empty_def set_phase_def pick_def pool_push_def
      pool_is_empty_def Let_def split: option.splits if_splits)

lemma set_update_other: "r \<in> set rs \<Longrightarrow> r \<noteq> rs ! k \<Longrightarrow> r \<in> set (rs[k := x])"
  by (metis in_set_conv_nth length_list_update nth_list_update_neq)

lemma inv_register:
  assumes "registry_inv s"
  shows "registry_inv (register i uid a s)"
proof -
  have d: "keys_distinct s" if "keys_distinct (register i uid a s)"
    using that by (simp add: keys_distinct_def)
  have "\<exists>r \<in> set (regs (register i uid a s)). reg_id r = j \<and> reg_phase r = Unlinked"
    if "pools (register i uid a s) j = Some p" "agents p = []" for j p
    using pools_ops(1) [OF that] assms that(2) by (auto simp: registry_inv_def)
  with assms d show ?thesis
    by (auto simp: registry_inv_def entries_ops links_def)
qed

lemma inv_unlink:
  assumes inv: "registry_inv s" and k: "k < length (regs s)" and live: "reg_phase (regs s ! k) = Live"
  shows "registry_inv (unlink k s)"
proof -
  have d: "keys_distinct s" if "keys_distinct (unlink k s)"
    using that k by (simp add: keys_distinct_def keys_update)
  have "set (entries (unlink k s) i) \<subseteq> set (links (unlink k s) i)" for i
  proof
    fix x assume "x \<in> set (entries (unlink k s) i)"
    then have "x \<in> set (links s i)" "i = reg_id (regs s ! k) \<Longrightarrow> fst x \<noteq> reg_uid (regs s ! k)"
      using inv by (auto simp: registry_inv_def entries_ops split: if_splits)
    then show "x \<in> set (links (unlink k s) i)"
      using links_not_Live(1) [OF k, of Unlinked i] by (auto simp: links_def split: if_splits)
  qed
  moreover have "entries (unlink k s) i = links (unlink k s) i" if "keys_distinct (unlink k s)" for i
    using inv d [OF that] by (simp add: registry_inv_def entries_ops links_unlink [OF k])
  moreover have "\<exists>r \<in> set (regs (unlink k s)). reg_id r = i \<and> reg_phase r = Unlinked"
    if "pools (unlink k s) i = Some p" "agents p = []" for i p
  proof (cases "i = reg_id (regs s ! k)")
    case True
    with k show ?thesis
      by (intro bexI [of _ "regs (unlink k s) ! k"]) (auto simp: set_update_memI)
  next
    case False
    with pools_ops(2) [OF that] have "pools s i = Some p" by simp
    with inv that(2) obtain r
      where r: "r \<in> set (regs s)" "reg_id r = i" "reg_phase r = Unlinked"
      unfolding registry_inv_def by blast
    with live have "r \<noteq> regs s ! k" by auto
    with r show ?thesis by (auto intro: set_update_other)
  qed
  ultimately show ?thesis by (simp add: registry_inv_def)
qed

lemma inv_drop:
  assumes inv: "registry_inv s" and k: "k < length (regs s)"
    and ph: "reg_phase (regs s ! k) = Unlinked"
  shows "registry_inv (drop_if_empty k s)"
proof -
  have l: "links (drop_if_empty k s) i = links s i" for i
    using links_not_Live(2) [OF k, of Gone i] ph by (simp add: links_def)
  have d: "keys_distinct s" if "keys_distinct (drop_if_empty k s)"
    using that k by (simp add: keys_distinct_def keys_update)
  have "\<exists>r \<in> set (regs (drop_if_empty k s)). reg_id r = i \<and> reg_phase r = Unlinked"
    if "pools (drop_if_empty k s) i = Some p" "agents p = []" for i p
  proof -
    from pools_ops(3) [OF that] have p: "pools s i = Some p" "i \<noteq> reg_id (regs s ! k)" by simp_all
    with inv that(2) obtain r
      where r: "r \<in> set (regs s)" "reg_id r = i" "reg_phase r = Unlinked"
      unfolding registry_inv_def by blast
    with p have "r \<noteq> regs s ! k" by auto
    with r show ?thesis by (auto intro: set_update_other)
  qed
  with inv d show ?thesis by (simp add: registry_inv_def entries_ops l)
qed

lemma inv_pick:
  assumes "registry_inv s"
  shows "registry_inv (fst (pick i s))"
proof -
  have "\<exists>r \<in> set (regs s). reg_id r = j \<and> reg_phase r = Unlinked"
    if "pools (fst (pick i s)) j = Some p" "agents p = []" for j p
    using pools_ops(4) [OF that(1)] assms that(2) by (auto simp: registry_inv_def)
  with assms show ?thesis
    by (simp add: registry_inv_def entries_ops links_def keys_distinct_def)
qed

interpretation registry: invariant_of registry_init registry_step registry_inv
proof unfold_locales
  show "registry_init s \<Longrightarrow> registry_inv s" for s
    by (simp add: registry_init_def registry_inv_def entries_def links_def)
  show "registry_inv s \<Longrightarrow> registry_step s t \<Longrightarrow> registry_inv t" for s t
    by (erule registry_step.cases) (auto intro: inv_register inv_unlink inv_drop inv_pick)
qed

lemma registry_reach:
  "reachable registry_init registry_step \<lparr>pools = Map.empty, regs = []\<rparr>"
  "reachable registry_init registry_step s \<Longrightarrow>
     reachable registry_init registry_step (register i uid a s)"
  "reachable registry_init registry_step s \<Longrightarrow> k < length (regs s) \<Longrightarrow>
     reg_phase (regs s ! k) = Live \<Longrightarrow> reachable registry_init registry_step (unlink k s)"
  by (auto intro: reachable.intros registry_step.intros simp: registry_init_def)

text \<open>
  C6. However registrations, clean-ups and requests interleave, the pool of an id holds exactly
  the agents of that id whose connection is up, in the order they registered (given that no two
  registrations of an id drew the same uid); a request for an id finds an agent precisely when one
  of its connections is up; and an id whose clean-ups are all complete and which has no connection
  left has no pool left.
\<close>

theorem registry_tracks_live_agents:
  assumes "reachable registry_init registry_step s" and "keys_distinct s"
  shows "entries s i = links s i \<and>
    ((\<exists>a. snd (pick i s) = Some a) \<longleftrightarrow> links s i \<noteq> []) \<and>
    ((\<forall>r \<in> set (regs s). reg_id r = i \<longrightarrow> reg_phase r = Gone) \<longrightarrow> pools s i = None)"
proof -
  have inv: "registry_inv s" using assms(1) by (rule registry.inv_reachable)
  then have e: "entries s i = links s i" using assms(2) by (simp add: registry_inv_def)
  moreover have "(\<exists>a. snd (pick i s) = Some a) \<longleftrightarrow> entries s i \<noteq> []"
    by (auto simp: pick_def entries_def split: option.splits simp flip: not_None_eq)
  moreover have "pools s i = None"
    if gone: "\<forall>r \<in> set (regs s). reg_id r = i \<longrightarrow> reg_phase r = Gone"
  proof (rule ccontr)
    assume "pools s i \<noteq> None"
    then obtain p where p: "pools s i = Some p" by blast
    have "links s i = []" using gone by (auto simp: links_def live_links_def filter_empty_conv)
    with e p have "agents p = []" by (simp add: entries_def)
    with inv p obtain r where "r \<in> set (regs s)" "reg_id r = i" "reg_phase r = Unlinked"
      unfolding registry_inv_def by blast
    with gone show False by auto
  qed
  ultimately show ?thesis by simp
qed

theorem registry_tracks_live_agents_witness:
  "let s = unlink 0 (register ''a'' 2 (H2 5) (register ''a'' 1 (Quic 4) \<lparr>pools = Map.empty, regs = []\<rparr>))
   in entries s ''a'' = links s ''a''"
  unfolding Let_def
  by (rule registry_tracks_live_agents [THEN conjunct1])
     (simp_all add: keys_distinct_def reg_key_def registry_reach)

section \<open>Connections waiting for a challenge\<close>

datatype pending_conn = PendingQuic conn | PendingH2 conn

record pending_alpn =
  token :: u64
  pending_conn :: pending_conn

record pending_state =
  pending :: "string \<rightharpoonup> pending_alpn"
  next_token :: u64

definition pending_alpn_insert :: "string \<Rightarrow> pending_conn \<Rightarrow> pending_state \<Rightarrow> pending_state \<times> u64" where
  "pending_alpn_insert i c s =
     (let t = next_token s in
      (s\<lparr>next_token := t + 1, pending := (pending s)(i \<mapsto> \<lparr>token = t, pending_conn = c\<rparr>)\<rparr>, t))"

definition pending_alpn_remove :: "string \<Rightarrow> u64 \<Rightarrow> pending_state \<Rightarrow> pending_state" where
  "pending_alpn_remove i t s =
     (case pending s i of
        Some e \<Rightarrow> if token e = t then s\<lparr>pending := (pending s)(i := None)\<rparr> else s
      | None \<Rightarrow> s)"

text \<open>
  The connections that waited so far, newest first: the id, the token the insertion returned, the
  connection, and whether its clean-up has run. Every connection cleans up with its own token.
\<close>

record waiter =
  w_id :: string
  w_token :: u64
  w_conn :: pending_conn
  w_done :: bool

type_synonym pending_run = "pending_state \<times> waiter list"

definition pending_init :: "pending_run \<Rightarrow> bool" where
  "pending_init s \<longleftrightarrow> s = (\<lparr>pending = Map.empty, next_token = 0\<rparr>, [])"

inductive pending_step :: "pending_run \<Rightarrow> pending_run \<Rightarrow> bool" where
  pstep_insert: "pending_alpn_insert i c s = (s', t) \<Longrightarrow>
    pending_step (s, ws) (s', \<lparr>w_id = i, w_token = t, w_conn = c, w_done = False\<rparr> # ws)"
| pstep_remove: "k < length ws \<Longrightarrow>
    pending_step (s, ws) (pending_alpn_remove (w_id (ws ! k)) (w_token (ws ! k)) s,
      ws[k := (ws ! k)\<lparr>w_done := True\<rparr>])"

text \<open>What the table stands for: the newest waiter of the id, unless it has cleaned up.\<close>

definition newest :: "waiter list \<Rightarrow> string \<Rightarrow> pending_alpn option" where
  "newest ws i =
     (case find (\<lambda>w. w_id w = i) ws of
        Some w \<Rightarrow> if w_done w then None else Some \<lparr>token = w_token w, pending_conn = w_conn w\<rparr>
      | None \<Rightarrow> None)"

definition pending_inv :: "pending_run \<Rightarrow> bool" where
  "pending_inv = (\<lambda>(s, ws). length ws \<le> 2 ^ 64 \<longrightarrow>
     next_token s = of_nat (length ws) \<and>
     map w_token ws = map of_nat (rev [0 ..< length ws]) \<and>
     (\<forall>i. pending s i = newest ws i))"

lemma newest_simps [simp]:
  "newest [] i = None"
  "newest (w # ws) i =
     (if w_id w = i
      then if w_done w then None else Some \<lparr>token = w_token w, pending_conn = w_conn w\<rparr>
      else newest ws i)"
  by (simp_all add: newest_def)

lemma newest_update:
  assumes "k < length ws" and "distinct (map w_token ws)"
  shows "newest (ws[k := (ws ! k)\<lparr>w_done := True\<rparr>]) i =
    (case newest ws i of
       Some e \<Rightarrow> if i = w_id (ws ! k) \<and> token e = w_token (ws ! k) then None else Some e
     | None \<Rightarrow> None)"
  using assms
proof (induction ws arbitrary: k)
  case (Cons w ws)
  show ?case
  proof (cases k)
    case 0
    have "w_token w \<noteq> token e" if e: "newest ws i = Some e" for e
    proof -
      obtain v where "find (\<lambda>w. w_id w = i) ws = Some v" "token e = w_token v"
        using e by (auto simp: newest_def split: option.splits if_splits)
      then have "token e \<in> set (map w_token ws)" by (auto simp: find_Some_iff)
      with Cons.prems(2) show ?thesis by auto
    qed
    with 0 show ?thesis by (auto split: option.splits)
  next
    case (Suc j)
    with Cons.prems have "w_token w \<noteq> w_token (ws ! j)" by auto
    with Suc Cons show ?thesis by (auto split: option.splits)
  qed
qed simp

lemma tokens_distinct:
  assumes "n \<le> 2 ^ 64"
  shows "distinct (map (of_nat :: nat \<Rightarrow> u64) (rev [0 ..< n]))"
proof -
  have "inj_on (of_nat :: nat \<Rightarrow> u64) {0 ..< n}"
    using assms by (intro inj_onI) (simp add: word_of_nat_eq_iff take_bit_nat_eq_self)
  then show ?thesis by (simp add: distinct_map)
qed

lemma pending_inv_insert:
  assumes "pending_inv (s, ws)" and "pending_alpn_insert i c s = (s', t)"
  shows "pending_inv (s', \<lparr>w_id = i, w_token = t, w_conn = c, w_done = False\<rparr> # ws)"
  using assms by (auto simp: pending_inv_def pending_alpn_insert_def Let_def)

lemma pending_inv_remove:
  assumes inv: "pending_inv (s, ws)" and k: "k < length ws"
  shows "pending_inv (pending_alpn_remove (w_id (ws ! k)) (w_token (ws ! k)) s,
    ws[k := (ws ! k)\<lparr>w_done := True\<rparr>])"
proof (cases "length ws \<le> 2 ^ 64")
  case True
  with inv have ws: "next_token s = of_nat (length ws)" "map w_token ws = map of_nat (rev [0 ..< length ws])"
    and p: "pending s i = newest ws i" for i
    by (simp_all add: pending_inv_def)
  have d: "distinct (map w_token ws)" unfolding ws by (rule tokens_distinct) (rule True)
  have "map w_token (ws[k := (ws ! k)\<lparr>w_done := True\<rparr>]) = map w_token ws"
    using k by (simp add: map_update list_update_same_conv)
  moreover have "next_token (pending_alpn_remove j t s) = next_token s" for j t
    by (simp add: pending_alpn_remove_def split: option.splits)
  moreover have "pending (pending_alpn_remove (w_id (ws ! k)) (w_token (ws ! k)) s) i =
      newest (ws[k := (ws ! k)\<lparr>w_done := True\<rparr>]) i" for i
    by (auto simp: newest_update [OF k d] pending_alpn_remove_def p split: option.splits)
  ultimately show ?thesis using ws by (simp add: pending_inv_def)
qed (simp add: pending_inv_def)

interpretation pending_table: invariant_of pending_init pending_step pending_inv
proof unfold_locales
  show "pending_init s \<Longrightarrow> pending_inv s" for s
    by (simp add: pending_init_def pending_inv_def)
  show "pending_inv s \<Longrightarrow> pending_step s t \<Longrightarrow> pending_inv t" for s t
    by (erule pending_step.cases) (auto intro: pending_inv_insert pending_inv_remove)
qed

text \<open>
  A reconnecting client's challenge entry is never removed by the clean-up of the connection
  it replaced: whatever the order of insertions and clean-ups, the entry of an id is the newest
  connection that waited for it, until that very connection cleans up.
\<close>

theorem pending_is_newest:
  assumes "reachable pending_init pending_step (s, ws)" and "length ws \<le> 2 ^ 64"
  shows "pending s i = newest ws i"
  using pending_table.inv_reachable [OF assms(1)] assms(2) by (simp add: pending_inv_def)

lemma pending_reach:
  "reachable pending_init pending_step (\<lparr>pending = Map.empty, next_token = 0\<rparr>, [])"
  "reachable pending_init pending_step (s, ws) \<Longrightarrow>
     reachable pending_init pending_step
       (fst (pending_alpn_insert i c s),
        \<lparr>w_id = i, w_token = snd (pending_alpn_insert i c s), w_conn = c, w_done = False\<rparr> # ws)"
  "reachable pending_init pending_step (s, ws) \<Longrightarrow> k < length ws \<Longrightarrow>
     reachable pending_init pending_step
       (pending_alpn_remove (w_id (ws ! k)) (w_token (ws ! k)) s, ws[k := (ws ! k)\<lparr>w_done := True\<rparr>])"
  subgoal by (simp add: reach_init pending_init_def)
  subgoal by (erule reach_step, rule pstep_insert) simp
  subgoal by (erule reach_step, erule pstep_remove)
  done

theorem pending_is_newest_witness:
  "let s0 = \<lparr>pending = Map.empty, next_token = 0\<rparr>;
       s1 = fst (pending_alpn_insert ''a'' (PendingQuic 1) s0);
       s2 = fst (pending_alpn_insert ''a'' (PendingH2 2) s1)
   in pending (pending_alpn_remove ''a'' 0 s2) ''a'' = Some \<lparr>token = 1, pending_conn = PendingH2 2\<rparr>"
proof -
  let ?s0 = "\<lparr>pending = Map.empty, next_token = 0\<rparr>"
  let ?s1 = "fst (pending_alpn_insert ''a'' (PendingQuic 1) ?s0)"
  let ?s2 = "fst (pending_alpn_insert ''a'' (PendingH2 2) ?s1)"
  let ?ws = "[\<lparr>w_id = ''a'', w_token = 1, w_conn = PendingH2 2, w_done = False\<rparr>,
      \<lparr>w_id = ''a'', w_token = 0, w_conn = PendingQuic 1, w_done = False\<rparr>]"
  have "reachable pending_init pending_step (?s2, ?ws)"
    using pending_reach(2) [OF pending_reach(2) [OF pending_reach(1), of "''a''" "PendingQuic 1"],
        of "''a''" "PendingH2 2"]
    by (simp add: pending_alpn_insert_def)
  from pending_is_newest [OF pending_reach(3) [OF this, of 1], of "''a''"] show ?thesis by simp
qed

end
