(* ===== verification/Identity.thy ===== *)
theory Identity
  imports Tunnel_Prelude
begin

text \<open>
  Who a client is and what it may do: the pure checks of \<^verbatim>\<open>tunnel-server/src/util.rs\<close>. The crates
  they call (hashing, encodings, P-256 key recovery, the X.509, DER and TLS parsers) are not part
  of the repository; they are the fields of \<open>libs\<close>, an argument of every definition that uses one.
\<close>

section \<open>Library functions\<close>

record x509 =
  subject_public_key :: "byte list"
  x509_extensions :: "(string \<times> byte list) list"
  not_before :: int
  not_after :: int

datatype tls_message = ClientHello "byte list option" | OtherMessage

datatype tls_extension = SNI "(nat \<times> byte list) list" | ALPN "byte list list" | OtherExtension

record libs =
  sha256 :: "byte list \<Rightarrow> byte list"
  hex_encode :: "byte list \<Rightarrow> string"
  base64_encode :: "byte list \<Rightarrow> string"
  sig_try_from :: "byte list \<Rightarrow> byte list option"
  recover_verifying_key :: "byte list \<Rightarrow> byte list \<Rightarrow> byte list option"
  to_encoded_point :: "byte list \<Rightarrow> byte list"
  parse_x509_certificate :: "byte list \<Rightarrow> x509 option"
  parse_der_bytes :: "byte list \<Rightarrow> byte list option"
  parse_tls_plaintext :: "byte list \<Rightarrow> tls_message list option"
  parse_tls_extensions :: "byte list \<Rightarrow> tls_extension list option"

section \<open>Checks\<close>

definition CUSTOM_DATA_EXT_OID_STR :: string where
  "CUSTOM_DATA_EXT_OID_STR = ''1.3.6.1.4.1.65535.1''"

definition allowed_suffix :: "string \<Rightarrow> string list \<Rightarrow> bool" where
  "allowed_suffix domain suffixes \<longleftrightarrow>
     suffixes = [] \<or> list_ex (\<lambda>s. ends_with domain (CHR ''.'' # s)) suffixes"

definition id_from_pubkey :: "libs \<Rightarrow> byte list \<Rightarrow> string" where
  "id_from_pubkey l pubkey = hex_encode l (take 8 (sha256 l pubkey))"

definition recover_identity_pubkey :: "libs \<Rightarrow> string \<Rightarrow> byte list \<Rightarrow> byte list option" where
  "recover_identity_pubkey l domain sig_recoverable =
     Option.bind (sig_try_from l sig_recoverable) (\<lambda>rec_sig.
     Option.bind (recover_verifying_key l rec_sig (as_bytes domain)) (\<lambda>vk.
       (let pubkey = to_encoded_point l vk;
            id_target = split_next (CHR ''.'') domain in
        if id_from_pubkey l pubkey = id_target then Some pubkey else None)))"

definition pubkey_from_cert :: "libs \<Rightarrow> byte list \<Rightarrow> byte list option" where
  "pubkey_from_cert l cert_der =
     map_option subject_public_key (parse_x509_certificate l cert_der)"

fun custom_data_ext :: "libs \<Rightarrow> (string \<times> byte list) list \<Rightarrow> byte list option" where
  "custom_data_ext l [] = None"
| "custom_data_ext l ((oid, val) # exts) =
     (if oid = CUSTOM_DATA_EXT_OID_STR then parse_der_bytes l val else custom_data_ext l exts)"

definition custom_data_from_cert :: "libs \<Rightarrow> byte list \<Rightarrow> byte list option" where
  "custom_data_from_cert l cert_der =
     Option.bind (parse_x509_certificate l cert_der) (\<lambda>c. custom_data_ext l (x509_extensions c))"

definition compute_txt_expected :: "libs \<Rightarrow> byte list \<Rightarrow> string \<Rightarrow> string" where
  "compute_txt_expected l deployment_source host =
     base64_encode l (sha256 l (deployment_source @ as_bytes host))"

definition ZERO_DEPLOYMENT_SOURCE :: "byte list" where
  "ZERO_DEPLOYMENT_SOURCE = replicate 64 0"

definition txt_authorizes :: "libs \<Rightarrow> byte list list \<Rightarrow> byte list \<Rightarrow> string \<Rightarrow> bool" where
  "txt_authorizes l txts deployment_source host =
     (let open_mark = compute_txt_expected l ZERO_DEPLOYMENT_SOURCE host in
      if length txts = 1 \<and> txts ! 0 = as_bytes open_mark then True
      else list_ex (\<lambda>v. v = as_bytes (compute_txt_expected l deployment_source host)) txts)"

definition ACME_TLS_ALPN :: "byte list" where
  "ACME_TLS_ALPN = as_bytes ''acme-tls/1''"

fun scan_extensions :: "tls_extension list \<Rightarrow> string option \<Rightarrow> bool \<Rightarrow> string option \<times> bool" where
  "scan_extensions [] sni is_acme = (sni, is_acme)"
| "scan_extensions (SNI names # exts) sni is_acme =
     scan_extensions exts
       (case names of [] \<Rightarrow> None | (_, name) # _ \<Rightarrow> from_utf8 name) is_acme"
| "scan_extensions (ALPN protos # exts) sni is_acme =
     scan_extensions exts sni (list_ex (\<lambda>p. p = ACME_TLS_ALPN) protos)"
| "scan_extensions (OtherExtension # exts) sni is_acme = scan_extensions exts sni is_acme"

definition extract_sni_alpn :: "libs \<Rightarrow> byte list \<Rightarrow> (string \<times> bool) option" where
  "extract_sni_alpn l data =
     (case parse_tls_plaintext l data of
        Some (ClientHello (Some ext) # _) \<Rightarrow>
          (case parse_tls_extensions l ext of
             Some extensions \<Rightarrow>
               (case scan_extensions extensions None False of
                  (sni, is_acme) \<Rightarrow> map_option (\<lambda>s. (s, is_acme)) sni)
           | None \<Rightarrow> None)
      | _ \<Rightarrow> None)"

section \<open>What they establish\<close>

lemma allowed_suffix_iff:
  "allowed_suffix domain suffixes \<longleftrightarrow>
     suffixes = [] \<or> (\<exists>s \<in> set suffixes. \<exists>p. domain = p @ CHR ''.'' # s)"
  by (auto simp: allowed_suffix_def list_ex_iff std_simps)

lemma recover_identity_pubkey_Some:
  "recover_identity_pubkey l domain s = Some pk \<Longrightarrow>
   id_from_pubkey l pk = split_next (CHR ''.'') domain \<and>
   (\<exists>r vk. sig_try_from l s = Some r \<and> recover_verifying_key l r (as_bytes domain) = Some vk \<and>
     pk = to_encoded_point l vk)"
  by (auto simp: recover_identity_pubkey_def bind_eq_Some_conv Let_def split: if_splits)

lemma txt_authorizes_iff:
  "txt_authorizes l txts src host \<longleftrightarrow>
     txts = [as_bytes (compute_txt_expected l ZERO_DEPLOYMENT_SOURCE host)] \<or>
     as_bytes (compute_txt_expected l src host) \<in> set txts"
  by (cases txts) (auto simp: txt_authorizes_def Let_def list_ex_iff)

lemma as_bytes_inj [simp]: "as_bytes s = as_bytes t \<longleftrightarrow> s = t"
  by (metis str_of_as_bytes)

text \<open>
  DNS authorisation: the TXT values of a host authorise a deployment source exactly when one of
  them is that source's own marker, or the open marker is the only value there. In a zone with any
  further value the open marker lets no other source in, as long as the marker hash tells the two
  sources apart.
\<close>

theorem txt_open_marker_alone:
  assumes "compute_txt_expected l src host \<noteq> compute_txt_expected l ZERO_DEPLOYMENT_SOURCE host"
    and "as_bytes (compute_txt_expected l ZERO_DEPLOYMENT_SOURCE host) \<in> set txts"
  shows "txt_authorizes l txts src host \<longleftrightarrow>
    length txts = 1 \<or> as_bytes (compute_txt_expected l src host) \<in> set txts"
  using assms by (cases txts) (auto simp: txt_authorizes_iff)

definition demo_libs :: libs where
  "demo_libs = \<lparr>sha256 = id, hex_encode = str_of_bytes, base64_encode = str_of_bytes,
     sig_try_from = Some, recover_verifying_key = (\<lambda>s m. if take (length m) s = m then Some (drop (length m) s) else None),
     to_encoded_point = id, parse_x509_certificate = (\<lambda>_. None), parse_der_bytes = Some,
     parse_tls_plaintext = (\<lambda>_. None), parse_tls_extensions = (\<lambda>_. None)\<rparr>"

lemma demo_marker_length [simp]:
  "length (compute_txt_expected demo_libs src host) = length src + length host"
  "length (as_bytes t) = length t"
  by (simp_all add: demo_libs_def compute_txt_expected_def as_bytes_def str_of_bytes_def)

theorem txt_open_marker_alone_witness:
  "\<not> txt_authorizes demo_libs
       [as_bytes (compute_txt_expected demo_libs ZERO_DEPLOYMENT_SOURCE ''h''), [9]] [1] ''h''"
proof -
  let ?m = "\<lambda>src. compute_txt_expected demo_libs src ''h''"
  have "length (?m [1]) \<noteq> length (?m ZERO_DEPLOYMENT_SOURCE)"
    by (simp add: ZERO_DEPLOYMENT_SOURCE_def)
  then have ne: "?m [1] \<noteq> ?m ZERO_DEPLOYMENT_SOURCE" by metis
  have "length (as_bytes (?m [1])) \<noteq> length [9 :: byte]" by simp
  then have "as_bytes (?m [1]) \<noteq> [9]" by metis
  then show ?thesis
    using txt_open_marker_alone [OF ne, of "[as_bytes (?m ZERO_DEPLOYMENT_SOURCE), [9]]"] ne by simp
qed

end
