(* ===== verification/Admission.thy ===== *)
theory Admission
  imports Tunnel_Prelude
begin

text \<open>
  Admission control (\<^verbatim>\<open>tunnel-server/src/admission.rs\<close>): one budget of permits per listener for
  connections that are accepted but not yet authenticated, and a throttled warning for refusals.
  The semaphore of \<open>tokio\<close> is the number of permits it has left.
\<close>

definition MAX_UNAUTHENTICATED_CONNS :: nat where "MAX_UNAUTHENTICATED_CONNS = 512"

definition REFUSAL_LOG_INTERVAL :: duration where "REFUSAL_LOG_INTERVAL = from_secs 5"

definition AUTH_EXCHANGE_TIMEOUT :: duration where "AUTH_EXCHANGE_TIMEOUT = from_secs 30"

definition KEY_AUTH_TIMEOUT :: duration where "KEY_AUTH_TIMEOUT = from_secs 120"

record admission =
  proto :: string
  permits :: nat
  last_refusal_log :: "instant option"

definition Admission_new :: "string \<Rightarrow> admission" where
  "Admission_new p = \<lparr>proto = p, permits = MAX_UNAUTHENTICATED_CONNS, last_refusal_log = None\<rparr>"

datatype admit = Permit | RefusedWarn | RefusedDebug

definition try_admit :: "instant \<Rightarrow> admission \<Rightarrow> admission \<times> admit" where
  "try_admit now s =
     (if 0 < permits s then (s\<lparr>permits := permits s - 1\<rparr>, Permit)
      else if (case last_refusal_log s of None \<Rightarrow> True
               | Some t \<Rightarrow> REFUSAL_LOG_INTERVAL \<le> now - t)
           then (s\<lparr>last_refusal_log := Some now\<rparr>, RefusedWarn)
           else (s, RefusedDebug))"

definition release :: "admission \<Rightarrow> admission" where
  "release s = s\<lparr>permits := permits s + 1\<rparr>"

text \<open>
  A listener at work: connections arrive, and the tasks of admitted ones give their permit back.
  The run keeps the number of permits out, the connections refused, and the times of the
  warnings, newest first.
\<close>

record admission_run =
  adm :: admission
  held :: nat
  clock :: instant
  warnings :: "instant list"

definition arrive :: "instant \<Rightarrow> admission_run \<Rightarrow> admission_run" where
  "arrive now r =
     (case try_admit now (adm r) of
        (a, Permit) \<Rightarrow> r\<lparr>adm := a, held := held r + 1, clock := now\<rparr>
      | (a, RefusedWarn) \<Rightarrow> r\<lparr>adm := a, clock := now, warnings := now # warnings r\<rparr>
      | (a, RefusedDebug) \<Rightarrow> r\<lparr>adm := a, clock := now\<rparr>)"

definition admission_init :: "admission_run \<Rightarrow> bool" where
  "admission_init r \<longleftrightarrow>
     (\<exists>p. r = \<lparr>adm = Admission_new p, held = 0, clock = 0, warnings = []\<rparr>)"

inductive admission_step :: "admission_run \<Rightarrow> admission_run \<Rightarrow> bool" where
  adm_arrive: "clock r \<le> now \<Longrightarrow> admission_step r (arrive now r)"
| adm_release: "0 < held r \<Longrightarrow> admission_step r (r\<lparr>adm := release (adm r), held := held r - 1\<rparr>)"

text \<open>Warnings, newest first, at least the log interval apart.\<close>

fun spaced :: "duration \<Rightarrow> instant list \<Rightarrow> bool" where
  "spaced d (a # b # ts) \<longleftrightarrow> b + d \<le> a \<and> spaced d (b # ts)"
| "spaced d _ \<longleftrightarrow> True"

definition admission_inv :: "admission_run \<Rightarrow> bool" where
  "admission_inv r \<longleftrightarrow>
     permits (adm r) + held r = MAX_UNAUTHENTICATED_CONNS \<and>
     last_refusal_log (adm r) = (case warnings r of [] \<Rightarrow> None | t # _ \<Rightarrow> Some t) \<and>
     (\<forall>t \<in> set (warnings r). t \<le> clock r) \<and> spaced REFUSAL_LOG_INTERVAL (warnings r)"

lemma spaced_Cons: "spaced d (a # ts) \<longleftrightarrow> (case ts of [] \<Rightarrow> True | b # _ \<Rightarrow> b + d \<le> a \<and> spaced d ts)"
  by (cases ts) auto

lemma admission_inv_arrive:
  assumes "admission_inv r" and "clock r \<le> now"
  shows "admission_inv (arrive now r)"
proof (cases "warnings r")
  case Nil
  with assms show ?thesis
    by (auto simp: admission_inv_def arrive_def try_admit_def)
next
  case (Cons t ts)
  with assms have "t \<le> now" "\<forall>u \<in> set ts. u \<le> now" by (auto simp: admission_inv_def)
  then have "t + REFUSAL_LOG_INTERVAL \<le> now" if "REFUSAL_LOG_INTERVAL \<le> now - t"
    using that by simp
  with assms Cons \<open>t \<le> now\<close> \<open>\<forall>u \<in> set ts. u \<le> now\<close> show ?thesis
    by (simp add: admission_inv_def arrive_def try_admit_def)
qed

lemma admission_inv_release:
  "admission_inv r \<Longrightarrow> 0 < held r \<Longrightarrow>
   admission_inv (r\<lparr>adm := release (adm r), held := held r - 1\<rparr>)"
  by (simp add: admission_inv_def release_def)

interpretation admission: invariant_of admission_init admission_step admission_inv
proof unfold_locales
  show "admission_init r \<Longrightarrow> admission_inv r" for r
    by (auto simp: admission_init_def admission_inv_def Admission_new_def)
  show "admission_inv r \<Longrightarrow> admission_step r s \<Longrightarrow> admission_inv s" for r s
    by (erule admission_step.cases)
       (simp_all only: admission_inv_arrive admission_inv_release)
qed

text \<open>
  Admission: at any moment at most 512 connections of a listener are admitted and not yet
  authenticated, however arrivals and releases interleave; a connection is admitted exactly when
  fewer than that are, so no permit is ever lost; and refusals are warned about at most once per
  five seconds.
\<close>

theorem admission_bounded:
  assumes "reachable admission_init admission_step r"
  shows "held r \<le> MAX_UNAUTHENTICATED_CONNS \<and>
    (snd (try_admit now (adm r)) = Permit \<longleftrightarrow> held r < MAX_UNAUTHENTICATED_CONNS) \<and>
    spaced REFUSAL_LOG_INTERVAL (warnings r)"
  using admission.inv_reachable [OF assms]
  by (auto simp: admission_inv_def try_admit_def)

theorem admission_bounded_witness:
  "held (arrive 7 \<lparr>adm = Admission_new ''QUIC'', held = 0, clock = 0, warnings = []\<rparr>)
     \<le> MAX_UNAUTHENTICATED_CONNS"
proof -
  have "reachable admission_init admission_step
      (arrive 7 \<lparr>adm = Admission_new ''QUIC'', held = 0, clock = 0, warnings = []\<rparr>)"
    by (rule reach_step, rule reach_init, auto simp: admission_init_def intro: adm_arrive)
  from admission_bounded [OF this] show ?thesis by simp
qed

end
