(* ===== verification/Relay_Auth.thy ===== *)
theory Relay_Auth
  imports Ctrl_Frame Identity Admission
begin

text \<open>
  What both listeners of the relay share: the events a connection handler has, the context it is
  given, the certificate check, and the contract of the authentication exchange, stated once and
  refined by the QUIC and the H2 exchange in their own theories.
\<close>

section \<open>Events and context\<close>

datatype relay_event =
    CloseConn u32 string      \<comment> \<open>QUIC connection closed with a code and a reason\<close>
  | RejectSent string         \<comment> \<open>H2 rejection request carrying the reason\<close>
  | TxtLookup string          \<comment> \<open>DNS query\<close>
  | ReleasePermit             \<comment> \<open>the unauthenticated-connection permit is dropped\<close>
  | PendingInsert string      \<comment> \<open>entered in the challenge table\<close>
  | PendingRemove string      \<comment> \<open>removed from it, by its own token\<close>
  | CtrlSent "byte list"      \<comment> \<open>bytes on the control stream\<close>
  | Released nat              \<comment> \<open>H2 flow-control capacity returned\<close>
  | RaiseSignal               \<comment> \<open>H2 driver told to raise its windows\<close>
  | AbortDriver               \<comment> \<open>H2 driver task aborted\<close>
  | Register string           \<comment> \<open>agent registered under this id\<close>

type_synonym 'a relay_task = "(relay_event, 'a) task"

record listener_ctx =
  domain_suffixes :: "string list"
  auth_handler :: "(byte list \<Rightarrow> byte list option \<Rightarrow> string + byte list option) option"
  txt_lookup :: "string \<Rightarrow> (string + byte list list list) fut"

text \<open>The certificate step: a reason for rejection, or the deployment source to check, if any.\<close>

definition check_cert :: "libs \<Rightarrow> listener_ctx \<Rightarrow> byte list \<Rightarrow> string + byte list option" where
  "check_cert l ctx cert =
     (let custom_data = custom_data_from_cert l cert in
      case auth_handler ctx of
        None \<Rightarrow> Inr None
      | Some handler \<Rightarrow>
          (case pubkey_from_cert l cert of
             None \<Rightarrow> Inl ''unauthorized: client certificate''
           | Some pubkey \<Rightarrow>
               (case handler pubkey custom_data of
                  Inr token \<Rightarrow> Inr token
                | Inl e \<Rightarrow> Inl ''unauthorized: auth handler rejected'')))"

definition txt_host :: "string \<Rightarrow> string" where
  "txt_host domain = (case split_once (CHR ''.'') domain of Some (_, h) \<Rightarrow> h | None \<Rightarrow> '''')"

definition txt_name :: "string \<Rightarrow> string" where
  "txt_name host = ''_acu.'' @ host @ ''.''"

section \<open>The contract of the exchange\<close>

text \<open>
  Given the two messages of the peer and the DNS answer, the peer is accepted under an id, refused
  with a reason it is told, or dropped.
\<close>

datatype verdict = Accept string | Refuse string | Drop

definition auth_verdict ::
    "libs \<Rightarrow> string list \<Rightarrow> byte list option \<Rightarrow> (string \<Rightarrow> string + byte list list list) \<Rightarrow>
     byte list \<Rightarrow> byte list \<Rightarrow> verdict" where
  "auth_verdict l suffixes token dns domain_bytes sig_bytes =
     (case from_utf8 domain_bytes of
        None \<Rightarrow> Drop
      | Some domain \<Rightarrow>
          if recover_identity_pubkey l domain sig_bytes = None
          then Refuse ''unauthorized: identity signature''
          else if \<not> allowed_suffix domain suffixes
          then Refuse ''unauthorized: domain suffix not allowed''
          else (case token of
             None \<Rightarrow> Accept (split_next (CHR ''.'') domain)
           | Some src \<Rightarrow>
               (case dns (txt_name (txt_host domain)) of
                  Inl e \<Rightarrow> Drop
                | Inr records \<Rightarrow>
                    if txt_authorizes l (concat records) src (txt_host domain)
                    then Accept (split_next (CHR ''.'') domain)
                    else Refuse ''unauthorized: deployment source not authorized by TXT'')))"

text \<open>
  The security property behind it: who may be registered as \<open>i\<close>, given the certificate presented.
\<close>

definition authorized :: "libs \<Rightarrow> listener_ctx \<Rightarrow> byte list \<Rightarrow> string \<Rightarrow> string \<Rightarrow> bool" where
  "authorized l ctx cert domain i \<longleftrightarrow>
     i = split_next (CHR ''.'') domain \<and>
     (\<exists>s r vk. sig_try_from l s = Some r \<and> recover_verifying_key l r (as_bytes domain) = Some vk \<and>
        i = id_from_pubkey l (to_encoded_point l vk)) \<and>
     (domain_suffixes ctx = [] \<or>
        (\<exists>s \<in> set (domain_suffixes ctx). \<exists>p. domain = p @ CHR ''.'' # s)) \<and>
     (case auth_handler ctx of
        None \<Rightarrow> True
      | Some handler \<Rightarrow>
          \<exists>pubkey token. pubkey_from_cert l cert = Some pubkey \<and>
            handler pubkey (custom_data_from_cert l cert) = Inr token \<and>
            (case token of
               None \<Rightarrow> True
             | Some src \<Rightarrow> \<exists>t records.
                 txt_lookup ctx (txt_name (txt_host domain)) = Some (t, Inr records) \<and>
                 (concat records =
                    [as_bytes (compute_txt_expected l ZERO_DEPLOYMENT_SOURCE (txt_host domain))] \<or>
                  as_bytes (compute_txt_expected l src (txt_host domain)) \<in> set (concat records))))"

lemma authorizedI:
  assumes "check_cert l ctx cert = Inr token"
    and "recover_identity_pubkey l domain sig_bytes = Some pk"
    and "allowed_suffix domain (domain_suffixes ctx)"
    and "\<And>src. token = Some src \<Longrightarrow> \<exists>t records.
      txt_lookup ctx (txt_name (txt_host domain)) = Some (t, Inr records) \<and>
      txt_authorizes l (concat records) src (txt_host domain)"
  shows "authorized l ctx cert domain (split_next (CHR ''.'') domain)"
  unfolding authorized_def
proof (intro conjI)
  show "\<exists>s r vk. sig_try_from l s = Some r \<and> recover_verifying_key l r (as_bytes domain) = Some vk \<and>
      split_next (CHR ''.'') domain = id_from_pubkey l (to_encoded_point l vk)"
    using recover_identity_pubkey_Some [OF assms(2)] by metis
  show "domain_suffixes ctx = [] \<or>
      (\<exists>s \<in> set (domain_suffixes ctx). \<exists>p. domain = p @ CHR ''.'' # s)"
    using assms(3) by (simp add: allowed_suffix_iff)
  show "case auth_handler ctx of None \<Rightarrow> True | Some handler \<Rightarrow>
      \<exists>pubkey token. pubkey_from_cert l cert = Some pubkey \<and>
        handler pubkey (custom_data_from_cert l cert) = Inr token \<and>
        (case token of None \<Rightarrow> True | Some src \<Rightarrow> \<exists>t records.
           txt_lookup ctx (txt_name (txt_host domain)) = Some (t, Inr records) \<and>
           (concat records =
              [as_bytes (compute_txt_expected l ZERO_DEPLOYMENT_SOURCE (txt_host domain))] \<or>
            as_bytes (compute_txt_expected l src (txt_host domain)) \<in> set (concat records)))"
  proof (cases "auth_handler ctx")
    case (Some handler)
    with assms(1) obtain pubkey where "pubkey_from_cert l cert = Some pubkey"
      and "handler pubkey (custom_data_from_cert l cert) = Inr token"
      by (auto simp: check_cert_def Let_def split: option.splits sum.splits)
    with Some assms(4) show ?thesis
      by (auto simp: txt_authorizes_iff split: option.split intro!: exI [of _ token])
  qed simp
qed simp

section \<open>When the permit is given back\<close>

text \<open>
  A handler owns its permit: it is dropped where the code says so, and otherwise when the handler
  returns.
\<close>

definition released_at :: "'a relay_task \<Rightarrow> duration option" where
  "released_at m =
     (case filter (\<lambda>(_, e). e = ReleasePermit) (effects m) of
        (t, _) # _ \<Rightarrow> Some t
      | [] \<Rightarrow> finish m)"

lemma happens_filter:
  "\<not> happens m e \<longleftrightarrow> filter (\<lambda>(_, x). x = e) (effects m) = []"
  by (auto simp: happens_def filter_empty_conv image_iff)

lemma released_tret [simp]: "released_at (tret a) = Some 0"
  by (simp add: released_at_def finish_def)

lemma released_emit [simp]:
  "released_at (tthen (emit e) m) = (if e = ReleasePermit then Some 0 else released_at m)"
  by (auto simp: released_at_def tthen_emit finish_def split: list.splits)

lemma released_tbind:
  assumes "\<not> happens m ReleasePermit"
  shows "released_at (tbind m k) =
    (case outcome m of None \<Rightarrow> None | Some (t, a) \<Rightarrow> map_option ((+) t) (released_at (k a)))"
proof (cases "outcome m")
  case None
  with assms show ?thesis
    by (simp add: released_at_def tbind_def happens_filter finish_def)
next
  case (Some ta)
  then obtain t a where ta: "outcome m = Some (t, a)" by (cases ta) simp
  have f: "filter (\<lambda>(_, e). e = ReleasePermit) (effects (tbind m k)) =
      map (apfst ((+) t)) (filter (\<lambda>(_, e). e = ReleasePermit) (effects (k a)))"
    using assms by (simp add: tbind_def ta task_simps happens_filter filter_map comp_def case_prod_unfold)
  show ?thesis
    by (auto simp: released_at_def f ta finish_tbind split: list.splits)
qed

lemma released_at_le_tbind:
  assumes "\<not> happens m ReleasePermit" and "outcome m = Some (t, a)" and "t \<le> d"
    and "\<exists>u. released_at (k a) = Some u \<and> u \<le> e"
  shows "\<exists>u. released_at (tbind m k) = Some u \<and> u \<le> d + e"
  using assms by (auto simp: released_tbind)

section \<open>The life cycle of a connection in the shared tables\<close>

fun table_event :: "relay_event \<Rightarrow> bool" where
  "table_event (PendingInsert _) \<longleftrightarrow> True"
| "table_event (PendingRemove _) \<longleftrightarrow> True"
| "table_event (Register _) \<longleftrightarrow> True"
| "table_event _ \<longleftrightarrow> False"

definition table_events :: "'a relay_task \<Rightarrow> relay_event list" where
  "table_events m = filter table_event (map snd (effects m))"

text \<open>
  A handler that registers its agent has either never waited for a challenge, or has left the
  challenge table before; one that gives up has left it too; one that is still running may be in it.
\<close>

fun lifecycle_ok :: "unit option option \<Rightarrow> relay_event list \<Rightarrow> bool" where
  "lifecycle_ok (Some (Some _)) es \<longleftrightarrow>
     (\<exists>i. es = [Register i] \<or> es = [PendingInsert i, PendingRemove i, Register i])"
| "lifecycle_ok (Some None) es \<longleftrightarrow> es = [] \<or> (\<exists>i. es = [PendingInsert i, PendingRemove i])"
| "lifecycle_ok None es \<longleftrightarrow> es = [] \<or> (\<exists>i. es = [PendingInsert i])"

definition lifecycle :: "unit option relay_task \<Rightarrow> bool" where
  "lifecycle m \<longleftrightarrow> lifecycle_ok (result m) (table_events m)"

lemma table_events_simps [simp]:
  "table_events (tret a) = []"
  "table_events (await f) = []"
  "table_events (tthen (emit e) m) = (if table_event e then [e] else []) @ table_events m"
  by (simp_all add: table_events_def tthen_emit)

lemma table_events_tbind:
  "table_events (tbind m k) =
     table_events m @ (case result m of None \<Rightarrow> [] | Some a \<Rightarrow> table_events (k a))"
  by (auto simp: table_events_def tbind_def result_def task_simps comp_def split: option.split)

lemma table_events_none:
  "(\<And>e. table_event e \<Longrightarrow> \<not> happens m e) \<Longrightarrow> table_events m = []"
  by (auto simp: table_events_def happens_def filter_empty_conv)

lemma lifecycle_tret [simp]: "lifecycle (tret None)"
  by (simp add: lifecycle_def)

lemma lifecycle_emit [simp]: "\<not> table_event e \<Longrightarrow> lifecycle (tthen (emit e) m) = lifecycle m"
  by (simp add: lifecycle_def)

lemma lifecycle_tbind:
  assumes "table_events m = []" and "\<And>a. result m = Some a \<Longrightarrow> lifecycle (k a)"
  shows "lifecycle (tbind m k)"
proof (cases "result m")
  case None
  then show ?thesis using assms(1) by (simp add: lifecycle_def result_tbind table_events_tbind)
next
  case (Some a)
  with assms show ?thesis by (simp add: lifecycle_def result_tbind table_events_tbind)
qed

end
