(* ===== verification/Quic_Listener.thy ===== *)
theory Quic_Listener
  imports Relay_Auth
begin

text \<open>
  The QUIC listener of the relay (\<^verbatim>\<open>tunnel-server/src/quic.rs\<close>): the authentication exchange on the
  control stream, the wait for an ACME challenge, and the life of a connection up to its
  registration. What the peer does is a \<open>quic_peer\<close>: the outcome of the handshake, its
  certificates, and what arrives on the control stream when.
\<close>

record quic_peer =
  quic_handshake :: "(string + unit) fut"
  quic_identity :: "byte list list option"
  accept_bi :: "(string + unit) fut"
  ctrl_recv :: "byte source"
  ctrl_send :: sink
  ack_time :: "duration option"

definition quic_close :: "u32 \<Rightarrow> string \<Rightarrow> 'a option relay_task" where
  "quic_close code reason = tthen (emit (CloseConn code reason)) (tret None)"

definition quic_txt_check ::
    "libs \<Rightarrow> listener_ctx \<Rightarrow> byte list option \<Rightarrow> string \<Rightarrow> 'a \<Rightarrow> 'a option relay_task" where
  "quic_txt_check l ctx auth_token domain accepted =
     (case auth_token of
        None \<Rightarrow> tret (Some accepted)
      | Some deployment_source \<Rightarrow>
          (let host = txt_host domain in
           tthen (emit (TxtLookup (txt_name host)))
             (tbind (await (txt_lookup ctx (txt_name host))) (\<lambda>r. case r of
                Inr lookup \<Rightarrow>
                  (let txts = concat lookup in
                   if \<not> txt_authorizes l txts deployment_source host
                   then quic_close REJECT_UNAUTHORIZED
                     ''unauthorized: deployment source not authorized by TXT''
                   else tret (Some accepted))
              | Inl e \<Rightarrow> tret None))))"

definition quic_auth_exchange ::
    "libs \<Rightarrow> (nat \<Rightarrow> bool) \<Rightarrow> listener_ctx \<Rightarrow> byte list option \<Rightarrow> byte source \<Rightarrow>
     (string \<times> byte source) option relay_task" where
  "quic_auth_exchange l alloc ctx auth_token r =
     tbind (ctrl_read alloc r) (\<lambda>d. case d of
       Inl e \<Rightarrow> tret None
     | Inr (domain_bytes, r) \<Rightarrow>
         (case from_utf8 domain_bytes of
            None \<Rightarrow> tret None
          | Some domain \<Rightarrow>
              tbind (ctrl_read alloc r) (\<lambda>s. case s of
                Inl e \<Rightarrow> tret None
              | Inr (sig_bytes, r) \<Rightarrow>
                  (case recover_identity_pubkey l domain sig_bytes of
                     None \<Rightarrow> quic_close REJECT_UNAUTHORIZED ''unauthorized: identity signature''
                   | Some pubkey \<Rightarrow>
                       (let i = split_next (CHR ''.'') domain in
                        if \<not> allowed_suffix domain (domain_suffixes ctx)
                        then quic_close REJECT_UNAUTHORIZED
                          ''unauthorized: domain suffix not allowed''
                        else quic_txt_check l ctx auth_token domain (i, r))))))"

definition quic_acme_wait ::
    "(nat \<Rightarrow> bool) \<Rightarrow> quic_peer \<Rightarrow> byte source \<Rightarrow> string \<Rightarrow> unit option relay_task" where
  "quic_acme_wait alloc p r i =
     tthen (emit (PendingInsert i))
       (tbind (await (map_option (\<lambda>t. (t, ctrl_write (ctrl_send p) (as_bytes ''ack''))) (ack_time p)))
          (\<lambda>(w, res). tthen (emit (CtrlSent (sent w)))
             (case res of
                Inl e \<Rightarrow> tthen (emit (PendingRemove i)) (tret None)
              | Inr _ \<Rightarrow>
                  tbind (ctrl_read alloc r)
                    (\<lambda>_. tthen (emit (PendingRemove i)) (tret (Some ()))))))"

text \<open>The part of the handler after authentication.\<close>

definition quic_serve :: "(nat \<Rightarrow> bool) \<Rightarrow> quic_peer \<Rightarrow> string \<Rightarrow> byte source \<Rightarrow> unit option relay_task" where
  "quic_serve alloc p i r =
     tthen (emit ReleasePermit)
       (tbind (timeout KEY_AUTH_TIMEOUT (ctrl_read alloc r)) (\<lambda>k. case k of
          Some (Inr (key_auth, r)) \<Rightarrow>
            ttry (if key_auth \<noteq> [] then quic_acme_wait alloc p r i else tret (Some ()))
              (\<lambda>_. tthen (emit (Register i)) (tret (Some ())))
        | Some (Inl e) \<Rightarrow> tret None
        | None \<Rightarrow> tret None))"

definition handle_quic_connection ::
    "libs \<Rightarrow> (nat \<Rightarrow> bool) \<Rightarrow> listener_ctx \<Rightarrow> quic_peer \<Rightarrow> unit option relay_task" where
  "handle_quic_connection l alloc ctx p =
     tbind (await (quic_handshake p)) (\<lambda>h. case h of
       Inl e \<Rightarrow> tret None
     | Inr _ \<Rightarrow>
         (case quic_identity p of
            None \<Rightarrow> tret None
          | Some [] \<Rightarrow> tret None
          | Some (first_cert # _) \<Rightarrow>
              (case check_cert l ctx first_cert of
                 Inl reason \<Rightarrow> quic_close REJECT_UNAUTHORIZED reason
               | Inr auth_token \<Rightarrow>
                   tbind (timeout AUTH_EXCHANGE_TIMEOUT
                     (tbind (await (accept_bi p)) (\<lambda>a. case a of
                        Inl e \<Rightarrow> tret None
                      | Inr _ \<Rightarrow> quic_auth_exchange l alloc ctx auth_token (ctrl_recv p))))
                     (\<lambda>r. case r of
                        Some (Some (i, r)) \<Rightarrow> quic_serve alloc p i r
                      | Some None \<Rightarrow> tret None
                      | None \<Rightarrow> quic_close CLOSE_TIMEOUT ''authentication exchange timeout''))))"

section \<open>The exchange refines its contract\<close>

lemma happens_quic_close [simp]:
  "happens (quic_close code reason) e \<longleftrightarrow> e = CloseConn code reason"
  by (simp add: quic_close_def)

lemma result_quic_close [simp]: "result (quic_close code reason) = Some None"
  by (simp add: quic_close_def)

definition quic_events :: "verdict \<Rightarrow> relay_event set" where
  "quic_events v = (case v of Refuse reason \<Rightarrow> {CloseConn REJECT_UNAUTHORIZED reason} | _ \<Rightarrow> {})"

definition closes :: "'a relay_task \<Rightarrow> relay_event set" where
  "closes m = {CloseConn c r | c r. happens m (CloseConn c r)}"

lemma quic_txt_check_verdict:
  assumes dns: "\<And>n. txt_lookup ctx n = Some (t n, dns n)"
    and "recover_identity_pubkey l domain s \<noteq> None" and "allowed_suffix domain (domain_suffixes ctx)"
    and "from_utf8 d = Some domain"
    and v: "v = auth_verdict l (domain_suffixes ctx) token dns d s"
  shows "result (quic_txt_check l ctx token domain (split_next (CHR ''.'') domain, r)) =
      Some (case v of Accept i \<Rightarrow> Some (i, r) | _ \<Rightarrow> None) \<and>
    closes (quic_txt_check l ctx token domain (split_next (CHR ''.'') domain, r)) = quic_events v"
proof (cases token)
  case None
  with assms(2-4) show ?thesis
    by (simp add: v auth_verdict_def quic_txt_check_def closes_def quic_events_def)
next
  case (Some src)
  show ?thesis
  proof (cases "dns (txt_name (txt_host domain))")
    case (Inl e)
    with Some assms(2-4) show ?thesis
      by (simp add: v auth_verdict_def quic_txt_check_def closes_def quic_events_def dns
          result_tbind happens_tbind Let_def)
  next
    case (Inr records)
    with Some assms(2-4) show ?thesis
      by (auto simp add: v auth_verdict_def quic_txt_check_def closes_def quic_events_def dns
          result_tbind happens_tbind Let_def)
  qed
qed

lemma quic_auth_exchange_verdict:
  assumes "contents r = frame d @ frame s @ rest"
    and "length d \<le> MAX_CTRL_FRAME" and "length s \<le> MAX_CTRL_FRAME"
    and "\<And>n. n \<le> MAX_CTRL_FRAME \<Longrightarrow> alloc n"
    and "\<And>n. txt_lookup ctx n = Some (t n, dns n)"
  shows "\<exists>r'. contents r' = rest \<and>
    result (quic_auth_exchange l alloc ctx token r) =
      Some (case auth_verdict l (domain_suffixes ctx) token dns d s of
              Accept i \<Rightarrow> Some (i, r') | _ \<Rightarrow> None) \<and>
    closes (quic_auth_exchange l alloc ctx token r) =
      quic_events (auth_verdict l (domain_suffixes ctx) token dns d s)"
proof -
  obtain r1 where r1: "result (ctrl_read alloc r :: (relay_event, _) task) = Some (Inr (d, r1))"
    and c1: "contents r1 = frame s @ rest"
    using result_ctrl_read_frame [of r d "frame s @ rest" alloc] assms by auto
  obtain r2 where r2: "result (ctrl_read alloc r1 :: (relay_event, _) task) = Some (Inr (s, r2))"
    and c2: "contents r2 = rest"
    using result_ctrl_read_frame [OF c1] assms by auto
  have "result (quic_auth_exchange l alloc ctx token r) =
      Some (case auth_verdict l (domain_suffixes ctx) token dns d s of
              Accept i \<Rightarrow> Some (i, r2) | _ \<Rightarrow> None) \<and>
    closes (quic_auth_exchange l alloc ctx token r) =
      quic_events (auth_verdict l (domain_suffixes ctx) token dns d s)"
  proof (cases "from_utf8 d")
    case None
    then show ?thesis
      by (simp add: quic_auth_exchange_def auth_verdict_def result_tbind r1 closes_def
          happens_tbind quic_events_def)
  next
    case (Some domain)
    show ?thesis
    proof (cases "recover_identity_pubkey l domain s \<noteq> None \<and> allowed_suffix domain (domain_suffixes ctx)")
      case False
      with Some show ?thesis
        by (auto simp: quic_auth_exchange_def auth_verdict_def result_tbind r1 r2 closes_def
            happens_tbind quic_events_def Let_def split: option.splits)
    next
      case True
      then obtain pk where "recover_identity_pubkey l domain s = Some pk" by blast
      with True quic_txt_check_verdict [OF assms(5) _ _ Some refl, of l s token r2] Some
      show ?thesis
        by (simp add: quic_auth_exchange_def result_tbind r1 r2 closes_def happens_tbind Let_def)
    qed
  qed
  with c2 show ?thesis by blast
qed

text \<open>
  C22. The QUIC exchange implements the authentication contract: whatever the timing of the control
  stream and of the DNS answer, a peer that sends a domain and a signature is accepted under its
  id, closed with the reason of the refusal, or dropped, exactly as the contract decides.
\<close>

theorem quic_auth_refines:
  assumes "contents r = frame d @ frame s @ rest"
    and "length d \<le> MAX_CTRL_FRAME" and "length s \<le> MAX_CTRL_FRAME"
    and "\<And>n. n \<le> MAX_CTRL_FRAME \<Longrightarrow> alloc n"
    and "\<And>n. txt_lookup ctx n = Some (t n, dns n)"
  shows "\<exists>r'. contents r' = rest \<and>
    result (quic_auth_exchange l alloc ctx token r) =
      Some (case auth_verdict l (domain_suffixes ctx) token dns d s of
              Accept i \<Rightarrow> Some (i, r') | _ \<Rightarrow> None) \<and>
    closes (quic_auth_exchange l alloc ctx token r) =
      quic_events (auth_verdict l (domain_suffixes ctx) token dns d s)"
  using assms by (rule quic_auth_exchange_verdict)

lemma demo_verdict:
  "auth_verdict demo_libs [''x''] None (\<lambda>_. Inl '''') (as_bytes ''k.x'') (as_bytes ''k.xk'') =
     Accept ''k''"
  by code_simp

theorem quic_auth_refines_witness:
  "\<exists>r'. contents r' = [] \<and> result (quic_auth_exchange demo_libs (\<lambda>_. True)
       \<lparr>domain_suffixes = [''x''], auth_handler = None, txt_lookup = \<lambda>_. Some (3, Inl '''')\<rparr> None
       (instantly (frame (as_bytes ''k.x'') @ frame (as_bytes ''k.xk'')))) = Some (Some (''k'', r'))"
proof -
  have "length (as_bytes ''k.x'') \<le> MAX_CTRL_FRAME" "length (as_bytes ''k.xk'') \<le> MAX_CTRL_FRAME"
    by (simp_all add: MAX_CTRL_FRAME_def)
  from quic_auth_refines [of "instantly (frame (as_bytes ''k.x'') @ frame (as_bytes ''k.xk''))" _ _ "[]",
      OF _ this, of "\<lambda>_. True"
      "\<lparr>domain_suffixes = [''x''], auth_handler = None, txt_lookup = \<lambda>_. Some (3, Inl '''')\<rparr>"
      "\<lambda>_. 3" "\<lambda>_. Inl ''''" demo_libs None]
  show ?thesis by (auto simp: demo_verdict)
qed

section \<open>Registration only after authorisation\<close>

lemma quic_txt_check_no [simp]:
  "e \<noteq> TxtLookup (txt_name (txt_host domain)) \<Longrightarrow> \<forall>c r. e \<noteq> CloseConn c r \<Longrightarrow>
   \<not> happens (quic_txt_check l ctx token domain a) e"
  by (auto simp: quic_txt_check_def happens_tbind Let_def split: option.split sum.split)

lemma quic_auth_exchange_no [simp]:
  "\<forall>n. e \<noteq> TxtLookup n \<Longrightarrow> \<forall>c r. e \<noteq> CloseConn c r \<Longrightarrow>
   \<not> happens (quic_auth_exchange l alloc ctx token r) e"
  by (auto simp: quic_auth_exchange_def happens_tbind Let_def split: option.split sum.split)

lemma quic_acme_wait_no [simp]:
  "e \<noteq> PendingInsert i \<Longrightarrow> e \<noteq> PendingRemove i \<Longrightarrow> \<forall>bs. e \<noteq> CtrlSent bs \<Longrightarrow>
   \<not> happens (quic_acme_wait alloc p r i) e"
  by (auto simp: quic_acme_wait_def happens_tbind split: option.split sum.split prod.split)

lemma quic_serve_Register: "i \<noteq> j \<Longrightarrow> \<not> happens (quic_serve alloc p j r) (Register i)"
  by (auto simp: quic_serve_def ttry_def happens_tbind split: option.split sum.split)

lemma quic_auth_exchange_accepts:
  assumes "result (quic_auth_exchange l alloc ctx token r) = Some (Some (i, r'))"
    and "check_cert l ctx cert = Inr token"
  shows "\<exists>domain. authorized l ctx cert domain i"
proof -
  from assms(1) obtain d domain s r2 pk where
    "from_utf8 d = Some domain" and pk: "recover_identity_pubkey l domain s = Some pk"
    and al: "allowed_suffix domain (domain_suffixes ctx)"
    and tx: "result (quic_txt_check l ctx token domain (split_next (CHR ''.'') domain, r2)) =
      Some (Some (i, r'))"
    by (auto simp: quic_auth_exchange_def Let_def elim!: result_tbindE
        split: sum.splits option.splits if_splits)
  have i: "i = split_next (CHR ''.'') domain"
    using tx by (auto simp: quic_txt_check_def Let_def elim!: result_tbindE
        split: sum.splits option.splits if_splits)
  have "\<exists>t records. txt_lookup ctx (txt_name (txt_host domain)) = Some (t, Inr records) \<and>
      txt_authorizes l (concat records) src (txt_host domain)" if "token = Some src" for src
    using tx that by (auto simp: quic_txt_check_def Let_def elim!: result_tbindE
        split: sum.splits option.splits if_splits)
  with authorizedI [OF assms(2) pk al] i show ?thesis by blast
qed


definition demo_ctx :: listener_ctx where
  "demo_ctx = \<lparr>domain_suffixes = [''x''], auth_handler = None, txt_lookup = \<lambda>_. Some (3, Inl '''')\<rparr>"

definition demo_quic_peer :: quic_peer where
  "demo_quic_peer = \<lparr>quic_handshake = Some (0, Inr ()), quic_identity = Some [[0]],
     accept_bi = Some (0, Inr ()),
     ctrl_recv = instantly (frame (as_bytes ''k.x'') @ frame (as_bytes ''k.xk'') @ frame [1] @ frame [] @ []),
     ctrl_send = \<lparr>sent = [], room = None\<rparr>, ack_time = Some 0\<rparr>"

lemma demo_checks [simp]:
  "from_utf8 (as_bytes ''k.x'') = Some ''k.x''"
  "recover_identity_pubkey demo_libs ''k.x'' (as_bytes ''k.xk'') = Some [107]"
  "allowed_suffix ''k.x'' [''x'']"
  "split_next (CHR ''.'') ''k.x'' = ''k''"
  by code_simp+

lemma demo_quic_registers:
  "happens (handle_quic_connection demo_libs (\<lambda>_. True) demo_ctx demo_quic_peer) (Register ''k'')"
proof -
  have "quic_auth_exchange demo_libs (\<lambda>_. True) demo_ctx None (ctrl_recv demo_quic_peer) =
      tret (Some (''k'', instantly (frame [1] @ frame [] @ [])))"
    by (simp add: quic_auth_exchange_def demo_quic_peer_def ctrl_read_instantly MAX_CTRL_FRAME_def
        quic_txt_check_def demo_ctx_def del: append_Nil2)
  then show ?thesis
    by (simp add: handle_quic_connection_def demo_quic_peer_def demo_ctx_def check_cert_def
        quic_serve_def ctrl_read_instantly MAX_CTRL_FRAME_def quic_acme_wait_def ctrl_write_ok
        ttry_def happens_tbind result_tbind del: append_Nil2)
qed


section \<open>Permits and challenge entries\<close>

lemma quic_exchange_no_release [simp]:
  "\<not> happens (tbind (await (accept_bi p)) (\<lambda>a. case a of Inl e \<Rightarrow> tret None
      | Inr _ \<Rightarrow> quic_auth_exchange l alloc ctx token (ctrl_recv p))) ReleasePermit"
  by (auto simp: happens_tbind split: sum.split)

lemma released_quic_close [simp]: "released_at (quic_close c r) = Some 0"
  by (simp add: quic_close_def)

text \<open>
  A QUIC peer holds a permit of the unauthenticated budget for no longer than its handshake
  plus the authentication timeout, whatever it sends or does not send afterwards.
\<close>

lemma released_quic:
  assumes "quic_handshake p = Some (h, r)"
  shows "\<exists>t \<le> h + AUTH_EXCHANGE_TIMEOUT.
    released_at (handle_quic_connection l alloc ctx p) = Some t"
proof -
  have ser: "released_at (quic_serve alloc p i s) = Some 0" for i s
    by (simp add: quic_serve_def)
  have ex: "\<exists>t \<le> AUTH_EXCHANGE_TIMEOUT. released_at (tbind (timeout AUTH_EXCHANGE_TIMEOUT m)
      (\<lambda>r. case r of Some (Some (i, r)) \<Rightarrow> quic_serve alloc p i r | Some None \<Rightarrow> tret None
        | None \<Rightarrow> quic_close CLOSE_TIMEOUT ''authentication exchange timeout'')) = Some t"
    if "\<not> happens m ReleasePermit" for m
    using timeout_resolves [of AUTH_EXCHANGE_TIMEOUT m] that
    by (auto simp: released_tbind ser split: option.split)
  have "\<exists>t \<le> AUTH_EXCHANGE_TIMEOUT. released_at (k r) = Some t \<Longrightarrow>
      \<exists>t \<le> h + AUTH_EXCHANGE_TIMEOUT. released_at (tbind (await (quic_handshake p)) k) = Some t" for k :: "_ \<Rightarrow> unit option relay_task"
    by (auto simp: released_tbind assms)
  then show ?thesis
    unfolding handle_quic_connection_def
    by (rule meta_mp) (use ex in \<open>auto split: sum.split option.split list.split\<close>)
qed

lemma table_events_ctrl_read [simp]:
  "table_events (ctrl_read alloc r) = []"
  "table_events (timeout d (ctrl_read alloc r)) = []"
  by (simp_all add: table_events_none)

lemma table_events_quic_exchange:
  "table_events (timeout d (tbind (await (accept_bi p)) (\<lambda>a. case a of Inl e \<Rightarrow> tret None
      | Inr _ \<Rightarrow> quic_auth_exchange l alloc ctx token (ctrl_recv p)))) = []"
  by (rule table_events_none, rule not_happens_timeout)
     (auto simp: happens_tbind elim: table_event.elims split: sum.split)

lemma lifecycle_quic_serve: "lifecycle (quic_serve alloc p i r)"
  unfolding quic_serve_def
  by (auto simp: ttry_def quic_acme_wait_def lifecycle_def result_tbind table_events_tbind
      intro!: lifecycle_tbind split: option.split sum.split prod.split)

lemma lifecycle_quic: "lifecycle (handle_quic_connection l alloc ctx p)"
  unfolding handle_quic_connection_def
  by (auto simp: quic_close_def table_events_quic_exchange lifecycle_quic_serve
      intro!: lifecycle_tbind split: option.split sum.split list.split)

end
