(* ===== verification/H2_Listener.thy ===== *)
theory H2_Listener
  imports Relay_Auth H2_Transport
begin

text \<open>
  The H2 listener of the relay (\<^verbatim>\<open>tunnel-server/src/h2_listener.rs\<close>): the relay is the H2 client and
  asks the agent for its domain, signature and challenge state. What the agent does is an
  \<open>h2_peer\<close>: its TLS and H2 handshakes, and its answer to each request path, if the request could
  be sent at all. The task that drives the connection and the supervisor that pings it are
  separate definitions, as they are separate tasks.
\<close>

definition TLS_HANDSHAKE_TIMEOUT :: duration where "TLS_HANDSHAKE_TIMEOUT = from_secs 10"
definition H2_HANDSHAKE_TIMEOUT :: duration where "H2_HANDSHAKE_TIMEOUT = from_secs 10"
definition CTRL_STREAM_WINDOW :: u32 where "CTRL_STREAM_WINDOW = 16 * 1024"
definition CTRL_CONN_WINDOW :: u32 where "CTRL_CONN_WINDOW = 64 * 1024"
definition WINDOW_RAISE_RETRY :: duration where "WINDOW_RAISE_RETRY = from_millis 50"
definition WINDOW_RAISE_ATTEMPTS :: nat where "WINDOW_RAISE_ATTEMPTS = 200"
definition REJECT_TIMEOUT :: duration where "REJECT_TIMEOUT = from_secs 2"

type_synonym h2_body = "(string + byte list) source"

record h2_peer =
  tls_accept :: "(string + byte list list option) fut"
  h2_handshake :: "(string + unit) fut"
  answer :: "string \<Rightarrow> string + (string + h2_body) fut"
  reject_body :: "string + unit"
  conn_end :: "duration option"

section \<open>Requests\<close>

text \<open>\<open>send_request\<close>, then the response.\<close>

definition h2_get :: "h2_peer \<Rightarrow> string \<Rightarrow> h2_body option relay_task" where
  "h2_get p path =
     (case answer p path of
        Inl e \<Rightarrow> tret None
      | Inr resp_future \<Rightarrow>
          tbind (await resp_future) (\<lambda>r. case r of
             Inl e \<Rightarrow> tret None
           | Inr body \<Rightarrow> tret (Some body)))"

definition h2_fetch :: "h2_peer \<Rightarrow> string \<Rightarrow> byte list option relay_task" where
  "h2_fetch p path =
     ttry (h2_get p path) (\<lambda>body.
       tbind (collect_h2_body Released MAX_CTRL_FRAME body) (\<lambda>b. case b of
          Inl e \<Rightarrow> tret None
        | Inr bytes \<Rightarrow> tret (Some bytes)))"

definition h2_send_reject :: "h2_peer \<Rightarrow> string \<Rightarrow> unit relay_task" where
  "h2_send_reject p reason =
     tbind (timeout REJECT_TIMEOUT
       (case answer p CTRL_REJECT_PATH of
          Inl e \<Rightarrow> tret None
        | Inr resp \<Rightarrow>
            (case reject_body p of
               Inl e \<Rightarrow> tret None
             | Inr _ \<Rightarrow>
                 tthen (emit (RejectSent reason))
                   (tbind (await resp) (\<lambda>r. tret (case r of Inl e \<Rightarrow> None | Inr b \<Rightarrow> Some b))))))
       (\<lambda>_. tret ())"

text \<open>A branch of \<open>select!\<close> next to the end of the connection.\<close>

definition until_end :: "duration option \<Rightarrow> ('e, 'a) task \<Rightarrow> ('e, 'a option) task" where
  "until_end d m = (case d of None \<Rightarrow> tbind m (\<lambda>a. tret (Some a)) | Some d \<Rightarrow> timeout d m)"

definition h2_reject :: "h2_peer \<Rightarrow> string \<Rightarrow> unit relay_task" where
  "h2_reject p reason =
     tbind (timeout H2_HANDSHAKE_TIMEOUT (await (h2_handshake p))) (\<lambda>h. case h of
        Some (Inr _) \<Rightarrow> tbind (until_end (conn_end p) (h2_send_reject p reason)) (\<lambda>_. tret ())
      | _ \<Rightarrow> tret ())"

section \<open>The authentication exchange\<close>

definition h2_refuse :: "h2_peer \<Rightarrow> string \<Rightarrow> 'a option relay_task" where
  "h2_refuse p reason = tthen (h2_send_reject p reason) (tret None)"

definition h2_txt_check ::
    "libs \<Rightarrow> listener_ctx \<Rightarrow> h2_peer \<Rightarrow> byte list option \<Rightarrow> string \<Rightarrow> string option relay_task" where
  "h2_txt_check l ctx p auth_token domain =
     (case auth_token of
        None \<Rightarrow> tret (Some (split_next (CHR ''.'') domain))
      | Some deployment_source \<Rightarrow>
          (let host = txt_host domain in
           tthen (emit (TxtLookup (txt_name host)))
             (tbind (await (txt_lookup ctx (txt_name host))) (\<lambda>r. case r of
                Inr lookup \<Rightarrow>
                  (let txts = concat lookup in
                   if \<not> txt_authorizes l txts deployment_source host
                   then h2_refuse p ''unauthorized: deployment source not authorized by TXT''
                   else tret (Some (split_next (CHR ''.'') domain)))
              | Inl e \<Rightarrow> tret None))))"

definition h2_auth_exchange ::
    "libs \<Rightarrow> listener_ctx \<Rightarrow> h2_peer \<Rightarrow> byte list option \<Rightarrow> string option relay_task" where
  "h2_auth_exchange l ctx p auth_token =
     ttry (h2_fetch p ''/_ctrl/domain'') (\<lambda>body.
       case from_utf8 body of
         None \<Rightarrow> tret None
       | Some domain \<Rightarrow>
           ttry (h2_fetch p ''/_ctrl/sig'') (\<lambda>sig_bytes.
             case recover_identity_pubkey l domain sig_bytes of
               None \<Rightarrow> h2_refuse p ''unauthorized: identity signature''
             | Some pubkey \<Rightarrow>
                 if \<not> allowed_suffix domain (domain_suffixes ctx)
                 then h2_refuse p ''unauthorized: domain suffix not allowed''
                 else h2_txt_check l ctx p auth_token domain))"

definition h2_read_key_auth :: "h2_peer \<Rightarrow> byte list option relay_task" where
  "h2_read_key_auth p = h2_fetch p ''/_ctrl/key_auth''"

definition h2_acme_wait :: "h2_peer \<Rightarrow> string \<Rightarrow> unit option relay_task" where
  "h2_acme_wait p i =
     tthen (emit (PendingInsert i))
       (case answer p ''/_ctrl/done'' of
          Inl e \<Rightarrow> tthen (emit (PendingRemove i)) (tret None)
        | Inr resp_future \<Rightarrow>
            tbind (await resp_future)
              (\<lambda>_. tthen (emit (PendingRemove i)) (tret (Some ()))))"

section \<open>The life of a connection\<close>

definition h2_abort :: "unit option relay_task" where
  "h2_abort = tthen (emit AbortDriver) (tret None)"

definition h2_serve :: "h2_peer \<Rightarrow> string \<Rightarrow> unit option relay_task" where
  "h2_serve p i =
     tthen (emit RaiseSignal) (tthen (emit ReleasePermit)
       (tbind (timeout KEY_AUTH_TIMEOUT (h2_read_key_auth p)) (\<lambda>k. case k of
          Some (Some key_auth) \<Rightarrow>
            tbind (if key_auth \<noteq> [] then h2_acme_wait p i else tret (Some ()))
              (\<lambda>r. if r = None then h2_abort
                   else tthen (emit (Register i)) (tret (Some ())))
        | Some None \<Rightarrow> h2_abort
        | None \<Rightarrow> h2_abort)))"

definition handle_h2_connection ::
    "libs \<Rightarrow> listener_ctx \<Rightarrow> h2_peer \<Rightarrow> unit option relay_task" where
  "handle_h2_connection l ctx p =
     tbind (timeout TLS_HANDSHAKE_TIMEOUT (await (tls_accept p))) (\<lambda>t. case t of
       Some (Inr (Some (peer_cert # _))) \<Rightarrow>
         (case check_cert l ctx peer_cert of
            Inl reason \<Rightarrow> tthen (h2_reject p reason) (tret None)
          | Inr auth_token \<Rightarrow>
              tbind (timeout H2_HANDSHAKE_TIMEOUT (await (h2_handshake p))) (\<lambda>h. case h of
                Some (Inr _) \<Rightarrow>
                  tbind (timeout AUTH_EXCHANGE_TIMEOUT (h2_auth_exchange l ctx p auth_token))
                    (\<lambda>r. case r of
                       Some (Some i) \<Rightarrow> h2_serve p i
                     | Some None \<Rightarrow> h2_abort
                     | None \<Rightarrow> h2_abort)
              | _ \<Rightarrow> tret None))
     | _ \<Rightarrow> tret None)"

text \<open>
  The driver task. Raising the windows is retried until it succeeds or the connection ends;
  \<open>accepted\<close> says which attempt the connection would take.
\<close>

fun raise_windows_from :: "nat \<Rightarrow> nat \<Rightarrow> (nat \<Rightarrow> bool) \<Rightarrow> duration option \<Rightarrow> ('e, bool) task" where
  "raise_windows_from 0 attempt accepted conn = tret False"
| "raise_windows_from (Suc n) attempt accepted conn =
     (if accepted attempt then tret True
      else tbind (until_end conn (sleep WINDOW_RAISE_RETRY)) (\<lambda>r. case r of
         None \<Rightarrow> tret True
       | Some _ \<Rightarrow> raise_windows_from n (Suc attempt) accepted
           (map_option (\<lambda>d. d - WINDOW_RAISE_RETRY) conn)))"

definition raise_windows :: "(nat \<Rightarrow> bool) \<Rightarrow> duration option \<Rightarrow> ('e, bool) task" where
  "raise_windows accepted conn = raise_windows_from WINDOW_RAISE_ATTEMPTS 0 accepted conn"

text \<open>
  The supervisor of an authenticated connection: it ends with the driver, or aborts it when the
  pings fail.
\<close>

definition h2_supervisor ::
    "h2_keepalive \<Rightarrow> bool \<Rightarrow> duration option \<Rightarrow> (string + unit) fut list \<Rightarrow> unit relay_task" where
  "h2_supervisor keepalive has_ping conn_task pongs =
     (if \<not> has_ping then await (map_option (\<lambda>t. (t, ())) conn_task)
      else tbind (until_end conn_task (h2_ping_loop keepalive pongs)) (\<lambda>r. case r of
        None \<Rightarrow> tret ()
      | Some cause \<Rightarrow> emit AbortDriver))"

section \<open>The exchange refines its contract\<close>

lemma result_timeout: "\<exists>r. result (timeout d m) = Some r"
  using timeout_resolves [of d m] by (auto simp: result_def)

lemma result_h2_send_reject [simp]: "result (h2_send_reject p reason) = Some ()"
proof -
  obtain r where "result (timeout REJECT_TIMEOUT
       (case answer p CTRL_REJECT_PATH of
          Inl e \<Rightarrow> tret None
        | Inr resp \<Rightarrow>
            (case reject_body p of
               Inl e \<Rightarrow> tret None
             | Inr _ \<Rightarrow>
                 tthen (emit (RejectSent reason))
                   (tbind (await resp) (\<lambda>r. tret (case r of Inl e \<Rightarrow> None | Inr b \<Rightarrow> Some b)))))) = Some r"
    using result_timeout by blast
  then show ?thesis by (simp add: h2_send_reject_def result_tbind)
qed

lemma result_h2_refuse [simp]: "result (h2_refuse p reason) = Some None"
  by (simp add: h2_refuse_def tthen_def result_tbind)

lemma happens_h2_send_reject:
  assumes "answer p CTRL_REJECT_PATH = Inr f" and "reject_body p = Inr u"
  shows "happens (h2_send_reject p reason) e \<longleftrightarrow> e = RejectSent reason"
  using assms
  by (simp add: h2_send_reject_def happens_tbind)

lemma h2_send_reject_no [simp]:
  "\<forall>r. e \<noteq> RejectSent r \<Longrightarrow> \<not> happens (h2_send_reject p reason) e"
  by (auto simp: h2_send_reject_def happens_tbind intro!: not_happens_timeout split: sum.split)

lemma h2_refuse_no [simp]: "\<forall>r. e \<noteq> RejectSent r \<Longrightarrow> \<not> happens (h2_refuse p reason) e"
  by (simp add: h2_refuse_def tthen_def happens_tbind)

lemma collect_no [simp]: "\<forall>n. e \<noteq> Released n \<Longrightarrow> \<not> happens (collect_h2_body Released m b) e"
proof -
  have "\<forall>n. e \<noteq> Released n \<Longrightarrow> \<not> happens (collect_chunks Released m buf cs f) e" for buf cs f
    by (induction cs arbitrary: buf) (auto simp: happens_tbind split: sum.splits if_splits)
  then show "\<forall>n. e \<noteq> Released n \<Longrightarrow> \<not> happens (collect_h2_body Released m b) e"
    by (simp add: collect_h2_body_def)
qed

lemma h2_fetch_no [simp]: "\<forall>n. e \<noteq> Released n \<Longrightarrow> \<not> happens (h2_fetch p path) e"
  by (auto simp: h2_fetch_def h2_get_def ttry_def happens_tbind split: sum.split option.split)

text \<open>The agent serves this body, in any number of chunks and at any pace.\<close>

definition serves :: "h2_peer \<Rightarrow> string \<Rightarrow> byte list \<Rightarrow> bool" where
  "serves p path bs \<longleftrightarrow>
     (\<exists>t body chunks. answer p path = Inr (Some (t, Inr body)) \<and> fin body \<noteq> None \<and>
        contents body = map Inr chunks \<and> bs = concat chunks \<and> length bs \<le> MAX_CTRL_FRAME)"

lemma result_h2_fetch:
  assumes "serves p path bs"
  shows "result (h2_fetch p path) = Some (Some bs)"
proof -
  from assms obtain t body chunks where a: "answer p path = Inr (Some (t, Inr body))"
    and b: "fin body \<noteq> None" "contents body = map Inr chunks" "bs = concat chunks"
      "length bs \<le> MAX_CTRL_FRAME"
    unfolding serves_def by blast
  then have "result (collect_h2_body Released MAX_CTRL_FRAME body) = Some (Inr bs)"
    unfolding collect_h2_body_def result_collect_chunks by (auto simp: contents_def)
  with a show ?thesis
    by (simp add: h2_fetch_def h2_get_def ttry_def result_tbind)
qed

definition rejections :: "'a relay_task \<Rightarrow> string set" where
  "rejections m = {r. happens m (RejectSent r)}"

definition refusals :: "verdict \<Rightarrow> string set" where
  "refusals v = (case v of Refuse reason \<Rightarrow> {reason} | _ \<Rightarrow> {})"

definition can_reject :: "h2_peer \<Rightarrow> bool" where
  "can_reject p \<longleftrightarrow> (\<exists>f. answer p CTRL_REJECT_PATH = Inr f) \<and> reject_body p = Inr ()"

lemma happens_h2_refuse:
  "can_reject p \<Longrightarrow> happens (h2_refuse p reason) e \<longleftrightarrow> e = RejectSent reason"
  by (auto simp: can_reject_def h2_refuse_def tthen_def happens_tbind happens_h2_send_reject)

lemma h2_txt_check_verdict:
  assumes dns: "\<And>n. txt_lookup ctx n = Some (t n, dns n)" and "can_reject p"
    and "recover_identity_pubkey l domain s \<noteq> None" and "allowed_suffix domain (domain_suffixes ctx)"
    and "from_utf8 d = Some domain"
    and v: "v = auth_verdict l (domain_suffixes ctx) token dns d s"
  shows "result (h2_txt_check l ctx p token domain) =
      Some (case v of Accept i \<Rightarrow> Some i | _ \<Rightarrow> None) \<and>
    rejections (h2_txt_check l ctx p token domain) = refusals v"
proof (cases token)
  case None
  with assms(3-5) show ?thesis
    by (simp add: v auth_verdict_def h2_txt_check_def rejections_def refusals_def)
next
  case (Some src)
  show ?thesis
  proof (cases "dns (txt_name (txt_host domain))")
    case (Inl e)
    with Some assms(3-5) show ?thesis
      by (simp add: v auth_verdict_def h2_txt_check_def rejections_def refusals_def dns
          result_tbind happens_tbind Let_def)
  next
    case (Inr records)
    with Some assms(2-5) show ?thesis
      by (simp add: v auth_verdict_def h2_txt_check_def rejections_def refusals_def dns
          result_tbind happens_tbind Let_def happens_h2_refuse)
  qed
qed

lemma h2_auth_exchange_verdict:
  assumes "serves p ''/_ctrl/domain'' d" and "serves p ''/_ctrl/sig'' s"
    and "\<And>n. txt_lookup ctx n = Some (t n, dns n)" and "can_reject p"
  shows "result (h2_auth_exchange l ctx p token) =
      Some (case auth_verdict l (domain_suffixes ctx) token dns d s of Accept i \<Rightarrow> Some i | _ \<Rightarrow> None) \<and>
    rejections (h2_auth_exchange l ctx p token) =
      refusals (auth_verdict l (domain_suffixes ctx) token dns d s)"
proof (cases "from_utf8 d")
  case None
  with assms show ?thesis
    by (simp add: h2_auth_exchange_def ttry_def auth_verdict_def result_tbind result_h2_fetch
        rejections_def happens_tbind refusals_def)
next
  case (Some domain)
  note fetch = result_h2_fetch [OF assms(1)] result_h2_fetch [OF assms(2)]
  show ?thesis
  proof (cases "recover_identity_pubkey l domain s")
    case None
    with Some assms(4) show ?thesis
      by (simp add: h2_auth_exchange_def ttry_def auth_verdict_def result_tbind fetch
          rejections_def happens_tbind refusals_def happens_h2_refuse)
  next
    case (Some pk)
    show ?thesis
    proof (cases "allowed_suffix domain (domain_suffixes ctx)")
      case False
      with Some \<open>from_utf8 d = Some domain\<close> assms(4) show ?thesis
        by (simp add: h2_auth_exchange_def ttry_def auth_verdict_def result_tbind fetch
            rejections_def happens_tbind refusals_def happens_h2_refuse)
    next
      case True
      with h2_txt_check_verdict [OF assms(3,4) _ _ \<open>from_utf8 d = Some domain\<close> refl, of l s token] Some
      show ?thesis
        by (simp add: h2_auth_exchange_def ttry_def \<open>from_utf8 d = Some domain\<close> result_tbind fetch
            rejections_def happens_tbind)
    qed
  qed
qed

section \<open>Registration only after authorisation\<close>

lemma h2_txt_check_no [simp]:
  "\<forall>n. e \<noteq> TxtLookup n \<Longrightarrow> \<forall>r. e \<noteq> RejectSent r \<Longrightarrow> \<not> happens (h2_txt_check l ctx p token domain) e"
  by (auto simp: h2_txt_check_def happens_tbind Let_def split: option.split sum.split)

lemma h2_auth_exchange_no [simp]:
  "\<forall>n. e \<noteq> TxtLookup n \<Longrightarrow> \<forall>r. e \<noteq> RejectSent r \<Longrightarrow> \<forall>n. e \<noteq> Released n \<Longrightarrow>
   \<not> happens (h2_auth_exchange l ctx p token) e"
  by (auto simp: h2_auth_exchange_def ttry_def happens_tbind Let_def split: option.split sum.split)

lemma h2_acme_wait_no [simp]:
  "e \<noteq> PendingInsert i \<Longrightarrow> e \<noteq> PendingRemove i \<Longrightarrow> \<not> happens (h2_acme_wait p i) e"
  by (auto simp: h2_acme_wait_def happens_tbind split: sum.split)

lemma happens_h2_abort [simp]: "happens h2_abort e \<longleftrightarrow> e = AbortDriver"
  by (simp add: h2_abort_def)

lemma h2_reject_no [simp]: "\<forall>r. e \<noteq> RejectSent r \<Longrightarrow> \<not> happens (h2_reject p reason) e"
  by (auto simp: h2_reject_def until_end_def happens_tbind split: option.split sum.split)

lemma h2_serve_Register: "i \<noteq> j \<Longrightarrow> \<not> happens (h2_serve p j) (Register i)"
  by (auto simp: h2_serve_def h2_read_key_auth_def happens_tbind split: option.split)

lemma h2_auth_exchange_accepts:
  assumes "result (h2_auth_exchange l ctx p token) = Some (Some i)"
    and "check_cert l ctx cert = Inr token"
  shows "\<exists>domain. authorized l ctx cert domain i"
proof -
  from assms(1) obtain domain s pk where
    pk: "recover_identity_pubkey l domain s = Some pk"
    and al: "allowed_suffix domain (domain_suffixes ctx)"
    and tx: "result (h2_txt_check l ctx p token domain) = Some (Some i)"
    by (auto simp: h2_auth_exchange_def ttry_def Let_def elim!: result_tbindE
        split: sum.splits option.splits if_splits)
  have i: "i = split_next (CHR ''.'') domain"
    using tx by (auto simp: h2_txt_check_def Let_def elim!: result_tbindE
        split: sum.splits option.splits if_splits)
  have "\<exists>t records. txt_lookup ctx (txt_name (txt_host domain)) = Some (t, Inr records) \<and>
      txt_authorizes l (concat records) src (txt_host domain)" if "token = Some src" for src
    using tx that by (auto simp: h2_txt_check_def Let_def elim!: result_tbindE
        split: sum.splits option.splits if_splits)
  with authorizedI [OF assms(2) pk al] i show ?thesis by blast
qed

lemma h2_registers:
  assumes "happens (handle_h2_connection l ctx p) (Register i)"
  shows "\<exists>cert certs domain t. tls_accept p = Some (t, Inr (Some (cert # certs))) \<and>
    t \<le> TLS_HANDSHAKE_TIMEOUT \<and> authorized l ctx cert domain i"
proof -
  from assms obtain cert certs token j where
    cert: "result (timeout TLS_HANDSHAKE_TIMEOUT (await (tls_accept p)) :: (relay_event, _) task) =
      Some (Some (Inr (Some (cert # certs))))"
    and chk: "check_cert l ctx cert = Inr token"
    and ex: "result (timeout AUTH_EXCHANGE_TIMEOUT (h2_auth_exchange l ctx p token)) = Some (Some (Some j))"
    and reg: "happens (h2_serve p j) (Register i)"
    by (auto simp: handle_h2_connection_def tthen_def elim!: happens_tbindE
        split: sum.splits option.splits list.splits)
  have "result (h2_auth_exchange l ctx p token) = Some (Some j)"
    using ex by (rule result_timeout_Some)
  from h2_auth_exchange_accepts [OF this chk] obtain domain where "authorized l ctx cert domain j"
    by blast
  moreover have "i = j" using reg h2_serve_Register by metis
  moreover have "\<exists>t. tls_accept p = Some (t, Inr (Some (cert # certs))) \<and> t \<le> TLS_HANDSHAKE_TIMEOUT"
    using cert by (auto simp: result_def timeout_def split: option.splits if_splits)
  ultimately show ?thesis by blast
qed

section \<open>Permits and challenge entries\<close>

lemma finish_reject: "\<exists>t \<le> REJECT_TIMEOUT. finish (h2_send_reject p reason) = Some t"
proof -
  have "\<exists>t \<le> REJECT_TIMEOUT + 0. finish (h2_send_reject p reason) = Some t"
    unfolding h2_send_reject_def by (rule finish_le_tbind [OF finish_timeout]) simp
  then show ?thesis by simp
qed

lemma finish_until_end:
  assumes "\<exists>t \<le> d. finish m = Some t"
  shows "\<exists>t \<le> d. finish (until_end e m) = Some t"
proof (cases e)
  case None
  then show ?thesis using finish_le_tbind [OF assms, of 0 "\<lambda>a. tret (Some a)"]
    by (simp add: until_end_def)
next
  case (Some n)
  with assms show ?thesis
    by (auto simp: until_end_def timeout_def finish_def)
qed

lemma released_silent: "\<not> happens m ReleasePermit \<Longrightarrow> released_at m = finish m"
  by (simp add: released_at_def happens_filter)

lemma finish_h2_reject:
  "\<exists>t \<le> H2_HANDSHAKE_TIMEOUT + REJECT_TIMEOUT. finish (h2_reject p reason) = Some t"
proof -
  have "\<exists>t \<le> REJECT_TIMEOUT + 0. finish (tbind (until_end (conn_end p) (h2_send_reject p reason))
      (\<lambda>_. tret ())) = Some t"
    by (rule finish_le_tbind [OF finish_until_end [OF finish_reject]]) simp
  then show ?thesis
    unfolding h2_reject_def
    by (intro finish_le_tbind [OF finish_timeout]) (auto split: option.split sum.split)
qed

lemma released_le_tbind:
  assumes "\<not> happens m ReleasePermit" and "\<exists>t \<le> d. finish m = Some t"
    and "\<And>a. \<exists>t \<le> e. released_at (k a) = Some t"
  shows "\<exists>t \<le> d + e. released_at (tbind m k) = Some t"
proof -
  from assms(2) obtain t a where t: "t \<le> d" "outcome m = Some (t, a)" by (auto simp: finish_def)
  from assms(3) [of a] obtain u where "u \<le> e" "released_at (k a) = Some u" by blast
  with t have "t + u \<le> d + e" "released_at (tbind m k) = Some (t + u)"
    by (auto simp: released_tbind [OF assms(1)])
  then show ?thesis by blast
qed

lemma released_h2_serve [simp]: "released_at (h2_serve p i) = Some 0"
  by (simp add: h2_serve_def)

lemma released_h2_abort [simp]: "released_at h2_abort = Some 0"
  by (simp add: h2_abort_def)

lemma released_auth:
  "\<exists>t \<le> AUTH_EXCHANGE_TIMEOUT + 0.
     released_at (tbind (timeout AUTH_EXCHANGE_TIMEOUT (h2_auth_exchange l ctx p token))
       (\<lambda>r. case r of Some (Some i) \<Rightarrow> h2_serve p i | Some None \<Rightarrow> h2_abort | None \<Rightarrow> h2_abort)) = Some t"
  by (rule released_le_tbind [OF _ finish_timeout]) (auto split: option.split)

lemma released_refused:
  "\<exists>t \<le> H2_HANDSHAKE_TIMEOUT + REJECT_TIMEOUT + 0.
     released_at (tthen (h2_reject p reason) (tret None)) = Some t"
  unfolding tthen_def by (rule released_le_tbind [OF _ finish_h2_reject]) auto

lemma released_h2:
  "\<exists>t \<le> TLS_HANDSHAKE_TIMEOUT + (H2_HANDSHAKE_TIMEOUT + AUTH_EXCHANGE_TIMEOUT).
     released_at (handle_h2_connection l ctx p) = Some t"
proof -
  have le: "REJECT_TIMEOUT \<le> AUTH_EXCHANGE_TIMEOUT"
    by (simp add: REJECT_TIMEOUT_def AUTH_EXCHANGE_TIMEOUT_def from_secs_def)
  have ref: "\<exists>t \<le> H2_HANDSHAKE_TIMEOUT + AUTH_EXCHANGE_TIMEOUT.
      released_at (tthen (h2_reject p reason) (tret None :: unit option relay_task)) = Some t" for reason
  proof -
    obtain t where "t \<le> H2_HANDSHAKE_TIMEOUT + REJECT_TIMEOUT + 0"
      and t: "released_at (tthen (h2_reject p reason) (tret None :: unit option relay_task)) = Some t"
      using released_refused by blast
    with le
    have "t \<le> H2_HANDSHAKE_TIMEOUT + AUTH_EXCHANGE_TIMEOUT" by linarith
    with t show ?thesis by blast
  qed
  have "\<exists>t \<le> H2_HANDSHAKE_TIMEOUT + AUTH_EXCHANGE_TIMEOUT.
     released_at (tbind (timeout H2_HANDSHAKE_TIMEOUT (await (h2_handshake p))) (\<lambda>h. case h of
       Some (Inr _) \<Rightarrow> tbind (timeout AUTH_EXCHANGE_TIMEOUT (h2_auth_exchange l ctx p token))
         (\<lambda>r. case r of Some (Some i) \<Rightarrow> h2_serve p i | Some None \<Rightarrow> h2_abort | None \<Rightarrow> h2_abort)
     | _ \<Rightarrow> tret None)) = Some t" for token
    using released_auth [of l ctx p token]
    by (intro released_le_tbind [OF _ finish_timeout]) (auto split: option.split sum.split)
  with ref show ?thesis
    unfolding handle_h2_connection_def
    by (intro released_le_tbind [OF _ finish_timeout])
       (auto split: option.split sum.split list.split)
qed

lemma table_events_h2_fetch [simp]:
  "table_events (timeout d (h2_fetch p path)) = []"
  "table_events (timeout d (h2_auth_exchange l ctx p token)) = []"
  "table_events (timeout d (await f)) = []"
  "table_events (h2_reject p reason) = []"
  by (rule table_events_none, (rule not_happens_timeout)?; auto elim: table_event.elims)+

lemma lifecycle_h2_serve: "lifecycle (h2_serve p i)"
  unfolding h2_serve_def h2_read_key_auth_def
  by (auto simp: h2_acme_wait_def h2_abort_def lifecycle_def result_tbind table_events_tbind
      intro!: lifecycle_tbind split: option.split sum.split)

lemma lifecycle_h2: "lifecycle (handle_h2_connection l ctx p)"
  unfolding handle_h2_connection_def
  by (auto simp: h2_abort_def tthen_def [of "h2_reject _ _"] lifecycle_h2_serve
      intro!: lifecycle_tbind split: option.split sum.split list.split)

section \<open>Properties\<close>


definition demo_body :: "byte list \<Rightarrow> h2_body" where
  "demo_body bs = Source [(0, Inr bs)] (Some 0)"

definition demo_h2_peer :: h2_peer where
  "demo_h2_peer = \<lparr>tls_accept = Some (0, Inr (Some [[0]])), h2_handshake = Some (0, Inr ()),
     answer = (\<lambda>path.
       if path = ''/_ctrl/domain'' then Inr (Some (0, Inr (demo_body (as_bytes ''k.x''))))
       else if path = ''/_ctrl/sig'' then Inr (Some (0, Inr (demo_body (as_bytes ''k.xk''))))
       else Inr (Some (0, Inr (demo_body [])))),
     reject_body = Inr (), conn_end = None\<rparr>"

definition demo_h2_ctx :: listener_ctx where
  "demo_h2_ctx = \<lparr>domain_suffixes = [''x''], auth_handler = None, txt_lookup = \<lambda>_. Some (3, Inl '''')\<rparr>"

lemma demo_h2_registers:
  "happens (handle_h2_connection demo_libs demo_h2_ctx demo_h2_peer) (Register ''k'')"
proof -
  have c: "from_utf8 (as_bytes ''k.x'') = Some ''k.x''"
    "recover_identity_pubkey demo_libs ''k.x'' (as_bytes ''k.xk'') = Some [107]"
    "allowed_suffix ''k.x'' [''x'']" "split_next (CHR ''.'') ''k.x'' = ''k''"
    by code_simp+
  have body: "outcome (collect_h2_body Released MAX_CTRL_FRAME (demo_body bs)) = Some (0, Inr bs)"
    if "length bs \<le> 4" for bs
    using that by (simp add: collect_h2_body_def demo_body_def MAX_CTRL_FRAME_def tthen_emit tbind_def tret_def task_simps)
  have fetch: "outcome (h2_fetch demo_h2_peer path) = Some (0, Some bs)"
    if "answer demo_h2_peer path = Inr (Some (0, Inr (demo_body bs)))" "length bs \<le> 4" for path bs
    using that by (simp add: h2_fetch_def h2_get_def ttry_def tbind_def body)
  have ex: "outcome (h2_auth_exchange demo_libs demo_h2_ctx demo_h2_peer None) = Some (0, Some ''k'')"
    by (simp add: h2_auth_exchange_def ttry_def tbind_def h2_txt_check_def demo_h2_ctx_def c
        fetch [of "''/_ctrl/domain''" "as_bytes ''k.x''"] fetch [of "''/_ctrl/sig''" "as_bytes ''k.xk''"]
        demo_h2_peer_def [THEN arg_cong [where f = answer]])
  have key: "outcome (h2_read_key_auth demo_h2_peer) = Some (0, Some [])"
    unfolding h2_read_key_auth_def by (rule fetch) (simp_all add: demo_h2_peer_def)
  have "happens (h2_serve demo_h2_peer ''k'') (Register ''k'')"
    by (simp add: h2_serve_def happens_tbind result_tbind timeout_in_time [OF key] result_def)
  with timeout_in_time [OF ex, of AUTH_EXCHANGE_TIMEOUT] show ?thesis
    by (simp add: handle_h2_connection_def demo_h2_peer_def [THEN arg_cong [where f = tls_accept]]
        demo_h2_peer_def [THEN arg_cong [where f = h2_handshake]] check_cert_def
        demo_h2_ctx_def [THEN arg_cong [where f = auth_handler]] happens_tbind result_def)
qed


lemma raise_windows_from_spec:
  "\<exists>t b. outcome (raise_windows_from n k accepted conn :: ('e, _) task) = Some (t, b) \<and>
     t \<le> n * WINDOW_RAISE_RETRY \<and>
     (\<not> b \<longrightarrow> (\<forall>i \<in> {k ..< k + n}. \<not> accepted i) \<and>
       (case conn of None \<Rightarrow> True | Some d \<Rightarrow> n * WINDOW_RAISE_RETRY \<le> d))"
proof (induction n arbitrary: k conn)
  case (Suc n)
  let ?r = WINDOW_RAISE_RETRY
  show ?case
  proof (cases "accepted k \<or> (\<exists>d. conn = Some d \<and> d < ?r)")
    case True
    then show ?thesis
      by (auto simp: until_end_def timeout_def sleep_def tbind_def await_def tret_def task_simps)
  next
    case False
    let ?conn = "map_option (\<lambda>d. d - ?r) conn"
    obtain t b where ih: "outcome (raise_windows_from n (Suc k) accepted ?conn :: ('e, _) task) = Some (t, b)"
        "t \<le> n * ?r"
        "\<not> b \<longrightarrow> (\<forall>i \<in> {Suc k ..< Suc k + n}. \<not> accepted i) \<and>
          (case ?conn of None \<Rightarrow> True | Some d \<Rightarrow> n * ?r \<le> d)"
      using Suc by blast
    have "outcome (raise_windows_from (Suc n) k accepted conn :: ('e, _) task) = Some (?r + t, b)"
      using False ih(1)
      by (cases conn) (auto simp: until_end_def timeout_def sleep_def tbind_def await_def tret_def task_simps)
    moreover have "{k ..< k + Suc n} = insert k {Suc k ..< Suc k + n}" by auto
    ultimately show ?thesis
      using ih(2,3) False by (cases conn) (auto simp del: raise_windows_from.simps)
  qed
qed (auto split: option.split)

text \<open>
  Raising the windows of an authenticated connection ends within ten seconds; it fails only
  when the connection stayed up for all of that time and refused each of the two hundred attempts.
\<close>

theorem raise_windows_bounded:
  "\<exists>t b. outcome (raise_windows accepted conn :: (relay_event, _) task) = Some (t, b) \<and>
     t \<le> from_secs 10 \<and>
     (b \<or> list_all (\<lambda>i. \<not> accepted i) [0 ..< 200] \<and>
       (case conn of None \<Rightarrow> True | Some d \<Rightarrow> from_secs 10 \<le> d))"
proof -
  have n: "WINDOW_RAISE_ATTEMPTS * WINDOW_RAISE_RETRY = from_secs 10"
    by (simp add: WINDOW_RAISE_ATTEMPTS_def WINDOW_RAISE_RETRY_def from_secs_def from_millis_def)
  show ?thesis
    using raise_windows_from_spec [of WINDOW_RAISE_ATTEMPTS 0 accepted conn, where ?'e = relay_event]
    unfolding raise_windows_def n
    by (auto simp: WINDOW_RAISE_ATTEMPTS_def list_all_iff)
qed

end
