(* ===== verification/Public_Router.thy ===== *)
theory Public_Router
  imports Async_Task Identity Agent_Registry
begin

text \<open>
  The public listener (\<^verbatim>\<open>tunnel-server/src/public.rs\<close>, \<^verbatim>\<open>alpn.rs\<close>): it peeks at the TLS ClientHello
  without consuming it, and proxies the connection to an agent of the client the SNI names, to
  the connection waiting for an ACME challenge, or to the relay's own challenge. What the socket
  has received at each peek is a script, and so is how agents answer when a stream is opened.
\<close>

definition PEEK_BUF_INIT :: nat where "PEEK_BUF_INIT = 4096"
definition PEEK_BUF_MAX :: nat where "PEEK_BUF_MAX = 16 * 1024"
definition ACCEPT_ERROR_BACKOFF_public :: duration where "ACCEPT_ERROR_BACKOFF_public = from_millis 100"
definition PEEK_TIMEOUT :: duration where "PEEK_TIMEOUT = from_secs 10"
definition TUNNEL_OPEN_TIMEOUT :: duration where "TUNNEL_OPEN_TIMEOUT = from_secs 10"
definition PEEK_POLL_MIN :: duration where "PEEK_POLL_MIN = from_millis 1"
definition PEEK_POLL_MAX :: duration where "PEEK_POLL_MAX = from_millis 50"

datatype public_event =
    OpenQuic conn
  | OpenH2 conn string
  | Proxy agent
  | ProxyChallenge pending_conn
  | OwnChallenge

type_synonym 'a public_task = "(public_event, 'a) task"

section \<open>Sniffing the ClientHello\<close>

text \<open>
  The answers to successive peeks: an error, or all bytes received so far, of which the peek
  shows as many as the buffer holds.
\<close>

type_synonym peeks = "(string + byte list) fut list"

fun peek_loop :: "libs \<Rightarrow> nat \<Rightarrow> nat \<Rightarrow> duration \<Rightarrow> peeks \<Rightarrow> ('e, (string \<times> bool) option) task" where
  "peek_loop l buf_len seen backoff [] = await None"
| "peek_loop l buf_len seen backoff (peek # peeks) =
     tbind (await peek) (\<lambda>r. case r of
       Inl e \<Rightarrow> tret None
     | Inr received \<Rightarrow>
         (let n = min buf_len (length received) in
          if n = 0 then tret None
          else if seen < n then
            (case extract_sni_alpn l (take n received) of
               Some v \<Rightarrow> tret (Some v)
             | None \<Rightarrow>
                 if buf_len \<le> n then
                   if PEEK_BUF_MAX \<le> buf_len then tret None
                   else peek_loop l (min (buf_len * 2) PEEK_BUF_MAX) 0 PEEK_POLL_MIN peeks
                 else tthen (sleep PEEK_POLL_MIN)
                        (peek_loop l buf_len n (min (PEEK_POLL_MIN * 2) PEEK_POLL_MAX) peeks))
          else tthen (sleep backoff)
                 (peek_loop l buf_len seen (min (backoff * 2) PEEK_POLL_MAX) peeks)))"

definition peek_sni_alpn :: "libs \<Rightarrow> peeks \<Rightarrow> ('e, (string \<times> bool) option) task" where
  "peek_sni_alpn l peeks = peek_loop l PEEK_BUF_INIT 0 PEEK_POLL_MIN peeks"

section \<open>Routing\<close>

record agent_env =
  open_bi :: "conn \<Rightarrow> (string + unit) fut"
  send_request :: "conn \<Rightarrow> string \<Rightarrow> string + (string + unit) fut"

definition open_quic :: "agent_env \<Rightarrow> conn \<Rightarrow> unit option public_task" where
  "open_quic env c =
     tthen (emit (OpenQuic c))
       (tbind (timeout TUNNEL_OPEN_TIMEOUT (await (open_bi env c))) (\<lambda>r. case r of
          Some (Inr _) \<Rightarrow> tret (Some ())
        | Some (Inl e) \<Rightarrow> tret None
        | None \<Rightarrow> tret None))"

definition open_h2 :: "agent_env \<Rightarrow> conn \<Rightarrow> string \<Rightarrow> unit option public_task" where
  "open_h2 env c path =
     (case send_request env c path of
        Inl e \<Rightarrow> tret None
      | Inr response \<Rightarrow>
          tthen (emit (OpenH2 c path))
            (tbind (timeout TUNNEL_OPEN_TIMEOUT (await response)) (\<lambda>r. case r of
               Some (Inr _) \<Rightarrow> tret (Some ())
             | Some (Inl e) \<Rightarrow> tret None
             | None \<Rightarrow> tret None)))"

definition handle_public :: "agent_env \<Rightarrow> string \<Rightarrow> registry \<Rightarrow> registry \<times> unit option public_task" where
  "handle_public env host s =
     (let client_id = split_next (CHR ''.'') host in
      case pools s client_id of
        None \<Rightarrow> (s, tret None)
      | Some pool \<Rightarrow>
          if pool_is_empty pool then (s, tret None)
          else
            (case pick client_id s of
               (s', None) \<Rightarrow> (s', tret None)
             | (s', Some agent) \<Rightarrow>
                 (s', ttry (case agent of Quic c \<Rightarrow> open_quic env c | H2 c \<Rightarrow> open_h2 env c ''/'')
                        (\<lambda>_. tthen (emit (Proxy agent)) (tret (Some ()))))))"

text \<open>The relay's own challenge is the domain it is for, while one is in progress.\<close>

definition handle_acme ::
    "agent_env \<Rightarrow> string \<Rightarrow> pending_state \<Rightarrow> string option \<Rightarrow> unit option public_task" where
  "handle_acme env host ps server_challenge =
     (if server_challenge = Some host then tthen (emit OwnChallenge) (tret (Some ()))
      else
        (case pending ps (split_next (CHR ''.'') host) of
           None \<Rightarrow> tret None
         | Some entry \<Rightarrow>
             ttry (case pending_conn entry of
                 PendingQuic c \<Rightarrow> open_quic env c
               | PendingH2 c \<Rightarrow> open_h2 env c ''/_ctrl/alpn'')
               (\<lambda>_. tthen (emit (ProxyChallenge (pending_conn entry))) (tret (Some ())))))"

text \<open>
  One accepted connection. The shared tables are looked at when the hello is in; the registry
  comes back with the round-robin counter advanced.
\<close>

definition handle_accepted ::
    "libs \<Rightarrow> agent_env \<Rightarrow> peeks \<Rightarrow> registry \<Rightarrow> pending_state \<Rightarrow> string option \<Rightarrow>
     (registry \<times> unit option) public_task" where
  "handle_accepted l env peeks s ps server_challenge =
     tbind (timeout PEEK_TIMEOUT (peek_sni_alpn l peeks)) (\<lambda>r. case r of
       Some (Some (host, is_acme)) \<Rightarrow>
         if is_acme then tbind (handle_acme env host ps server_challenge) (\<lambda>r. tret (s, r))
         else (case handle_public env host s of (s', m) \<Rightarrow> tbind m (\<lambda>r. tret (s', r)))
     | Some None \<Rightarrow> tret (s, None)
     | None \<Rightarrow> tret (s, None))"

section \<open>What the sniffer finds\<close>

lemma result_peek_loop:
  "result (peek_loop l b seen bo (Some (t, Inr received) # peeks) :: ('e, _) task) =
     (let n = min b (length received) in
      if n = 0 then Some None
      else if seen < n then
        (case extract_sni_alpn l (take n received) of
           Some v \<Rightarrow> Some (Some v)
         | None \<Rightarrow>
             if b \<le> n then
               if PEEK_BUF_MAX \<le> b then Some None
               else result (peek_loop l (min (b * 2) PEEK_BUF_MAX) 0 PEEK_POLL_MIN peeks :: ('e, _) task)
             else result (peek_loop l b n (min (PEEK_POLL_MIN * 2) PEEK_POLL_MAX) peeks :: ('e, _) task))
      else result (peek_loop l b seen (min (bo * 2) PEEK_POLL_MAX) peeks :: ('e, _) task))"
  by (simp add: result_tbind tthen_sleep Let_def split: option.split)

lemma result_peek_loop_other:
  "result (peek_loop l b seen bo (Some (t, Inl e) # peeks)) = Some None"
  "result (peek_loop l b seen bo (None # peeks)) = None"
  "result (peek_loop l b seen bo []) = None"
  by (simp_all add: result_tbind)

declare peek_loop.simps [simp del]

text \<open>Whatever is found was in the first 16 KiB of what the peer sent.\<close>

lemma peek_loop_sound:
  "result (peek_loop l b seen bo peeks :: ('e, _) task) = Some (Some v) \<Longrightarrow> b \<le> PEEK_BUF_MAX \<Longrightarrow>
   \<exists>t received n. Some (t, Inr received) \<in> set peeks \<and> n \<le> PEEK_BUF_MAX \<and>
     extract_sni_alpn l (take n received) = Some v"
proof (induction peeks arbitrary: b seen bo)
  case (Cons peek peeks)
  show ?case
  proof (cases peek)
    case (Some tr)
    obtain t r where tr: "tr = (t, r)" by (cases tr)
    show ?thesis
    proof (cases r)
      case (Inr received)
      let ?n = "min b (length received)"
      have "extract_sni_alpn l (take ?n received) = Some v \<or>
          (\<exists>b' s' bo'. result (peek_loop l b' s' bo' peeks :: ('e, _) task) = Some (Some v) \<and> b' \<le> PEEK_BUF_MAX)"
        using Cons.prems unfolding Some tr Inr result_peek_loop Let_def
        by (fastforce intro: min.cobounded2 split: if_splits option.splits)
      then show ?thesis
      proof
        assume "extract_sni_alpn l (take ?n received) = Some v"
        with Some tr Inr Cons.prems(2) show ?thesis
          by (intro exI [of _ t] exI [of _ received] exI [of _ ?n]) simp
      next
        assume "\<exists>b' s' bo'. result (peek_loop l b' s' bo' peeks :: ('e, _) task) = Some (Some v) \<and> b' \<le> PEEK_BUF_MAX"
        with Cons.IH show ?thesis by (meson list.set_intros(2))
      qed
    qed (use Cons.prems Some tr in \<open>simp add: result_peek_loop_other\<close>)
  qed (use Cons.prems in \<open>simp add: result_peek_loop_other\<close>)
qed (simp add: result_peek_loop_other)

text \<open>
  A hello of \<open>h\<close> bytes at the front of the data: the parser says \<open>v\<close> from \<open>h\<close> bytes on, and nothing
  before. The number of peeks it can still take to see a hello that has arrived.
\<close>

definition hello_at :: "libs \<Rightarrow> byte list \<Rightarrow> nat \<Rightarrow> (string \<times> bool) \<Rightarrow> bool" where
  "hello_at l data h v \<longleftrightarrow> 0 < h \<and> h \<le> PEEK_BUF_MAX \<and> h \<le> length data \<and>
     (\<forall>n \<le> length data. extract_sni_alpn l (take n data) = (if h \<le> n then Some v else None))"

definition growth :: "nat \<Rightarrow> nat" where
  "growth b = (if PEEK_BUF_MAX \<le> b then 1 else if PEEK_BUF_MAX \<le> 2 * b then 2 else 3)"

lemma peek_loop_ready:
  assumes "hello_at l data h v" and "PEEK_BUF_INIT \<le> b" and "b \<le> PEEK_BUF_MAX"
    and "seen < h" and "seen < b" and "growth b \<le> length peeks"
    and "\<forall>p \<in> set peeks. \<exists>t n. p = Some (t, Inr (take n data)) \<and> h \<le> n"
  shows "result (peek_loop l b seen bo peeks :: ('e, _) task) = Some (Some v)"
  using assms
proof (induction peeks arbitrary: b seen bo)
  case (Cons peek peeks)
  then obtain t n where p: "peek = Some (t, Inr (take n data))" and n: "h \<le> n" by auto
  let ?m = "min b (min n (length data))"
  have h: "0 < h" "h \<le> length data" "h \<le> PEEK_BUF_MAX"
    and ex: "extract_sni_alpn l (take ?m data) = (if h \<le> ?m then Some v else None)"
    using Cons.prems(1) by (auto simp: hello_at_def)
  have m: "0 < ?m" "seen < ?m" "\<not> h \<le> ?m \<Longrightarrow> ?m = b"
    using h n Cons.prems(4,5) by linarith+
  show ?case
  proof (cases "h \<le> ?m")
    case True
    with m ex show ?thesis by (simp add: p result_peek_loop Let_def min.assoc min.commute min.left_commute)
  next
    case False
    with m h have b: "?m = b" "b < h" by auto
    have "result (peek_loop l (min (b * 2) PEEK_BUF_MAX) 0 PEEK_POLL_MIN peeks :: ('e, _) task) = Some (Some v)"
    proof (rule Cons.IH)
      show "growth (min (b * 2) PEEK_BUF_MAX) \<le> length peeks"
        using Cons.prems(2,3,6) b h
        by (auto simp: growth_def PEEK_BUF_MAX_def PEEK_BUF_INIT_def split: if_splits)
    qed (use Cons.prems h b in \<open>auto simp: PEEK_BUF_INIT_def PEEK_BUF_MAX_def\<close>)
    with m ex False b h show ?thesis by (simp add: p result_peek_loop Let_def min.assoc)
  qed
qed (auto simp: growth_def split: if_splits)

lemma peek_loop_early:
  assumes "hello_at l data h v" and "PEEK_BUF_INIT \<le> b" and "b \<le> PEEK_BUF_MAX"
    and "seen < h" and "seen < b"
    and "\<forall>p \<in> set early. \<exists>t n. p = Some (t, Inr (take n data)) \<and> 0 < n \<and> n < h"
  shows "\<exists>b' seen' bo'. PEEK_BUF_INIT \<le> b' \<and> b' \<le> PEEK_BUF_MAX \<and> seen' < h \<and> seen' < b' \<and>
    result (peek_loop l b seen bo (early @ peeks) :: ('e, _) task) =
      result (peek_loop l b' seen' bo' peeks :: ('e, _) task)"
  using assms
proof (induction early arbitrary: b seen bo)
  case Nil
  then show ?case by (intro exI [of _ b] exI [of _ seen] exI [of _ bo]) simp
next
  case (Cons peek early)
  then obtain t n where p: "peek = Some (t, Inr (take n data))" and n: "0 < n" "n < h" by auto
  have h: "h \<le> length data" "h \<le> PEEK_BUF_MAX"
    and none: "m < h \<Longrightarrow> extract_sni_alpn l (take m data) = None" for m
    using Cons.prems(1) by (auto simp: hello_at_def)
  have len: "min n (length data) = n" using n h by simp
  let ?next = "\<exists>b' seen' bo'. PEEK_BUF_INIT \<le> b' \<and> b' \<le> PEEK_BUF_MAX \<and> seen' < h \<and> seen' < b' \<and>
      result (peek_loop l b seen bo ((peek # early) @ peeks) :: ('e, _) task) =
      result (peek_loop l b' seen' bo' (early @ peeks) :: ('e, _) task)"
  have ?next
  proof (cases "seen < min b n")
    case False
    with Cons.prems n h len show ?thesis
      by (intro exI [of _ b] exI [of _ seen] exI [of _ "min (bo * 2) PEEK_POLL_MAX"])
         (simp add: p result_peek_loop Let_def PEEK_BUF_INIT_def)
  next
    case seen: True
    have no: "extract_sni_alpn l (take (min b n) data) = None" using n by (intro none) simp
    show ?thesis
    proof (cases "b \<le> n")
      case True
      with seen no n h Cons.prems len show ?thesis
        by (intro exI [of _ "min (b * 2) PEEK_BUF_MAX"] exI [of _ 0] exI [of _ PEEK_POLL_MIN])
           (auto simp: p result_peek_loop Let_def PEEK_BUF_INIT_def)
    next
      case False
      with seen no n h Cons.prems len show ?thesis
        by (intro exI [of _ b] exI [of _ n] exI [of _ "min (PEEK_POLL_MIN * 2) PEEK_POLL_MAX"])
           (auto simp: p result_peek_loop Let_def)
    qed
  qed
  with Cons.IH [OF Cons.prems(1)] Cons.prems(6) show ?case
    by (metis (no_types, lifting) list.set_intros(2))
qed

text \<open>
  C37. The sniffer finds every ClientHello of at most 16 KiB: however the peer fragments it, once
  the whole hello has arrived three peeks are enough, whatever the buffer had grown to before, and
  the bytes behind the hello do not matter.
\<close>

theorem peek_finds_hello:
  assumes "hello_at l data h v"
    and "\<forall>p \<in> set early. \<exists>t n. p = Some (t, Inr (take n data)) \<and> 0 < n \<and> n < h"
    and "\<forall>p \<in> set ready. \<exists>t n. p = Some (t, Inr (take n data)) \<and> h \<le> n"
    and "3 \<le> length ready"
  shows "result (peek_sni_alpn l (early @ ready) :: (public_event, _) task) = Some (Some v)"
proof -
  have "0 < h" using assms(1) by (simp add: hello_at_def)
  then obtain b seen bo where inv: "PEEK_BUF_INIT \<le> b" "b \<le> PEEK_BUF_MAX" "seen < h" "seen < b"
    and eq: "result (peek_sni_alpn l (early @ ready) :: (public_event, _) task) =
      result (peek_loop l b seen bo ready :: (public_event, _) task)"
    using peek_loop_early [OF assms(1) _ _ _ _ assms(2), of PEEK_BUF_INIT 0 PEEK_POLL_MIN ready,
        where ?'e = public_event]
    unfolding peek_sni_alpn_def by (auto simp: PEEK_BUF_INIT_def PEEK_BUF_MAX_def)
  have "growth b \<le> length ready" using assms(4) by (simp add: growth_def)
  with eq peek_loop_ready [OF assms(1) inv] assms(3) show ?thesis by simp
qed

definition demo_tls :: libs where
  "demo_tls = demo_libs\<lparr>parse_tls_plaintext :=
       (\<lambda>bs. if 2 \<le> length bs then Some [ClientHello (Some [])] else None),
     parse_tls_extensions := (\<lambda>_. Some [SNI [(0, [104])]])\<rparr>"

lemma demo_extract:
  "extract_sni_alpn demo_tls bs = (if 2 \<le> length bs then Some (''h'', False) else None)"
proof -
  have "from_utf8 [104] = Some ''h''" by code_simp
  then show ?thesis by (simp add: extract_sni_alpn_def demo_tls_def)
qed

theorem peek_finds_hello_witness:
  "result (peek_sni_alpn demo_tls ([Some (4, Inr (take 1 [22, 1, 1]))] @
     [Some (0, Inr (take 2 [22, 1, 1])), Some (0, Inr (take 3 [22, 1, 1])), Some (0, Inr (take 3 [22, 1, 1]))])
     :: (public_event, _) task) = Some (Some (''h'', False))"
  by (rule peek_finds_hello [where h = 2 and data = "[22, 1, 1]"])
     (auto simp: hello_at_def demo_extract PEEK_BUF_MAX_def
       intro: exI [of _ 1] exI [of _ "2 :: nat"] exI [of _ "3 :: nat"])

section \<open>Where a connection goes\<close>

lemma open_no [simp]:
  "\<not> happens (open_quic env c) (Proxy a)" "\<not> happens (open_h2 env c path) (Proxy a)"
  "\<not> happens (open_quic env c) (ProxyChallenge q)" "\<not> happens (open_h2 env c path) (ProxyChallenge q)"
  by (auto simp: open_quic_def open_h2_def happens_tbind split: option.split sum.split)

lemma peek_loop_no [simp]: "\<not> happens (peek_loop l b seen bo peeks) e"
  by (induction l b seen bo peeks rule: peek_loop.induct)
     (auto simp: peek_loop.simps happens_tbind tthen_sleep Let_def split: sum.split option.split)

lemma handle_public_Proxy:
  assumes "happens (snd (handle_public env host s)) (Proxy a)"
  shows "snd (pick (split_next (CHR ''.'') host) s) = Some a"
  using assms
  by (auto simp: handle_public_def Let_def ttry_def elim!: happens_tbindE
      split: option.splits if_splits prod.splits agent.splits)

lemma handle_acme_no_Proxy [simp]: "\<not> happens (handle_acme env host ps sc) (Proxy a)"
  by (auto simp: handle_acme_def ttry_def happens_tbind split: option.split pending_conn.split)

lemma handle_accepted_Proxy:
  assumes "happens (handle_accepted l env peeks s ps sc) (Proxy a)"
  shows "\<exists>host t received n. Some (t, Inr received) \<in> set peeks \<and> n \<le> PEEK_BUF_MAX \<and>
    extract_sni_alpn l (take n received) = Some (host, False) \<and>
    snd (pick (split_next (CHR ''.'') host) s) = Some a"
proof -
  have le: "PEEK_BUF_INIT \<le> PEEK_BUF_MAX" by (simp add: PEEK_BUF_INIT_def PEEK_BUF_MAX_def)
  have no: "\<not> happens (timeout PEEK_TIMEOUT (peek_sni_alpn l peeks)) (Proxy a)"
    by (simp add: peek_sni_alpn_def)
  from assms obtain r where
    r: "result (timeout PEEK_TIMEOUT (peek_sni_alpn l peeks) :: (public_event, _) task) = Some r"
    and k: "happens (case r of
       Some (Some (host, is_acme)) \<Rightarrow>
         if is_acme then tbind (handle_acme env host ps sc) (\<lambda>r. tret (s, r))
         else (case handle_public env host s of (s', m) \<Rightarrow> tbind m (\<lambda>r. tret (s', r)))
     | Some None \<Rightarrow> tret (s, None)
     | None \<Rightarrow> tret (s, None)) (Proxy a)"
    unfolding handle_accepted_def happens_tbind using no by blast
  then obtain host where "r = Some (Some (host, False))"
    and pub: "happens (snd (handle_public env host s)) (Proxy a)"
    by (auto split: option.splits if_splits prod.splits)
  with r have "result (peek_loop l PEEK_BUF_INIT 0 PEEK_POLL_MIN peeks :: (public_event, _) task) =
      Some (Some (host, False))"
    using result_timeout_Some unfolding peek_sni_alpn_def by metis
  from peek_loop_sound [OF this le] handle_public_Proxy [OF pub] show ?thesis by blast
qed

lemma pick_entry:
  assumes "snd (pick i s) = Some a"
  shows "a \<in> snd ` set (entries s i)"
  using assms by (auto simp: pick_def entries_def split: option.splits dest: next_agent_Some)

text \<open>
  C15. A user connection is proxied only to an agent of the client that the SNI of its ClientHello
  names, and only to one whose tunnel connection is up as far as the registry knows: its clean-up
  has not begun. An ACME challenge is never proxied as user traffic.
\<close>

theorem public_routes_to_live_agent:
  assumes "reachable registry_init registry_step s"
    and "happens (handle_accepted l env peeks s ps server_challenge) (Proxy a)"
  shows "\<exists>host t received n. Some (t, Inr received) \<in> set peeks \<and> n \<le> PEEK_BUF_MAX \<and>
    extract_sni_alpn l (take n received) = Some (host, False) \<and>
    a \<in> snd ` set (links s (split_next (CHR ''.'') host))"
proof -
  have "registry_inv s" using assms(1) by (rule registry.inv_reachable)
  then have "set (entries s i) \<subseteq> set (links s i)" for i by (simp add: registry_inv_def)
  with handle_accepted_Proxy [OF assms(2)] show ?thesis by (blast dest: pick_entry)
qed

definition demo_env :: agent_env where
  "demo_env = \<lparr>open_bi = \<lambda>_. Some (0, Inr ()), send_request = \<lambda>_ _. Inl ''''\<rparr>"

theorem public_routes_to_live_agent_witness:
  "let s = register ''h'' 7 (Quic 3) \<lparr>pools = Map.empty, regs = []\<rparr> in
   \<exists>host t received n. Some (t, Inr received) \<in> set [Some (0 :: duration, Inr [22, 1])] \<and>
     n \<le> PEEK_BUF_MAX \<and> extract_sni_alpn demo_tls (take n received) = Some (host, False) \<and>
     Quic 3 \<in> snd ` set (links s (split_next (CHR ''.'') host))"
proof -
  let ?s = "register ''h'' 7 (Quic 3) \<lparr>pools = Map.empty, regs = []\<rparr>"
  have "happens (handle_accepted demo_tls demo_env [Some (0, Inr [22, 1])] ?s
      \<lparr>pending = Map.empty, next_token = 0\<rparr> None) (Proxy (Quic 3))"
    by (simp add: handle_accepted_def peek_sni_alpn_def peek_loop.simps demo_extract Let_def
        PEEK_BUF_INIT_def handle_public_def split_next_def register_def pool_push_def
        pool_default_def pool_is_empty_def pick_def next_agent_def open_quic_def demo_env_def
        ttry_def happens_tbind result_tbind)
  from public_routes_to_live_agent [OF _ this] show ?thesis
    unfolding Let_def by (simp add: registry_reach)
qed

lemma finish_open: "\<exists>t \<le> TUNNEL_OPEN_TIMEOUT. finish (open_quic env c) = Some t"
    "\<exists>t \<le> TUNNEL_OPEN_TIMEOUT. finish (open_h2 env c path) = Some t"
proof -
  have "\<exists>t \<le> TUNNEL_OPEN_TIMEOUT + 0. finish (tbind (timeout TUNNEL_OPEN_TIMEOUT (await f))
      (\<lambda>r. case r of Some (Inr _) \<Rightarrow> tret (Some ()) | Some (Inl e) \<Rightarrow> tret None | None \<Rightarrow> tret None)
      :: unit option public_task) = Some t" for f :: "(string + unit) fut"
    by (rule finish_le_tbind [OF finish_timeout]) (auto split: option.split sum.split)
  then show "\<exists>t \<le> TUNNEL_OPEN_TIMEOUT. finish (open_quic env c) = Some t"
    and "\<exists>t \<le> TUNNEL_OPEN_TIMEOUT. finish (open_h2 env c path) = Some t"
    by (auto simp: open_quic_def open_h2_def finish_def tthen_emit split: sum.split)
qed

lemma finish_ttry_open:
  assumes "\<exists>t \<le> d. finish m = Some t"
  shows "\<exists>t \<le> d. finish (ttry m (\<lambda>_. tthen (emit e) (tret (Some ()))) :: unit option public_task) = Some t"
proof -
  have "\<exists>t \<le> d + 0. finish (ttry m (\<lambda>_. tthen (emit e) (tret (Some ()))) :: unit option public_task) = Some t"
    unfolding ttry_def
    by (rule finish_le_tbind [OF assms]) (auto simp: finish_def tthen_emit split: option.split)
  then show ?thesis by simp
qed

lemma finish_handlers:
  "\<exists>t \<le> TUNNEL_OPEN_TIMEOUT. finish (snd (handle_public env host s)) = Some t"
  "\<exists>t \<le> TUNNEL_OPEN_TIMEOUT. finish (handle_acme env host ps sc) = Some t"
proof -
  have open_any: "\<exists>t \<le> TUNNEL_OPEN_TIMEOUT. finish (case a of Quic c \<Rightarrow> open_quic env c | H2 c \<Rightarrow> open_h2 env c path) = Some t"
      "\<exists>t \<le> TUNNEL_OPEN_TIMEOUT. finish (case q of PendingQuic c \<Rightarrow> open_quic env c | PendingH2 c \<Rightarrow> open_h2 env c path) = Some t"
    for a q path
    using finish_open by (auto split: agent.split pending_conn.split)
  show "\<exists>t \<le> TUNNEL_OPEN_TIMEOUT. finish (snd (handle_public env host s)) = Some t"
    using finish_ttry_open [OF open_any(1)]
    by (auto simp: handle_public_def Let_def split: option.split prod.split)
  show "\<exists>t \<le> TUNNEL_OPEN_TIMEOUT. finish (handle_acme env host ps sc) = Some t"
    using finish_ttry_open [OF open_any(2)]
    by (auto simp: handle_acme_def finish_def tthen_emit split: option.split)
qed


lemma handle_acme_Challenge:
  "happens (handle_acme env host ps sc) (ProxyChallenge q) \<Longrightarrow>
   sc \<noteq> Some host \<and> (\<exists>e. pending ps (split_next (CHR ''.'') host) = Some e \<and> pending_conn e = q)"
  by (auto simp: handle_acme_def ttry_def elim!: happens_tbindE
      split: option.splits if_splits pending_conn.splits)

text \<open>
  C17. A TLS-ALPN-01 challenge for a client is proxied only to the newest connection that waits for
  that client's challenge, never to one it replaced, and never while the relay itself has a
  challenge in progress for that very host.
\<close>

theorem challenge_reaches_newest:
  assumes "reachable pending_init pending_step (ps, ws)" and "length ws \<le> 2 ^ 64"
    and "happens (handle_acme env host ps server_challenge) (ProxyChallenge q)"
  shows "server_challenge \<noteq> Some host \<and>
    (\<exists>e. newest ws (split_next (CHR ''.'') host) = Some e \<and> pending_conn e = q)"
proof -
  have "pending ps i = newest ws i" for i
    using pending_table.inv_reachable [OF assms(1)] assms(2) by (simp add: pending_inv_def)
  with handle_acme_Challenge [OF assms(3)] show ?thesis by simp
qed

theorem challenge_reaches_newest_witness:
  "\<exists>e. newest [\<lparr>w_id = ''h'', w_token = 0, w_conn = PendingQuic 1, w_done = False\<rparr>]
     (split_next (CHR ''.'') ''h.x'') = Some e \<and> pending_conn e = PendingQuic 1"
proof -
  let ?s = "fst (pending_alpn_insert ''h'' (PendingQuic 1) \<lparr>pending = Map.empty, next_token = 0\<rparr>)"
  have "reachable pending_init pending_step
      (?s, [\<lparr>w_id = ''h'', w_token = 0, w_conn = PendingQuic 1, w_done = False\<rparr>])"
    using pending_reach(2) [OF pending_reach(1), of "''h''" "PendingQuic 1"]
    by (simp add: pending_alpn_insert_def)
  moreover have "happens (handle_acme demo_env ''h.x'' ?s None) (ProxyChallenge (PendingQuic 1))"
    by (simp add: handle_acme_def pending_alpn_insert_def split_next_def ttry_def open_quic_def
        demo_env_def happens_tbind result_tbind)
  ultimately show ?thesis using challenge_reaches_newest by fastforce
qed

section \<open>The accept loop\<close>

text \<open>
  The loop over what \<open>accept\<close> gives, from the moment the loop is free to ask: a connection is handed
  to \<open>handle_accepted\<close> in a task of its own, an error only costs a pause. There is no budget.
\<close>

datatype 'p public_accept = HandleSpawned instant 'p | PublicAcceptFailed instant string

fun run_public_listener :: "instant \<Rightarrow> (instant \<times> (string + 'p)) list \<Rightarrow> 'p public_accept list" where
  "run_public_listener free [] = []"
| "run_public_listener free ((t, got) # rest) =
     (let now = max free t in
      case got of
        Inl e \<Rightarrow> PublicAcceptFailed now e # run_public_listener (now + ACCEPT_ERROR_BACKOFF_public) rest
      | Inr stream \<Rightarrow> HandleSpawned now stream # run_public_listener now rest)"

text \<open>The loop serves every connection, in order, and none waits longer than the errors before it cost.\<close>

lemma public_listener_serves:
  assumes "(t, Inr stream) \<in> set conns"
  shows "\<exists>now. HandleSpawned now stream \<in> set (run_public_listener free conns) \<and> t \<le> now"
  using assms
proof (induction free conns rule: run_public_listener.induct)
  case (2 free u got rest)
  then show ?case by (cases got) (fastforce simp: Let_def)+
qed simp

lemma public_listener_prompt:
  assumes "HandleSpawned now stream \<in> set (run_public_listener free conns)"
    and "sorted (map fst conns)" and "\<forall>(u, got) \<in> set conns. free \<le> u"
  shows "\<exists>t. (t, Inr stream) \<in> set conns \<and>
    now \<le> t + ACCEPT_ERROR_BACKOFF_public * length (filter (\<lambda>(u, got). isl got) conns)"
proof -
  have "\<exists>t. (t, Inr stream) \<in> set conns \<and>
      now \<le> max free t + ACCEPT_ERROR_BACKOFF_public * length (filter (\<lambda>(u, got). isl got) conns)"
    if "HandleSpawned now stream \<in> set (run_public_listener free conns)" "sorted (map fst conns)" for free
    using that
  proof (induction free conns rule: run_public_listener.induct)
    case (2 free u got rest)
    show ?case
    proof (cases got)
      case (Inl e)
      with 2 obtain t where "(t, Inr stream) \<in> set rest" "u \<le> t"
        "now \<le> max (max free u + ACCEPT_ERROR_BACKOFF_public) t +
          ACCEPT_ERROR_BACKOFF_public * length (filter (\<lambda>(u, got). isl got) rest)"
        by (fastforce simp: Let_def)
      with Inl show ?thesis by (intro exI [of _ t]) (auto simp: max_def split: if_splits)
    next
      case (Inr s)
      with 2 consider "s = stream" "now = max free u" | t where "(t, Inr stream) \<in> set rest" "u \<le> t"
        "now \<le> max (max free u) t + ACCEPT_ERROR_BACKOFF_public * length (filter (\<lambda>(u, got). isl got) rest)"
        by (fastforce simp: Let_def)
      then show ?thesis
      proof cases
        case 1
        with Inr show ?thesis by (intro exI [of _ u]) simp
      next
        case (2 t)
        with Inr show ?thesis by (intro exI [of _ t]) (auto simp: max_def split: if_splits)
      qed
    qed
  qed simp
  from this [OF assms(1,2)] assms(3) show ?thesis by (fastforce simp: max_def)
qed

end
