(* ===== verification/Connection_Run.thy ===== *)
theory Connection_Run
  imports Ctrl_Frame
begin

text \<open>
  The client's reconnect loop (\<^verbatim>\<open>tunnel-client/src/client.rs\<close>): the retry policy and its state, one
  QUIC attempt, and \<open>connection_run\<close>, which drives one connection over both transports. What the
  network does in each round (whether QUIC connects, how each session ends, what the relay
  rejected, when \<open>stop()\<close> is called) is a script of \<open>attempt_env\<close>s.
\<close>

section \<open>Policy and events\<close>

record reconnect_policy =
  max_attempts :: u32
  base_backoff :: duration
  max_backoff :: duration
  connect_timeout :: duration

definition ReconnectPolicy_default :: reconnect_policy where
  "ReconnectPolicy_default = \<lparr>max_attempts = 5, base_backoff = from_secs 2,
     max_backoff = from_secs 32, connect_timeout = from_secs 10\<rparr>"

definition ReconnectPolicy_mobile :: reconnect_policy where
  "ReconnectPolicy_mobile = \<lparr>max_attempts = 0, base_backoff = from_secs 2,
     max_backoff = from_secs 60, connect_timeout = from_secs 10\<rparr>"

definition policy_exhausted :: "reconnect_policy \<Rightarrow> u32 \<Rightarrow> bool" where
  "policy_exhausted p attempts \<longleftrightarrow> max_attempts p \<noteq> 0 \<and> max_attempts p \<le> attempts"

datatype policy_error = ZeroBaseBackoff | BaseAboveMax duration duration | ZeroConnectTimeout

definition policy_validate :: "reconnect_policy \<Rightarrow> policy_error + unit" where
  "policy_validate p =
     (if base_backoff p = 0 then Inl ZeroBaseBackoff
      else if \<not> base_backoff p \<le> max_backoff p then Inl (BaseAboveMax (base_backoff p) (max_backoff p))
      else if connect_timeout p = 0 then Inl ZeroConnectTimeout
      else Inr ())"

datatype transport = TransportQuic | TransportH2

definition as_str :: "transport \<Rightarrow> string" where
  "as_str t = (case t of TransportQuic \<Rightarrow> ''quic'' | TransportH2 \<Rightarrow> ''h2'')"

datatype connection_event =
    Established string string transport
  | Lost string string transport string
  | AttemptFailed string string u32 string duration
  | GaveUp string string string

record attempt_failure =
  af_cause :: string
  af_until :: "instant option"

definition AttemptFailure_new :: "string \<Rightarrow> attempt_failure" where
  "AttemptFailure_new c = \<lparr>af_cause = c, af_until = None\<rparr>"

datatype session_outcome = SessionStopped | SessionLost | NeverUp attempt_failure

section \<open>Retry state\<close>

record retry_state =
  policy :: reconnect_policy
  attempts :: u32
  backoff :: duration

definition RetryState_new :: "reconnect_policy \<Rightarrow> retry_state" where
  "RetryState_new p = \<lparr>policy = p, attempts = 0, backoff = base_backoff p\<rparr>"

definition next_attempt :: "retry_state \<Rightarrow> u32" where
  "next_attempt r = sat_add (attempts r) 1"

definition failed :: "retry_state \<Rightarrow> retry_state \<times> u32" where
  "failed r = (let r = r\<lparr>attempts := sat_add (attempts r) 1\<rparr> in (r, attempts r))"

definition rejected :: "retry_state \<Rightarrow> retry_state \<times> u32" where
  "rejected r = failed (r\<lparr>backoff := max_backoff (policy r)\<rparr>)"

definition recovered :: "retry_state \<Rightarrow> retry_state" where
  "recovered r = r\<lparr>attempts := 0, backoff := base_backoff (policy r)\<rparr>"

definition exhausted :: "retry_state \<Rightarrow> bool" where
  "exhausted r = policy_exhausted (policy r) (attempts r)"

text \<open>
  \<open>wait\<close>, with the time until \<open>stop()\<close> is called, if it is. The result is false when the stop
  came first.
\<close>

definition retry_wait :: "duration option \<Rightarrow> duration option \<Rightarrow> retry_state \<Rightarrow> retry_state \<times> bool" where
  "retry_wait stop delay r =
     (let d = (case delay of Some d \<Rightarrow> d | None \<Rightarrow> backoff r) in
      if (case stop of Some s \<Rightarrow> s < d | None \<Rightarrow> False) then (r, False)
      else if delay = None
      then (r\<lparr>backoff := min (saturating_mul (backoff r) 2) (max_backoff (policy r))\<rparr>, True)
      else (r, True))"

section \<open>One attempt over QUIC\<close>

record quic_env =
  bind_ok :: bool
  connect_ok :: bool
  loop_result :: "attempt_failure + unit"
  ctrl_completed :: bool
  close_reason :: "(u32 \<times> byte list) option"
  stopped_after :: bool

text \<open>The slot holds the latest rejection by the relay.\<close>

definition quic_loop :: "quic_env \<Rightarrow> string option \<Rightarrow> (attempt_failure + unit) \<times> string option" where
  "quic_loop e slot =
     (loop_result e,
      case close_reason e of
        Some (code, reason) \<Rightarrow>
          if code = REJECT_UNAUTHORIZED then Some (from_utf8_lossy reason) else slot
      | None \<Rightarrow> slot)"

definition quic_session :: "string \<Rightarrow> string \<Rightarrow> quic_env \<Rightarrow> string option \<Rightarrow>
    string option \<times> connection_event list \<times> session_outcome option" where
  "quic_session tag addr e slot =
     (if \<not> connect_ok e then (slot, [], None)
      else
        (let (ended, slot) = quic_loop e slot;
             up = (if ctrl_completed e then [Established tag addr TransportQuic] else []);
             failure = (case ended of Inl f \<Rightarrow> f | Inr _ \<Rightarrow> AttemptFailure_new ''connection closed'') in
         if stopped_after e then (slot, up, Some SessionStopped)
         else if ctrl_completed e
         then (slot, up @ [Lost tag addr TransportQuic (af_cause failure)], Some SessionLost)
         else (slot, up, Some (NeverUp failure))))"

text \<open>The endpoint is bound on first use and kept; the result carries whether it is.\<close>

definition quic_attempt :: "bool \<Rightarrow> bool \<Rightarrow> string \<Rightarrow> string \<Rightarrow> quic_env \<Rightarrow> string option \<Rightarrow>
    bool \<times> string option \<times> connection_event list \<times> session_outcome option" where
  "quic_attempt force_h2 endpoint tag addr e slot =
     (if force_h2 then (endpoint, slot, [], None)
      else
        (let endpoint = (endpoint \<or> bind_ok e) in
         if \<not> endpoint then (endpoint, slot, [], None)
         else (endpoint, quic_session tag addr e slot)))"

section \<open>The loop\<close>

record attempt_env =
  stopped_before :: bool
  quic :: quic_env
  h2_events :: "connection_event list"
  h2_rejected :: "string option"
  h2_outcome :: session_outcome
  env_now :: instant
  stop_in :: "duration option"

datatype run_result = RunOk | GiveUpRejected u32 string | GiveUpFailed u32 | StillRunning

datatype next_step = Return run_result | Retry "string option" "duration option"

text \<open>What the loop does with the end of a session: return, or wait and go round again.\<close>

definition after_session :: "instant \<Rightarrow> string option \<Rightarrow> session_outcome \<Rightarrow> retry_state \<Rightarrow>
    retry_state \<times> next_step" where
  "after_session now slot out r =
     (if out = SessionStopped then (r, Return RunOk)
      else
        (case slot of
           Some reason \<Rightarrow>
             (let (r, n) = rejected r in
              if exhausted r then (r, Return (GiveUpRejected n reason))
              else (r, Retry (Some (''rejected by relay: '' @ reason)) None))
         | None \<Rightarrow>
             (case out of
                NeverUp failure \<Rightarrow>
                  (case af_until failure of
                     Some until \<Rightarrow>
                       (r, Retry (Some (af_cause failure)) (Some (max (until - now) (base_backoff (policy r)))))
                   | None \<Rightarrow>
                       (let (r, n) = failed r in
                        if exhausted r then (r, Return (GiveUpFailed n))
                        else (r, Retry (Some (af_cause failure)) None)))
              | _ \<Rightarrow> (recovered r, Retry None None))))"

definition session :: "bool \<Rightarrow> bool \<Rightarrow> string \<Rightarrow> string \<Rightarrow> attempt_env \<Rightarrow>
    bool \<times> string option \<times> connection_event list \<times> session_outcome" where
  "session force_h2 endpoint tag addr e =
     (case quic_attempt force_h2 endpoint tag addr (quic e) None of
        (endpoint, slot, evs, Some out) \<Rightarrow> (endpoint, slot, evs, out)
      | (endpoint, slot, evs, None) \<Rightarrow>
          (False, (if h2_rejected e = None then slot else h2_rejected e), evs @ h2_events e, h2_outcome e))"

fun connection_run :: "bool \<Rightarrow> string \<Rightarrow> string \<Rightarrow> bool \<Rightarrow> retry_state \<Rightarrow> attempt_env list \<Rightarrow>
    run_result \<times> connection_event list" where
  "connection_run force_h2 tag addr endpoint r [] = (StillRunning, [])"
| "connection_run force_h2 tag addr endpoint r (e # es) =
     (if stopped_before e then (RunOk, [])
      else
        (let attempt = next_attempt r;
             (endpoint, slot, evs, out) = session force_h2 endpoint tag addr e in
         case after_session (env_now e) slot out r of
           (r, Return res) \<Rightarrow> (res, evs)
         | (r, Retry cause delay) \<Rightarrow>
             (let retry_in = (case delay of Some d \<Rightarrow> d | None \<Rightarrow> backoff r);
                  evs = evs @ (case cause of
                    Some c \<Rightarrow> [AttemptFailed tag addr attempt c retry_in] | None \<Rightarrow> []) in
              case retry_wait (stop_in e) delay r of
                (r, False) \<Rightarrow> (RunOk, evs)
              | (r, True) \<Rightarrow> apsnd ((@) evs) (connection_run force_h2 tag addr endpoint r es))))"

section \<open>The budget\<close>

text \<open>How a session counts: not at all, as a failure, or as a reset of the budget.\<close>

datatype tally = Halt | Reset | Count | Skip

definition tally_of :: "string option \<Rightarrow> session_outcome \<Rightarrow> tally" where
  "tally_of slot out =
     (if out = SessionStopped then Halt
      else if slot \<noteq> None then Count
      else (case out of
          NeverUp f \<Rightarrow> if af_until f = None then Count else Skip
        | _ \<Rightarrow> Reset))"

fun tallies :: "bool \<Rightarrow> string \<Rightarrow> string \<Rightarrow> bool \<Rightarrow> attempt_env list \<Rightarrow> tally list" where
  "tallies force_h2 tag addr endpoint [] = []"
| "tallies force_h2 tag addr endpoint (e # es) =
     (case session force_h2 endpoint tag addr e of
        (endpoint, slot, _, out) \<Rightarrow> tally_of slot out # tallies force_h2 tag addr endpoint es)"

text \<open>The failures since the last session that carried traffic.\<close>

definition streak :: "tally list \<Rightarrow> nat" where
  "streak ts = length (filter ((=) Count) (takeWhile ((\<noteq>) Reset) (rev ts)))"

definition streak_from :: "nat \<Rightarrow> tally list \<Rightarrow> nat" where
  "streak_from n ts = (if Reset \<in> set ts then streak ts else n + streak ts)"

fun counted :: "nat \<Rightarrow> tally \<Rightarrow> nat" where
  "counted n Count = Suc n"
| "counted n Reset = 0"
| "counted n _ = n"

lemma streak_from_Nil [simp]: "streak_from n [] = n"
  by (simp add: streak_from_def streak_def)

lemma streak_Cons:
  "streak (t # ts) = (if Reset \<in> set ts then streak ts else counted 0 t + streak ts)"
proof (cases "Reset \<in> set ts")
  case True
  then show ?thesis by (simp add: streak_def takeWhile_append1)
next
  case False
  then have tw: "takeWhile ((\<noteq>) Reset) (rev ts @ xs) = rev ts @ takeWhile ((\<noteq>) Reset) xs" for xs
    by (intro takeWhile_append2) auto
  have "streak ts = length (filter ((=) Count) (rev ts))"
    using tw [of "[]"] unfolding streak_def by (simp only: append_Nil2 takeWhile.simps)
  moreover have "streak (t # ts) =
      length (filter ((=) Count) (rev ts @ takeWhile ((\<noteq>) Reset) [t]))"
    unfolding streak_def rev.simps tw ..
  ultimately show ?thesis using False by (cases t) simp_all
qed

lemma streak_from_Cons [simp]: "streak_from n (t # ts) = streak_from (counted n t) ts"
  by (cases t) (auto simp: streak_from_def streak_Cons)

definition no_stop :: "attempt_env \<Rightarrow> bool" where
  "no_stop e \<longleftrightarrow> \<not> stopped_before e \<and> stop_in e = None"

definition counts :: "retry_state \<Rightarrow> nat \<Rightarrow> bool" where
  "counts r n \<longleftrightarrow> unat (attempts r) = min n (2 ^ 32 - 1)"

lemma counts_failed: "counts r n \<Longrightarrow> counts (fst (failed r)) (Suc n)"
  by (simp add: counts_def failed_def Let_def unat_sat_add)

lemma exhausted_counts:
  assumes "counts r n"
  shows "exhausted r \<longleftrightarrow> max_attempts (policy r) \<noteq> 0 \<and> unat (max_attempts (policy r)) \<le> n"
proof -
  have "unat (max_attempts (policy r)) < 2 ^ 32" using unsigned_less [of "max_attempts (policy r)"] by simp
  with assms show ?thesis
    by (auto simp: exhausted_def policy_exhausted_def counts_def word_le_nat_alt)
qed

lemma policy_ops [simp]:
  "policy (fst (failed r)) = policy r" "policy (fst (rejected r)) = policy r"
  "policy (recovered r) = policy r" "policy (fst (retry_wait st d r)) = policy r"
  by (simp_all add: failed_def rejected_def recovered_def retry_wait_def Let_def)

lemma counts_ops [simp]:
  "counts (r\<lparr>backoff := b\<rparr>) n = counts r n" "counts (recovered r) 0"
  "counts (fst (retry_wait st d r)) n = counts r n"
  by (simp_all add: counts_def recovered_def retry_wait_def Let_def)

text \<open>One round, seen from the budget.\<close>

lemma after_session_counts:
  assumes "counts r n" and "after_session t slot out r = (r', step)" and "tally_of slot out \<noteq> Halt"
  shows "policy r' = policy r \<and> counts r' (counted n (tally_of slot out)) \<and>
    (case step of
       Return res \<Rightarrow> tally_of slot out = Count \<and> exhausted r' \<and>
         (\<exists>c. res = GiveUpFailed (attempts r') \<or> res = GiveUpRejected (attempts r') c)
     | Retry c d \<Rightarrow> tally_of slot out = Count \<longrightarrow> \<not> exhausted r')"
proof (cases slot)
  case (Some reason)
  obtain r1 m where r1: "rejected r = (r1, m)" by (cases "rejected r")
  have "counts (fst (rejected r)) (Suc n)"
    using counts_failed [of "r\<lparr>backoff := max_backoff (policy r)\<rparr>" n] assms(1)
    by (simp add: rejected_def)
  moreover have "snd (rejected r) = attempts (fst (rejected r))"
    by (simp add: rejected_def failed_def Let_def)
  ultimately have "counts r1 (Suc n)" "m = attempts r1" "policy r1 = policy r"
    using policy_ops(2) [of r] by (simp_all add: r1)
  then show ?thesis
    using assms(2,3) Some by (auto simp: after_session_def tally_of_def r1 split: if_splits)
next
  case None
  obtain r1 m where r1: "failed r = (r1, m)" by (cases "failed r")
  have "snd (failed r) = attempts (fst (failed r))" by (simp add: failed_def Let_def)
  then have "counts r1 (Suc n)" "m = attempts r1" "policy r1 = policy r"
    using counts_failed [OF assms(1)] policy_ops(1) [of r] by (simp_all add: r1)
  with None assms show ?thesis
    by (auto simp: after_session_def tally_of_def r1
        split: if_splits session_outcome.splits option.splits)
qed

definition gave_up :: "run_result \<Rightarrow> u32 \<Rightarrow> bool" where
  "gave_up res n \<longleftrightarrow> res = GiveUpFailed n \<or> (\<exists>reason. res = GiveUpRejected n reason)"

lemma connection_run_step:
  assumes "no_stop e" and "session force_h2 endpoint tag addr e = (ep, slot, evs, out)"
    and "after_session (env_now e) slot out r = (r', step)"
  shows "fst (connection_run force_h2 tag addr endpoint r (e # es)) =
    (case step of
       Return res \<Rightarrow> res
     | Retry c d \<Rightarrow> fst (connection_run force_h2 tag addr ep (fst (retry_wait None d r')) es))"
proof -
  have "snd (retry_wait None d r') = True" for d
    by (simp add: retry_wait_def Let_def)
  then have w: "retry_wait None d r' = (fst (retry_wait None d r'), True)" for d
    by (metis prod.collapse)
  show ?thesis
  proof (cases step)
    case (Retry c d)
    with assms show ?thesis
      by (simp add: no_stop_def Let_def) (subst w, simp)
  qed (use assms in \<open>simp add: no_stop_def Let_def\<close>)
qed

lemma ex_le_Suc: "(\<exists>k \<le> Suc n. P k) \<longleftrightarrow> P 0 \<or> (\<exists>k \<le> n. P (Suc k))"
  by (metis Suc_le_mono not0_implies_Suc zero_le)

lemma connection_run_budget:
  assumes "counts r n" and "max_attempts (policy r) \<noteq> 0 \<Longrightarrow> n < unat (max_attempts (policy r))"
    and "\<forall>e \<in> set es. no_stop e"
    and "Halt \<notin> set (tallies force_h2 tag addr endpoint es)"
  shows "if max_attempts (policy r) \<noteq> 0 \<and>
      (\<exists>k \<le> length es. streak_from n (take k (tallies force_h2 tag addr endpoint es)) =
         unat (max_attempts (policy r)))
    then gave_up (fst (connection_run force_h2 tag addr endpoint r es)) (max_attempts (policy r))
    else fst (connection_run force_h2 tag addr endpoint r es) = StillRunning"
  using assms
proof (induction es arbitrary: r n endpoint)
  case Nil
  then show ?case by auto
next
  case (Cons e es)
  obtain ep slot evs out where s: "session force_h2 endpoint tag addr e = (ep, slot, evs, out)"
    by (metis prod_cases4)
  obtain r' step where a: "after_session (env_now e) slot out r = (r', step)" by fastforce
  let ?t = "tally_of slot out" and ?m = "unat (max_attempts (policy r))"
  let ?ts = "tallies force_h2 tag addr ep es"
  have ts: "tallies force_h2 tag addr endpoint (e # es) = ?t # ?ts" by (simp add: s)
  have nh: "?t \<noteq> Halt" "Halt \<notin> set ?ts" using Cons.prems(4) unfolding ts by auto
  note c = after_session_counts [OF Cons.prems(1) a nh(1)]
  have ns: "no_stop e" "\<forall>e \<in> set es. no_stop e" using Cons.prems(3) by simp_all
  note run = connection_run_step [OF ns(1) s a, of es]
  have first: "(\<exists>k \<le> length (e # es). streak_from n (take k (?t # ?ts)) = ?m) \<longleftrightarrow>
      n = ?m \<or> (\<exists>k \<le> length es. streak_from (counted n ?t) (take k ?ts) = ?m)"
    by (simp add: ex_le_Suc take_Cons')
  show ?case
  proof (cases step)
    case (Return res)
    with c have ex: "exhausted r'" and t: "?t = Count" by simp_all
    have "counts r' (Suc n)" "policy r' = policy r" using c t by simp_all
    with ex exhausted_counts have m: "max_attempts (policy r) \<noteq> 0" "?m \<le> Suc n" by fastforce+
    with Cons.prems(2) have "Suc n = ?m" by simp
    moreover have "?m < 2 ^ 32" using unsigned_less [of "max_attempts (policy r)"] by simp
    with calculation have "attempts r' = max_attempts (policy r)"
      using \<open>counts r' (Suc n)\<close> by (intro word_unat_eq_iff [THEN iffD2]) (simp add: counts_def)
    ultimately show ?thesis
      using c Return m t run unfolding ts first
      by (auto simp: gave_up_def simp del: connection_run.simps)
  next
    case (Retry cs d)
    let ?r = "fst (retry_wait None d r')" and ?n = "counted n ?t"
    have pol: "policy ?r = policy r" and cnt: "counts ?r ?n" using c by simp_all
    have lt: "?n < ?m" if "max_attempts (policy r) \<noteq> 0"
      using c Cons.prems(2) [OF that] that Retry exhausted_counts [of r' ?n]
      by (cases ?t) (auto simp: not_le)
    have "n \<noteq> ?m \<or> max_attempts (policy r) = 0" using Cons.prems(2) by auto
    moreover have "fst (connection_run force_h2 tag addr endpoint r (e # es)) =
        fst (connection_run force_h2 tag addr ep ?r es)"
      using run Retry by simp
    ultimately show ?thesis
      using Cons.IH [of ?r ?n ep, OF cnt _ ns(2) nh(2), unfolded pol, OF lt] unfolding ts first
      by (auto simp del: connection_run.simps split: if_splits)
  qed
qed


definition demo_quic :: quic_env where
  "demo_quic = \<lparr>bind_ok = False, connect_ok = False, loop_result = Inr (), ctrl_completed = False,
     close_reason = None, stopped_after = False\<rparr>"

definition failing :: "string \<Rightarrow> attempt_env" where
  "failing c = \<lparr>stopped_before = False, quic = demo_quic, h2_events = [], h2_rejected = None,
     h2_outcome = NeverUp (AttemptFailure_new c), env_now = 0, stop_in = None\<rparr>"

lemma session_failing:
  "session force_h2 False tag addr (failing c) = (False, None, [], NeverUp (AttemptFailure_new c))"
  by (simp add: session_def failing_def demo_quic_def quic_attempt_def)

lemma no_stop_failing: "no_stop (failing c)"
  by (simp add: no_stop_def failing_def)

lemma tallies_failing:
  "tallies force_h2 tag addr False (failing c # es) = Count # tallies force_h2 tag addr False es"
  by (simp add: session_failing) (simp add: tally_of_def AttemptFailure_new_def)


section \<open>The backoff\<close>

text \<open>The waits a run announces.\<close>

fun waits :: "connection_event list \<Rightarrow> duration list" where
  "waits [] = []"
| "waits (AttemptFailed _ _ _ _ d # evs) = d # waits evs"
| "waits (_ # evs) = waits evs"

lemma waits_append [simp]: "waits (xs @ ys) = waits xs @ waits ys"
  by (induction xs rule: waits.induct) auto

text \<open>A session that fails without a rejection, a rate limit or an event of its own.\<close>

definition plain_failure :: "attempt_env \<Rightarrow> bool" where
  "plain_failure e \<longleftrightarrow> no_stop e \<and> \<not> connect_ok (quic e) \<and> h2_events e = [] \<and> h2_rejected e = None \<and>
     (\<exists>c. h2_outcome e = NeverUp (AttemptFailure_new c))"

definition policy_ok :: "reconnect_policy \<Rightarrow> bool" where
  "policy_ok p \<longleftrightarrow> policy_validate p = Inr () \<and> max_backoff p \<le> DURATION_MAX"

definition backoff_after :: "reconnect_policy \<Rightarrow> nat \<Rightarrow> duration" where
  "backoff_after p k = min (base_backoff p * 2 ^ k) (max_backoff p)"

lemma backoff_doubles:
  assumes "policy_ok p"
  shows "min (saturating_mul (backoff_after p k) 2) (max_backoff p) = backoff_after p (Suc k)"
  using assms by (auto simp: backoff_after_def saturating_mul_def policy_ok_def min_def)

definition retries :: "reconnect_policy \<Rightarrow> nat \<Rightarrow> nat" where
  "retries p n = (if max_attempts p = 0 then n else min n (unat (max_attempts p) - 1))"

lemma session_plain:
  assumes "plain_failure e"
  shows "\<exists>ep c. session force_h2 endpoint tag addr e = (ep, None, [], NeverUp (AttemptFailure_new c))"
  using assms
  by (auto simp: plain_failure_def session_def quic_attempt_def quic_session_def Let_def)

lemma connection_run_backoff:
  assumes "policy_ok (policy r)" and "counts r k" and "backoff r = backoff_after (policy r) k"
    and "max_attempts (policy r) \<noteq> 0 \<Longrightarrow> k < unat (max_attempts (policy r))"
    and "\<forall>e \<in> set es. plain_failure e"
  shows "waits (snd (connection_run force_h2 tag addr endpoint r es)) =
    map (backoff_after (policy r)) [k ..< (if max_attempts (policy r) = 0 then k + length es
      else min (k + length es) (unat (max_attempts (policy r)) - 1))]"
  using assms
proof (induction es arbitrary: r k endpoint)
  case (Cons e es)
  then have e: "plain_failure e" and "no_stop e" by (auto simp: plain_failure_def)
  obtain ep c where s: "session force_h2 endpoint tag addr e = (ep, None, [], NeverUp (AttemptFailure_new c))"
    using session_plain [OF e] by blast
  define r1 where "r1 = fst (failed r)"
  have r1: "failed r = (r1, attempts r1)" "policy r1 = policy r" "backoff r1 = backoff r"
    by (simp_all add: r1_def failed_def Let_def)
  have c1: "counts r1 (Suc k)" unfolding r1_def by (rule counts_failed) (rule Cons.prems(2))
  define r2 where "r2 = r1\<lparr>backoff := backoff_after (policy r) (Suc k)\<rparr>"
  have w: "retry_wait None None r1 = (r2, True)"
    using backoff_doubles [OF Cons.prems(1), of k]
    by (simp add: retry_wait_def Let_def r1 r2_def Cons.prems(3))
  show ?case
  proof (cases "exhausted r1")
    case True
    with exhausted_counts [OF c1] r1(2) Cons.prems(4)
    have "unat (max_attempts (policy r)) - 1 = k" "max_attempts (policy r) \<noteq> 0" by auto
    with True s \<open>no_stop e\<close> show ?thesis
      by (simp add: no_stop_def after_session_def AttemptFailure_new_def r1(1) Let_def)
  next
    case False
    have run: "snd (connection_run force_h2 tag addr endpoint r (e # es)) =
        AttemptFailed tag addr (next_attempt r) c (backoff r) # snd (connection_run force_h2 tag addr ep r2 es)"
      using False s \<open>no_stop e\<close> w
      by (simp add: no_stop_def after_session_def AttemptFailure_new_def r1 Let_def)
    have lim: "Suc k < unat (max_attempts (policy r))" if "max_attempts (policy r) \<noteq> 0"
      using False exhausted_counts [OF c1] r1(2) that by auto
    have ih: "waits (snd (connection_run force_h2 tag addr ep r2 es)) =
        map (backoff_after (policy r)) [Suc k ..< (if max_attempts (policy r) = 0 then Suc k + length es
          else min (Suc k + length es) (unat (max_attempts (policy r)) - 1))]"
      using Cons.IH [of r2 "Suc k" ep] Cons.prems(1,5) c1 lim r1(2) by (simp add: r2_def)
    define N where "N = (if max_attempts (policy r) = 0 then Suc k + length es
      else min (Suc k + length es) (unat (max_attempts (policy r)) - 1))"
    have "k < N" using lim by (auto simp: N_def)
    then have "[k ..< N] = k # [Suc k ..< N]" by (rule upt_conv_Cons)
    moreover have "(if max_attempts (policy r) = 0 then k + length (e # es)
      else min (k + length (e # es)) (unat (max_attempts (policy r)) - 1)) = N"
      by (simp add: N_def)
    ultimately show ?thesis
      using Cons.prems(3) by (simp only: run ih waits.simps N_def [symmetric] list.map)
  qed
qed simp

text \<open>
  C35. The backoff: a connection whose attempts keep failing waits the base backoff, then doubles
  it up to the maximum, without overflow. Under a limited policy the last failure is not followed
  by a wait, so the default policy waits 2, 4, 8 and 16 seconds and then gives up.
\<close>

theorem backoff_sequence:
  assumes "policy_ok p" and "\<forall>e \<in> set es. plain_failure e"
  shows "waits (snd (connection_run force_h2 tag addr False (RetryState_new p) es)) =
      map (backoff_after p) [0 ..< retries p (length es)]"
proof -
  have c: "counts (RetryState_new p) 0" and pol: "policy (RetryState_new p) = p"
    and b: "backoff (RetryState_new p) = backoff_after p 0"
    using assms(1)
    by (auto simp: counts_def RetryState_new_def backoff_after_def policy_ok_def policy_validate_def
        split: if_splits)
  have "0 < unat (max_attempts p)" if "max_attempts p \<noteq> 0" using that by (simp add: unat_gt_0)
  then show ?thesis
    using connection_run_backoff [of "RetryState_new p" 0 es force_h2 tag addr False, unfolded pol]
      assms c b
    by (simp add: retries_def)
qed

lemma plain_failing: "plain_failure (failing c)"
  by (simp add: plain_failure_def no_stop_failing)
     (simp add: failing_def demo_quic_def AttemptFailure_new_def)

lemma policy_ok_default: "policy_ok ReconnectPolicy_default"
  by (simp add: policy_ok_def ReconnectPolicy_default_def policy_validate_def from_secs_def
      DURATION_MAX_def)

theorem backoff_sequence_witness:
  "waits (snd (connection_run False ''PRI'' ''r:1'' False (RetryState_new ReconnectPolicy_default)
     (replicate 7 (failing ''x'')))) = map from_secs [2, 4, 8, 16]"
proof -
  have "retries ReconnectPolicy_default 7 = 4"
    by (simp add: retries_def ReconnectPolicy_default_def)
  then have "map (backoff_after ReconnectPolicy_default) [0 ..< retries ReconnectPolicy_default 7] =
      map from_secs [2, 4, 8, 16]"
    by (simp add: upt_rec backoff_after_def ReconnectPolicy_default_def from_secs_def)
  then show ?thesis
    using backoff_sequence [OF policy_ok_default, of "replicate 7 (failing ''x'')" False "''PRI''" "''r:1''"]
    by (simp add: plain_failing del: connection_run.simps)
qed

section \<open>The order of events\<close>

text \<open>
  What a listener may see of one connection: it is established, then lost, then established
  again; attempts fail only while it is down. The flag is whether it is up.
\<close>

fun well_ordered :: "bool \<Rightarrow> connection_event list \<Rightarrow> bool" where
  "well_ordered up [] \<longleftrightarrow> True"
| "well_ordered up (Established _ _ _ # evs) \<longleftrightarrow> \<not> up \<and> well_ordered True evs"
| "well_ordered up (Lost _ _ _ _ # evs) \<longleftrightarrow> up \<and> well_ordered False evs"
| "well_ordered up (AttemptFailed _ _ _ _ _ # evs) \<longleftrightarrow> \<not> up \<and> well_ordered False evs"
| "well_ordered up (GaveUp _ _ _ # evs) \<longleftrightarrow> False"

fun up_after :: "bool \<Rightarrow> connection_event list \<Rightarrow> bool" where
  "up_after up [] = up"
| "up_after up (Established _ _ _ # evs) = up_after True evs"
| "up_after up (Lost _ _ _ _ # evs) = up_after False evs"
| "up_after up (_ # evs) = up_after up evs"

lemma well_ordered_append:
  "well_ordered up (xs @ ys) \<longleftrightarrow> well_ordered up xs \<and> well_ordered (up_after up xs) ys"
  by (induction up xs rule: well_ordered.induct) auto

lemma up_after_append: "up_after up (xs @ ys) = up_after (up_after up xs) ys"
  by (induction up xs rule: up_after.induct) auto

text \<open>What the loop relies on the H2 pool for: its events are in order and it ends down, unless stopped.\<close>

definition pool_in_order :: "attempt_env \<Rightarrow> bool" where
  "pool_in_order e \<longleftrightarrow> well_ordered False (h2_events e) \<and>
     (h2_outcome e = SessionStopped \<or> \<not> up_after False (h2_events e))"

lemma session_in_order:
  assumes "pool_in_order e" and "session force_h2 endpoint tag addr e = (ep, slot, evs, out)"
  shows "well_ordered False evs \<and> (out = SessionStopped \<or> \<not> up_after False evs)"
  using assms
  by (auto simp: session_def quic_attempt_def quic_session_def quic_loop_def pool_in_order_def Let_def
      split: if_splits)

lemma connection_run_in_order:
  "\<forall>e \<in> set es. pool_in_order e \<Longrightarrow>
   well_ordered False (snd (connection_run force_h2 tag addr endpoint r es))"
proof (induction es arbitrary: endpoint r)
  case (Cons e es)
  obtain ep slot evs out where s: "session force_h2 endpoint tag addr e = (ep, slot, evs, out)"
    by (metis prod_cases4)
  have o: "well_ordered False evs" "out = SessionStopped \<or> \<not> up_after False evs"
    using session_in_order [OF _ s] Cons.prems by auto
  obtain r' step where a: "after_session (env_now e) slot out r = (r', step)" by fastforce
  show ?case
  proof (cases step)
    case (Return res)
    with o s a show ?thesis by (simp add: Let_def)
  next
    case (Retry c d)
    with a have "out \<noteq> SessionStopped" by (auto simp: after_session_def)
    with o have d: "\<not> up_after False evs" by simp
    obtain r2 b where w: "retry_wait (stop_in e) d r' = (r2, b)" by fastforce
    have "well_ordered False (evs @ (case c of Some c \<Rightarrow> [AttemptFailed tag addr n c t] | None \<Rightarrow> []))"
      "\<not> up_after False (evs @ (case c of Some c \<Rightarrow> [AttemptFailed tag addr n c t] | None \<Rightarrow> []))" for n t
      using o d by (auto simp: well_ordered_append up_after_append split: option.split)
    with Cons s a Retry w show ?thesis
      by (cases b) (auto simp: Let_def well_ordered_append split: option.splits)
  qed
qed simp



end
