(* ===== verification/H2_Pool.thy ===== *)
theory H2_Pool
  imports Connection_Run
begin

text \<open>
  The H2 pool of the client (\<^verbatim>\<open>tunnel-client/src/client.rs\<close>: \<open>PoolLiveness\<close>, \<open>H2Shared\<close>, \<open>H2Pooled\<close>
  and \<open>h2_pool\<close>): several members connect to one relay and count as one connection. The members
  and the session loop are concurrent tasks that share the liveness state under a lock; their
  interleavings are the step relation \<open>pool_step\<close>, one atomic critical section per step. When the
  session loop returns, its tasks are dropped, so no member steps any more.
\<close>

section \<open>Liveness of the pool\<close>

record pool_state =
  live :: nat
  ever_up :: bool
  parked :: nat

text \<open>
  \<open>went_down\<close> and \<open>all_parked\<close> are notifications, which store a permit for the session loop;
  \<open>came_up\<close> is the version of a watch channel.
\<close>

record pool_liveness = pool_state +
  went_down :: bool
  came_up :: nat
  all_parked :: bool
  pool_size :: nat
  sent_events :: "connection_event list"

definition PoolLiveness_new :: "nat \<Rightarrow> pool_liveness" where
  "PoolLiveness_new n = \<lparr>live = 0, ever_up = False, parked = 0, went_down = False, came_up = 0,
     all_parked = False, pool_size = n, sent_events = []\<rparr>"

definition pool_up :: "string \<Rightarrow> string \<Rightarrow> pool_liveness \<Rightarrow> pool_liveness" where
  "pool_up tag addr p =
     (let p = p\<lparr>live := live p + 1, ever_up := True\<rparr> in
      if live p = 1
      then p\<lparr>came_up := came_up p + 1,
             sent_events := sent_events p @ [Established tag addr TransportH2]\<rparr>
      else p)"

definition pool_down :: "string \<Rightarrow> string \<Rightarrow> string \<Rightarrow> bool \<Rightarrow> pool_liveness \<Rightarrow> pool_liveness" where
  "pool_down tag addr cause stopped p =
     (let p = p\<lparr>live := live p - 1\<rparr> in
      if live p = 0
      then (if \<not> stopped
            then p\<lparr>sent_events := sent_events p @ [Lost tag addr TransportH2 cause]\<rparr>
            else p)\<lparr>went_down := True\<rparr>
      else p)"

text \<open>\<open>park\<close> returns the version of the channel it subscribed at.\<close>

definition park :: "pool_liveness \<Rightarrow> pool_liveness \<times> nat option" where
  "park p =
     (if 0 < live p then (p, None)
      else
        (let p = p\<lparr>parked := parked p + 1\<rparr>;
             p = (if pool_size p \<le> parked p then p\<lparr>all_parked := True\<rparr> else p) in
         (p, Some (came_up p))))"

definition unpark :: "pool_liveness \<Rightarrow> pool_liveness" where
  "unpark p = p\<lparr>parked := parked p - 1\<rparr>"

section \<open>One attempt of a member\<close>

datatype exchange_error = RelayRejected string | ExchangeFailed attempt_failure

record member_env =
  connected :: "attempt_failure + unit"
  ctrl_exchange :: "(exchange_error + unit) fut"
  ping_cause :: "(duration \<times> string) option"
  tls_acceptor :: "attempt_failure + unit"
  accepted :: "(duration \<times> bool) list"
  dropped :: "duration option"

datatype attempt_end = Failed attempt_failure | Rejected string | Serves nat "string option"

text \<open>
  The control exchange races the ping loop: whichever resolves first decides, and neither may.
\<close>

definition race_exchange :: "member_env \<Rightarrow> (exchange_error + unit) option" where
  "race_exchange e =
     (case (ctrl_exchange e, ping_cause e) of
        (Some (t, r), Some (u, c)) \<Rightarrow>
          Some (if t \<le> u then r else Inl (ExchangeFailed (AttemptFailure_new c)))
      | (Some (t, r), None) \<Rightarrow> Some r
      | (None, Some (u, c)) \<Rightarrow> Some (Inl (ExchangeFailed (AttemptFailure_new c)))
      | (None, None) \<Rightarrow> None)"

text \<open>
  The accept loop: one forward per stream whose response could be sent, until the connection
  drops or the ping loop gives the cause; the count of forwards and the cause.
\<close>

fun serve_streams :: "duration option \<Rightarrow> (duration \<times> string) option \<Rightarrow> (duration \<times> bool) list \<Rightarrow>
    nat \<times> string option" where
  "serve_streams drop_at ping [] =
     (0, case (drop_at, ping) of
           (Some d, Some (u, c)) \<Rightarrow> Some (if d \<le> u then ''connection dropped'' else c)
         | (Some d, None) \<Rightarrow> Some ''connection dropped''
         | (None, Some (u, c)) \<Rightarrow> Some c
         | (None, None) \<Rightarrow> None)"
| "serve_streams drop_at ping ((t, responded) # streams) =
     (case ping of
        Some (u, c) \<Rightarrow>
          if u < t then (0, Some c)
          else apfst ((+) (if responded then 1 else 0)) (serve_streams drop_at ping streams)
      | None \<Rightarrow> apfst ((+) (if responded then 1 else 0)) (serve_streams drop_at ping streams))"

text \<open>No result: the attempt is still in its exchange.\<close>

definition member_attempt :: "member_env \<Rightarrow> attempt_end option" where
  "member_attempt e =
     (case connected e of
        Inl f \<Rightarrow> Some (Failed f)
      | Inr _ \<Rightarrow>
          (case race_exchange e of
             None \<Rightarrow> None
           | Some (Inl (RelayRejected reason)) \<Rightarrow> Some (Rejected reason)
           | Some (Inl (ExchangeFailed f)) \<Rightarrow> Some (Failed f)
           | Some (Inr _) \<Rightarrow>
               (case tls_acceptor e of
                  Inl f \<Rightarrow> Some (Failed f)
                | Inr _ \<Rightarrow>
                    (case serve_streams (dropped e) (ping_cause e) (accepted e) of
                       (n, cause) \<Rightarrow> Some (Serves n cause)))))"

section \<open>Members and session loop\<close>

datatype member = Attempting | Serving "string option" | Parking | Parked nat | Waiting duration | Ended

record pool_session =
  liveness :: pool_liveness
  members :: "member list"
  backoffs :: "duration list"
  rejection :: "string option"
  last_failure :: "attempt_failure option"
  stopping :: bool
  ended :: "session_outcome option"

definition record_failure :: "attempt_failure \<Rightarrow> pool_session \<Rightarrow> pool_session" where
  "record_failure f s = s\<lparr>last_failure := Some f\<rparr>"

definition take_failure :: "pool_session \<Rightarrow> attempt_failure" where
  "take_failure s =
     (case last_failure s of Some f \<Rightarrow> f | None \<Rightarrow> AttemptFailure_new ''no pooled connection came up'')"

definition set_member :: "nat \<Rightarrow> member \<Rightarrow> pool_session \<Rightarrow> pool_session" where
  "set_member i m s = s\<lparr>members := (members s)[i := m]\<rparr>"

definition h2_pool_start :: "nat \<Rightarrow> duration \<Rightarrow> pool_session" where
  "h2_pool_start n base = \<lparr>liveness = PoolLiveness_new n, members = replicate n Attempting,
     backoffs = replicate n base, rejection = None, last_failure = None, stopping = False,
     ended = None\<rparr>"

text \<open>The attempt of a member ends: it records why it failed, or it comes up.\<close>

definition finish_attempt :: "string \<Rightarrow> string \<Rightarrow> nat \<Rightarrow> attempt_end \<Rightarrow> pool_session \<Rightarrow> pool_session" where
  "finish_attempt tag addr i r s =
     (case r of
        Failed f \<Rightarrow> set_member i Parking (record_failure f s)
      | Rejected reason \<Rightarrow> set_member i Parking (s\<lparr>rejection := Some reason\<rparr>)
      | Serves n cause \<Rightarrow>
          set_member i (Serving cause) (s\<lparr>liveness := pool_up tag addr (liveness s)\<rparr>))"

text \<open>Back from an attempt or a park: stop, or wait the backoff and double it.\<close>

definition wait_or_end :: "duration \<Rightarrow> nat \<Rightarrow> pool_session \<Rightarrow> pool_session" where
  "wait_or_end max_wait i s =
     (if stopping s then set_member i Ended s
      else (set_member i (Waiting (backoffs s ! i)) s)
             \<lparr>backoffs := (backoffs s)[i := min (saturating_mul (backoffs s ! i) 2) max_wait]\<rparr>)"

definition end_serving :: "string \<Rightarrow> string \<Rightarrow> reconnect_policy \<Rightarrow> nat \<Rightarrow> string \<Rightarrow> pool_session \<Rightarrow> pool_session" where
  "end_serving tag addr p i cause s =
     wait_or_end (max_backoff p) i
       (s\<lparr>liveness := pool_down tag addr cause (stopping s) (liveness s),
          backoffs := (backoffs s)[i := base_backoff p]\<rparr>)"

definition try_park :: "reconnect_policy \<Rightarrow> nat \<Rightarrow> pool_session \<Rightarrow> pool_session" where
  "try_park p i s =
     (case park (liveness s) of
        (l, None) \<Rightarrow> wait_or_end (max_backoff p) i (s\<lparr>liveness := l\<rparr>)
      | (l, Some v) \<Rightarrow> set_member i (Parked v) (s\<lparr>liveness := l\<rparr>))"

definition leave_park :: "reconnect_policy \<Rightarrow> bool \<Rightarrow> nat \<Rightarrow> pool_session \<Rightarrow> pool_session" where
  "leave_park p woke i s =
     (let s = s\<lparr>liveness := unpark (liveness s)\<rparr> in
      if woke then wait_or_end (max_backoff p) i s else set_member i Ended s)"

text \<open>The outcome once every member is parked, or every member has ended.\<close>

definition drained_outcome :: "pool_session \<Rightarrow> session_outcome" where
  "drained_outcome s =
     (if ever_up (liveness s) then SessionLost else NeverUp (take_failure s))"

inductive pool_step :: "string \<Rightarrow> string \<Rightarrow> reconnect_policy \<Rightarrow> pool_session \<Rightarrow> pool_session \<Rightarrow> bool"
  for tag addr p where
  attempt_ends: "ended s = None \<Longrightarrow> i < length (members s) \<Longrightarrow> members s ! i = Attempting \<Longrightarrow>
    member_attempt e = Some r \<Longrightarrow> pool_step tag addr p s (finish_attempt tag addr i r s)"
| goes_down: "ended s = None \<Longrightarrow> i < length (members s) \<Longrightarrow> members s ! i = Serving (Some cause) \<Longrightarrow>
    pool_step tag addr p s (end_serving tag addr p i cause s)"
| parks: "ended s = None \<Longrightarrow> i < length (members s) \<Longrightarrow> members s ! i = Parking \<Longrightarrow>
    pool_step tag addr p s (try_park p i s)"
| wakes: "ended s = None \<Longrightarrow> i < length (members s) \<Longrightarrow> members s ! i = Parked v \<Longrightarrow>
    came_up (liveness s) \<noteq> v \<Longrightarrow> pool_step tag addr p s (leave_park p True i s)"
| stops_parked: "ended s = None \<Longrightarrow> i < length (members s) \<Longrightarrow> members s ! i = Parked v \<Longrightarrow>
    stopping s \<Longrightarrow> pool_step tag addr p s (leave_park p False i s)"
| retries: "ended s = None \<Longrightarrow> i < length (members s) \<Longrightarrow> members s ! i = Waiting d \<Longrightarrow>
    pool_step tag addr p s (set_member i Attempting s)"
| stops_waiting: "ended s = None \<Longrightarrow> i < length (members s) \<Longrightarrow> members s ! i = Waiting d \<Longrightarrow>
    stopping s \<Longrightarrow> pool_step tag addr p s (set_member i Ended s)"
| stop_called: "pool_step tag addr p s (s\<lparr>stopping := True\<rparr>)"
| session_stopped: "ended s = None \<Longrightarrow> stopping s \<Longrightarrow>
    pool_step tag addr p s (s\<lparr>ended := Some SessionStopped\<rparr>)"
| session_rejected: "ended s = None \<Longrightarrow> rejection s \<noteq> None \<Longrightarrow>
    pool_step tag addr p s (s\<lparr>ended := Some (NeverUp (take_failure s))\<rparr>)"
| session_down: "ended s = None \<Longrightarrow> went_down (liveness s) \<Longrightarrow>
    pool_step tag addr p s (s\<lparr>ended := Some SessionLost\<rparr>)"
| session_parked: "ended s = None \<Longrightarrow> all_parked (liveness s) \<Longrightarrow>
    pool_step tag addr p s (s\<lparr>ended := Some (drained_outcome s)\<rparr>)"
| session_drained: "ended s = None \<Longrightarrow> \<forall>m \<in> set (members s). m = Ended \<Longrightarrow>
    pool_step tag addr p s (s\<lparr>ended := Some (drained_outcome s)\<rparr>)"

definition pool_init :: "nat \<Rightarrow> reconnect_policy \<Rightarrow> pool_session \<Rightarrow> bool" where
  "pool_init n p s \<longleftrightarrow> s = h2_pool_start n (base_backoff p)"

section \<open>Invariant\<close>

fun is_serving :: "member \<Rightarrow> bool" where
  "is_serving (Serving _) \<longleftrightarrow> True"
| "is_serving _ \<longleftrightarrow> False"

fun is_parked :: "member \<Rightarrow> bool" where
  "is_parked (Parked _) \<longleftrightarrow> True"
| "is_parked _ \<longleftrightarrow> False"

fun is_established :: "connection_event \<Rightarrow> bool" where
  "is_established (Established _ _ _) \<longleftrightarrow> True"
| "is_established _ \<longleftrightarrow> False"

definition tally_members :: "(member \<Rightarrow> bool) \<Rightarrow> pool_session \<Rightarrow> nat" where
  "tally_members P s = length (filter P (members s))"

text \<open>The counters are the members in each phase.\<close>

definition counts_ok :: "pool_session \<Rightarrow> bool" where
  "counts_ok s \<longleftrightarrow>
     live (liveness s) = tally_members is_serving s \<and>
     parked (liveness s) = tally_members is_parked s \<and>
     length (members s) = pool_size (liveness s)"

text \<open>A parked member that has not been woken is parked while nobody is up.\<close>

definition parks_ok :: "pool_session \<Rightarrow> bool" where
  "parks_ok s \<longleftrightarrow>
     (\<forall>v. Parked v \<in> set (members s) \<longrightarrow> v \<le> came_up (liveness s) \<and>
        (v = came_up (liveness s) \<longrightarrow> live (liveness s) = 0)) \<and>
     (0 < pool_size (liveness s) \<and> parked (liveness s) = pool_size (liveness s) \<longrightarrow>
        all_parked (liveness s))"

text \<open>The events report exactly the transitions of the pool.\<close>

definition events_ok :: "pool_session \<Rightarrow> bool" where
  "events_ok s \<longleftrightarrow>
     (ever_up (liveness s) \<longleftrightarrow> list_ex is_established (sent_events (liveness s))) \<and>
     (0 < live (liveness s) \<or> went_down (liveness s) \<longrightarrow> ever_up (liveness s)) \<and>
     (\<not> stopping s \<longrightarrow> well_ordered False (sent_events (liveness s)) \<and>
        (up_after False (sent_events (liveness s)) \<longleftrightarrow> 0 < live (liveness s)) \<and>
        Ended \<notin> set (members s))"

definition outcome_ok :: "pool_session \<Rightarrow> bool" where
  "outcome_ok s \<longleftrightarrow>
     (case ended s of
        Some (NeverUp f) \<Rightarrow> rejection s \<noteq> None \<or> \<not> ever_up (liveness s)
      | Some SessionLost \<Rightarrow> ever_up (liveness s)
      | _ \<Rightarrow> True)"

definition pool_inv :: "pool_session \<Rightarrow> bool" where
  "pool_inv s \<longleftrightarrow> counts_ok s \<and> parks_ok s \<and> events_ok s \<and> outcome_ok s"

lemmas pool_op_defs = finish_attempt_def end_serving_def try_park_def leave_park_def wait_or_end_def
  set_member_def record_failure_def pool_up_def pool_down_def park_def unpark_def

lemma filter_update:
  "i < length xs \<Longrightarrow>
   length (filter P (xs[i := x])) + (if P (xs ! i) then 1 else 0) =
   length (filter P xs) + (if P x then 1 else 0)"
proof (induction xs arbitrary: i)
  case (Cons a xs)
  then show ?case by (cases i) (auto split: if_splits)
qed simp

lemma count_update [simp]:
  assumes "i < length xs" and "xs ! i = m"
  shows "length (filter P (xs[i := x])) =
    length (filter P xs) + (if P x then 1 else 0) - (if P m then 1 else 0)"
  using filter_update [OF assms(1), of P x] assms(2) by (auto split: if_splits)

lemma count_pos: "i < length xs \<Longrightarrow> P (xs ! i) \<Longrightarrow> 0 < length (filter P xs)"
  by (metis filter_empty_conv length_greater_0_conv nth_mem)

lemma set_updateD: "m \<in> set (xs[i := x]) \<Longrightarrow> m = x \<or> m \<in> set xs"
  using set_update_subset_insert by fastforce

lemma counts_step:
  assumes "pool_step tag addr p s t" and "counts_ok s"
  shows "counts_ok t"
  using assms
proof (cases rule: pool_step.cases)
  case (attempt_ends i e r)
  with assms(2) show ?thesis
    by (cases r) (auto simp: counts_ok_def tally_members_def pool_op_defs Let_def)
next
  case (goes_down i cause)
  with assms(2) count_pos [of i "members s" is_serving] show ?thesis
    by (auto simp: counts_ok_def tally_members_def pool_op_defs Let_def)
next
  case (parks i)
  with assms(2) show ?thesis
    by (auto simp: counts_ok_def tally_members_def pool_op_defs Let_def)
next
  case (wakes i v)
  with assms(2) count_pos [of i "members s" is_parked] show ?thesis
    by (auto simp: counts_ok_def tally_members_def pool_op_defs Let_def)
next
  case (stops_parked i v)
  with assms(2) count_pos [of i "members s" is_parked] show ?thesis
    by (auto simp: counts_ok_def tally_members_def pool_op_defs Let_def)
qed (auto simp: counts_ok_def tally_members_def pool_op_defs)

lemma events_step:
  assumes "pool_step tag addr p s t" and "events_ok s" and "counts_ok s"
  shows "events_ok t"
  using assms
proof (cases rule: pool_step.cases)
  case (attempt_ends i e r)
  with assms(2) show ?thesis
    by (cases r) (auto simp: events_ok_def pool_op_defs Let_def well_ordered_append up_after_append
        dest: set_updateD)
next
  case (goes_down i cause)
  then have "0 < live (liveness s)"
    using assms(3) count_pos [of i "members s" is_serving] by (auto simp: counts_ok_def tally_members_def)
  with goes_down assms(2) show ?thesis
    by (auto simp: events_ok_def pool_op_defs Let_def well_ordered_append up_after_append
        dest: set_updateD)
next
  case (parks i)
  with assms(2) show ?thesis
    by (auto simp: events_ok_def pool_op_defs Let_def dest: set_updateD)
qed (use assms(2) in \<open>auto simp: events_ok_def pool_op_defs Let_def dest: set_updateD\<close>)

lemma outcome_step:
  assumes "pool_step tag addr p s t" and "outcome_ok s" and "events_ok s"
  shows "outcome_ok t"
  using assms(1)
proof (cases rule: pool_step.cases)
  case (attempt_ends i e r)
  then show ?thesis by (cases r) (auto simp: outcome_ok_def pool_op_defs Let_def)
qed (use assms(2,3) in \<open>auto simp: outcome_ok_def events_ok_def pool_op_defs Let_def drained_outcome_def
      split: option.splits session_outcome.splits\<close>)

lemma parks_step:
  assumes "pool_step tag addr p s t" and "parks_ok s" and "counts_ok s"
  shows "parks_ok t"
  using assms(1)
proof (cases rule: pool_step.cases)
  case (attempt_ends i e r)
  with assms(2) show ?thesis
    by (cases r) (force simp: parks_ok_def pool_op_defs Let_def dest: set_updateD)+
next
  case (goes_down i cause)
  with assms(2) show ?thesis
    by (force simp: parks_ok_def pool_op_defs Let_def dest: set_updateD)
next
  case (parks i)
  with assms(2) show ?thesis
    by (force simp: parks_ok_def pool_op_defs Let_def dest: set_updateD)
next
  case (wakes i v)
  then have "0 < parked (liveness s)" "parked (liveness s) \<le> pool_size (liveness s)"
    using assms(3) count_pos [of i "members s" is_parked]
    by (auto simp: counts_ok_def tally_members_def intro: order_trans [OF length_filter_le])
  with wakes assms(2) show ?thesis
    by (force simp: parks_ok_def pool_op_defs Let_def dest: set_updateD)
next
  case (stops_parked i v)
  then have "0 < parked (liveness s)" "parked (liveness s) \<le> pool_size (liveness s)"
    using assms(3) count_pos [of i "members s" is_parked]
    by (auto simp: counts_ok_def tally_members_def intro: order_trans [OF length_filter_le])
  with stops_parked assms(2) show ?thesis
    by (force simp: parks_ok_def pool_op_defs Let_def dest: set_updateD)
qed (use assms(2) in \<open>auto simp: parks_ok_def pool_op_defs dest: set_updateD\<close>)

interpretation pool: invariant_of "pool_init n p" "pool_step tag addr p" pool_inv for n p tag addr
proof unfold_locales
  show "pool_init n p s \<Longrightarrow> pool_inv s" for s
    by (auto simp: pool_init_def h2_pool_start_def PoolLiveness_new_def pool_inv_def counts_ok_def
        parks_ok_def events_ok_def outcome_ok_def tally_members_def)
  show "pool_inv s \<Longrightarrow> pool_step tag addr p s t \<Longrightarrow> pool_inv t" for s t
    by (auto simp: pool_inv_def intro: counts_step events_step outcome_step parks_step)
qed

abbreviation pool_reachable :: "nat \<Rightarrow> reconnect_policy \<Rightarrow> string \<Rightarrow> string \<Rightarrow> pool_session \<Rightarrow> bool" where
  "pool_reachable n p tag addr \<equiv> reachable (pool_init n p) (pool_step tag addr p)"

lemma pool_size_reachable: "pool_reachable n p tag addr s \<Longrightarrow> pool_size (liveness s) = n"
proof (induction rule: reachable.induct)
  case (reach_init s)
  then show ?case by (simp add: pool_init_def h2_pool_start_def PoolLiveness_new_def)
next
  case (reach_step s t)
  from reach_step.hyps(2) have "pool_size (liveness t) = pool_size (liveness s)"
    by cases (auto simp: pool_op_defs Let_def split: attempt_end.splits)
  with reach_step.IH show ?case by simp
qed

text \<open>
  C9. The pool reports itself as one connection: under every interleaving of its members, the
  counters are the members that serve and that are parked, they never exceed the pool's size, and
  until \<open>stop()\<close> is called the events alternate between established and lost, with the last one
  telling whether any member is up right now.
\<close>

theorem pool_reports_transitions:
  assumes "pool_reachable n p tag addr s"
  shows "live (liveness s) = tally_members is_serving s \<and> live (liveness s) \<le> n \<and>
    parked (liveness s) = tally_members is_parked s \<and> parked (liveness s) \<le> n \<and>
    (stopping s \<or> well_ordered False (sent_events (liveness s)) \<and>
       (up_after False (sent_events (liveness s)) \<longleftrightarrow> 0 < live (liveness s)))"
  using pool.inv_reachable [OF assms] pool_size_reachable [OF assms]
  by (auto simp: pool_inv_def counts_ok_def events_ok_def tally_members_def
      intro: order_trans [OF length_filter_le])

definition demo_member :: "attempt_failure + unit \<Rightarrow> (exchange_error + unit) fut \<Rightarrow> member_env" where
  "demo_member c x = \<lparr>connected = c, ctrl_exchange = x, ping_cause = None, tls_acceptor = Inr (),
     accepted = [], dropped = Some 9\<rparr>"

lemma demo_attempts:
  "member_attempt (demo_member (Inr ()) (Some (1, Inr ()))) = Some (Serves 0 (Some ''connection dropped''))"
  "member_attempt (demo_member (Inr ()) (Some (1, Inl (RelayRejected r)))) = Some (Rejected r)"
  "member_attempt (demo_member (Inl f) x) = Some (Failed f)"
  by (simp_all add: member_attempt_def demo_member_def race_exchange_def)

lemma pool_start_reachable: "pool_reachable n p tag addr (h2_pool_start n (base_backoff p))"
  by (simp add: reach_init pool_init_def)

text \<open>Two members: the first comes up, the second fails.\<close>

definition demo_up :: pool_session where
  "demo_up = finish_attempt ''PRI'' ''r:1'' 0 (Serves 0 (Some ''connection dropped'')) (h2_pool_start 2 (from_secs 2))"

lemma demo_up_reachable: "pool_reachable 2 ReconnectPolicy_default ''PRI'' ''r:1'' demo_up"
proof -
  have "pool_step ''PRI'' ''r:1'' ReconnectPolicy_default (h2_pool_start 2 (from_secs 2)) demo_up"
    unfolding demo_up_def
    by (rule attempt_ends [OF _ _ _ demo_attempts(1)]) (simp_all add: h2_pool_start_def)
  with pool_start_reachable [of 2 ReconnectPolicy_default "''PRI''" "''r:1''"] show ?thesis
    by (simp add: ReconnectPolicy_default_def reach_step)
qed

theorem pool_reports_transitions_witness:
  "live (liveness demo_up) = tally_members is_serving demo_up"
  using pool_reports_transitions [OF demo_up_reachable] by simp

text \<open>
  C10. The pool cannot hang: whenever every member is parked and none of them has a wake-up to take,
  the notification that ends the session is there. No wake-up is lost between a member that parks
  and a sibling that comes up.
\<close>

theorem pool_never_stuck:
  assumes "pool_reachable n p tag addr s" and "0 < n"
    and "\<forall>m \<in> set (members s). m = Parked (came_up (liveness s))"
  shows "all_parked (liveness s) \<and> live (liveness s) = 0"
proof -
  note inv = pool.inv_reachable [OF assms(1)] and n = pool_size_reachable [OF assms(1)]
  have "filter is_parked (members s) = members s" "filter is_serving (members s) = []"
    using assms(3) by (auto simp: filter_id_conv filter_empty_conv)
  with inv n assms(2) show ?thesis
    by (simp add: pool_inv_def counts_ok_def tally_members_def parks_ok_def)
qed

definition demo_parked :: pool_session where
  "demo_parked = try_park ReconnectPolicy_default 0
     (finish_attempt ''PRI'' ''r:1'' 0 (Failed (AttemptFailure_new ''x'')) (h2_pool_start 1 (from_secs 2)))"

lemma demo_parked_reachable: "pool_reachable 1 ReconnectPolicy_default ''PRI'' ''r:1'' demo_parked"
proof -
  let ?s = "finish_attempt ''PRI'' ''r:1'' 0 (Failed (AttemptFailure_new ''x'')) (h2_pool_start 1 (from_secs 2))"
  have "pool_step ''PRI'' ''r:1'' ReconnectPolicy_default (h2_pool_start 1 (from_secs 2)) ?s"
    by (rule attempt_ends [OF _ _ _ demo_attempts(3)]) (simp_all add: h2_pool_start_def)
  moreover have "pool_step ''PRI'' ''r:1'' ReconnectPolicy_default ?s demo_parked"
    unfolding demo_parked_def
    by (rule parks) (simp_all add: h2_pool_start_def pool_op_defs)
  ultimately show ?thesis
    using pool_start_reachable [of 1 ReconnectPolicy_default "''PRI''" "''r:1''"]
    by (auto simp: ReconnectPolicy_default_def intro: reach_step)
qed

theorem pool_never_stuck_witness: "all_parked (liveness demo_parked)"
  using pool_never_stuck [OF demo_parked_reachable]
  by (simp add: demo_parked_def pool_op_defs h2_pool_start_def PoolLiveness_new_def)

text \<open>
  C23. The outcome of a pool session is true to what happened: it ends as lost only if it was
  established, and as never up only if it never was, except when the relay rejected a member.
\<close>

theorem pool_outcome_faithful:
  assumes "pool_reachable n p tag addr s"
  shows "(ended s = Some SessionLost \<longrightarrow> list_ex is_established (sent_events (liveness s))) \<and>
    (\<forall>f. ended s = Some (NeverUp f) \<and> rejection s = None \<longrightarrow>
       \<not> list_ex is_established (sent_events (liveness s)))"
  using pool.inv_reachable [OF assms]
  by (auto simp: pool_inv_def events_ok_def outcome_ok_def)

theorem pool_outcome_faithful_witness:
  "\<not> list_ex is_established (sent_events (liveness
      (demo_parked\<lparr>ended := Some (drained_outcome demo_parked)\<rparr>)))"
proof -
  let ?s = "demo_parked\<lparr>ended := Some (drained_outcome demo_parked)\<rparr>"
  have d: "ended demo_parked = None" "all_parked (liveness demo_parked)" "rejection demo_parked = None"
    "\<not> ever_up (liveness demo_parked)"
    by (simp_all add: demo_parked_def pool_op_defs h2_pool_start_def PoolLiveness_new_def)
  then have "pool_reachable 1 ReconnectPolicy_default ''PRI'' ''r:1'' ?s"
    by (intro reach_step [OF demo_parked_reachable] session_parked)
  from pool_outcome_faithful [OF this] d show ?thesis by (simp add: drained_outcome_def)
qed

text \<open>
  What the reconnect loop relies on: a session that ends with no member up is one whose events are
  in order and end down.
\<close>

lemma pool_session_in_order:
  assumes "pool_reachable n p tag addr s" and "\<not> stopping s" and "live (liveness s) = 0"
    and "h2_events e = sent_events (liveness s)"
  shows "pool_in_order e"
  using pool.inv_reachable [OF assms(1)] assms(2-4)
  by (auto simp: pool_inv_def events_ok_def pool_in_order_def)

text \<open>
  The session can also end while a member is up, and nothing reports that the pool then goes down
  with it: a rejection of one member ends the session of its siblings, and a member that comes up
  between the last one's end and the session loop's turn is dropped.
\<close>

definition demo_rejected :: pool_session where
  "demo_rejected = finish_attempt ''PRI'' ''r:1'' 1 (Rejected ''txt'') demo_up"

definition demo_raced :: pool_session where
  "demo_raced = finish_attempt ''PRI'' ''r:1'' 1 (Serves 0 (Some ''connection dropped''))
     (end_serving ''PRI'' ''r:1'' ReconnectPolicy_default 0 ''connection dropped'' demo_up)"

lemma demo_up_members [simp]:
  "ended demo_up = None" "members demo_up = [Serving (Some ''connection dropped''), Attempting]"
  by (simp_all add: demo_up_def pool_op_defs h2_pool_start_def numeral_2_eq_2)

lemma demo_rejected_reachable: "pool_reachable 2 ReconnectPolicy_default ''PRI'' ''r:1'' demo_rejected"
  unfolding demo_rejected_def
  by (intro reach_step [OF demo_up_reachable] attempt_ends [OF _ _ _ demo_attempts(2)]) simp_all

lemma demo_raced_reachable: "pool_reachable 2 ReconnectPolicy_default ''PRI'' ''r:1'' demo_raced"
proof -
  let ?s = "end_serving ''PRI'' ''r:1'' ReconnectPolicy_default 0 ''connection dropped'' demo_up"
  have "pool_reachable 2 ReconnectPolicy_default ''PRI'' ''r:1'' ?s"
    by (intro reach_step [OF demo_up_reachable] goes_down) simp_all
  moreover have "ended ?s = None" "1 < length (members ?s)" "members ?s ! 1 = Attempting"
    by (simp_all add: pool_op_defs Let_def)
  ultimately show ?thesis
    unfolding demo_raced_def
    by - (rule reach_step, assumption, rule attempt_ends [OF _ _ _ demo_attempts(1)])
qed

theorem pool_loss_unreported:
  "\<exists>s. pool_reachable 2 ReconnectPolicy_default ''PRI'' ''r:1'' s \<and> \<not> stopping s \<and>
     (\<exists>f. ended s = Some (NeverUp f)) \<and> up_after False (sent_events (liveness s))"
  "\<exists>s. pool_reachable 2 ReconnectPolicy_default ''PRI'' ''r:1'' s \<and> \<not> stopping s \<and>
     ended s = Some SessionLost \<and> up_after False (sent_events (liveness s))"
proof -
  have d: "ended demo_rejected = None" "rejection demo_rejected \<noteq> None" "\<not> stopping demo_rejected"
    "up_after False (sent_events (liveness demo_rejected))"
    by (simp_all add: demo_rejected_def demo_up_def pool_op_defs h2_pool_start_def PoolLiveness_new_def
        Let_def)
  then have "pool_reachable 2 ReconnectPolicy_default ''PRI'' ''r:1''
      (demo_rejected\<lparr>ended := Some (NeverUp (take_failure demo_rejected))\<rparr>)"
    by (intro reach_step [OF demo_rejected_reachable] session_rejected)
  with d show "\<exists>s. pool_reachable 2 ReconnectPolicy_default ''PRI'' ''r:1'' s \<and> \<not> stopping s \<and>
     (\<exists>f. ended s = Some (NeverUp f)) \<and> up_after False (sent_events (liveness s))"
    by (intro exI conjI) (assumption | simp)+
  have r: "ended demo_raced = None" "went_down (liveness demo_raced)" "\<not> stopping demo_raced"
    "up_after False (sent_events (liveness demo_raced))"
    by (simp_all add: demo_raced_def demo_up_def pool_op_defs h2_pool_start_def PoolLiveness_new_def
        Let_def)
  then have "pool_reachable 2 ReconnectPolicy_default ''PRI'' ''r:1''
      (demo_raced\<lparr>ended := Some SessionLost\<rparr>)"
    by (intro reach_step [OF demo_raced_reachable] session_down)
  with r show "\<exists>s. pool_reachable 2 ReconnectPolicy_default ''PRI'' ''r:1'' s \<and> \<not> stopping s \<and>
     ended s = Some SessionLost \<and> up_after False (sent_events (liveness s))"
    by (intro exI conjI) (assumption | simp)+
qed

end
