(* ===== verification/Acme_Order.thy ===== *)
theory Acme_Order
  imports Async_Task
begin

text \<open>
  Driving an ACME order to a certificate (\<^verbatim>\<open>tunnel-common/src/acme.rs\<close>), shared by the client and the
  relay. The order is an object of the ACME library: what each of its calls answers, and when, is
  the record \<open>acme_order\<close>; the calls that change something at the CA are effects of the task.
\<close>

section \<open>Orders\<close>

datatype order_status = Pending | Ready | Processing | Valid | Invalid

datatype order_error =
    AcmeCall string
  | OrderInvalid string string
  | NeverReady string nat
  | NotIssued string duration
  | NoTlsAlpnChallenge string

text \<open>
  One authorization: whether it is valid already, the problems of its challenges, and its
  TLS-ALPN-01 challenge (key authorization and URL), if it offers one.
\<close>

record authz =
  authz_valid :: bool
  challenge_errors :: "string option list"
  tls_alpn :: "(string \<times> string) option"

type_synonym authorizations = "(order_error + authz) list"

record acme_order =
  refresh :: "nat \<Rightarrow> (order_error + order_status) fut"
  authorizations_of :: authorizations
  order_problem :: "string option"
  set_ready :: "(order_error + unit) fut"
  finalize_csr :: "(order_error + unit) fut"
  certificate :: "nat \<Rightarrow> (order_error + string option) fut"

datatype acme_event = SetReady string | FinalizeCsr "byte list"

definition ORDER_READY_ROUNDS :: nat where
  "ORDER_READY_ROUNDS = 12"

definition CERT_POLL_ROUNDS :: nat where
  "CERT_POLL_ROUNDS = 30"

definition CERT_POLL_INTERVAL :: duration where
  "CERT_POLL_INTERVAL = from_secs 2"

section \<open>Operations\<close>

definition first_problem :: "string option list \<Rightarrow> string option" where
  "first_problem cs = (case filter (\<lambda>c. c \<noteq> None) cs of [] \<Rightarrow> None | c # _ \<Rightarrow> c)"

fun invalid_reason_from :: "authorizations \<Rightarrow> string option \<Rightarrow> string" where
  "invalid_reason_from (Inr a # as) p =
     (case first_problem (challenge_errors a) of
        Some problem \<Rightarrow> problem
      | None \<Rightarrow> invalid_reason_from as p)"
| "invalid_reason_from _ p = (case p of Some problem \<Rightarrow> problem | None \<Rightarrow> ''no reason given'')"

definition invalid_reason :: "acme_order \<Rightarrow> string" where
  "invalid_reason ord = invalid_reason_from (authorizations_of ord) (order_problem ord)"

text \<open>The readiness poll: \<open>n\<close> rounds are left, the next one is the \<open>i\<close>-th.\<close>

fun poll_ready :: "acme_order \<Rightarrow> string \<Rightarrow> nat \<Rightarrow> nat \<Rightarrow> duration \<Rightarrow> (acme_event, order_error + bool) task" where
  "poll_ready ord domain 0 i delay = tret (Inr False)"
| "poll_ready ord domain (Suc n) i delay =
     tthen (sleep delay) (terr (await (refresh ord i)) (\<lambda>status.
       if status = Ready \<or> status = Valid then tret (Inr True)
       else if status = Invalid then tret (Inl (OrderInvalid domain (invalid_reason ord)))
       else poll_ready ord domain n (Suc i) (min (saturating_mul delay 2) (from_secs 15))))"

fun poll_certificate :: "acme_order \<Rightarrow> string \<Rightarrow> nat \<Rightarrow> nat \<Rightarrow> (acme_event, order_error + string) task" where
  "poll_certificate ord domain 0 i =
     tret (Inl (NotIssued domain (CERT_POLL_INTERVAL * CERT_POLL_ROUNDS)))"
| "poll_certificate ord domain (Suc n) i =
     tthen (sleep CERT_POLL_INTERVAL) (terr (await (certificate ord i)) (\<lambda>pem.
       case pem of
         Some p \<Rightarrow> tret (Inr p)
       | None \<Rightarrow> poll_certificate ord domain n (Suc i)))"

definition finalize_order :: "acme_order \<Rightarrow> string \<Rightarrow> byte list \<Rightarrow> (acme_event, order_error + string) task" where
  "finalize_order ord domain csr_der =
     terr (poll_ready ord domain ORDER_READY_ROUNDS 0 (from_secs 2)) (\<lambda>is_ready.
       if \<not> is_ready then tret (Inl (NeverReady domain ORDER_READY_ROUNDS))
       else
         tthen (emit (FinalizeCsr csr_der)) (terr (await (finalize_csr ord)) (\<lambda>_.
           poll_certificate ord domain CERT_POLL_ROUNDS 0)))"

section \<open>Time\<close>

text \<open>Every call to the CA answers within \<open>L\<close>.\<close>

definition answers_within :: "duration \<Rightarrow> 'a fut \<Rightarrow> bool" where
  "answers_within L f \<longleftrightarrow> (case f of Some (t, _) \<Rightarrow> t \<le> L | None \<Rightarrow> False)"

definition ca_answers :: "duration \<Rightarrow> acme_order \<Rightarrow> bool" where
  "ca_answers L ord \<longleftrightarrow> (\<forall>i. answers_within L (refresh ord i)) \<and> answers_within L (finalize_csr ord) \<and>
     (\<forall>i. answers_within L (certificate ord i)) \<and> answers_within L (set_ready ord)"

lemma finish_await: "answers_within L f \<Longrightarrow> \<exists>t \<le> L. finish (await f :: ('e, 'a) task) = Some t"
  by (auto simp: answers_within_def finish_def split: option.splits)

fun ready_sleep :: "nat \<Rightarrow> duration \<Rightarrow> duration" where
  "ready_sleep 0 d = 0"
| "ready_sleep (Suc n) d = d + ready_sleep n (min (saturating_mul d 2) (from_secs 15))"

lemma poll_ready_bounded:
  assumes "ca_answers L ord"
  shows "\<exists>t \<le> ready_sleep n d + n * L. finish (poll_ready ord domain n i d) = Some t"
proof (induction n arbitrary: i d)
  case (Suc n)
  let ?d = "min (saturating_mul d 2) (from_secs 15)"
  have "\<exists>t \<le> L + (ready_sleep n ?d + n * L).
      finish (terr (await (refresh ord i)) (\<lambda>status.
        if status = Ready \<or> status = Valid then tret (Inr True)
        else if status = Invalid then tret (Inl (OrderInvalid domain (invalid_reason ord)))
        else poll_ready ord domain n (Suc i) ?d)) = Some t"
    using assms Suc.IH by (intro finish_le_terr finish_await) (auto simp: ca_answers_def)
  from finish_le_sleep [OF this, of d] show ?case by (simp add: add.assoc add.left_commute)
qed simp

lemma poll_certificate_bounded:
  assumes "ca_answers L ord"
  shows "\<exists>t \<le> n * CERT_POLL_INTERVAL + n * L. finish (poll_certificate ord domain n i) = Some t"
proof (induction n arbitrary: i)
  case (Suc n)
  have "\<exists>t \<le> L + (n * CERT_POLL_INTERVAL + n * L).
      finish (terr (await (certificate ord i)) (\<lambda>pem. case pem of Some p \<Rightarrow> tret (Inr p)
        | None \<Rightarrow> poll_certificate ord domain n (Suc i))) = Some t"
    using assms Suc.IH by (intro finish_le_terr finish_await) (auto simp: ca_answers_def split: option.split)
  from finish_le_sleep [OF this, of CERT_POLL_INTERVAL] show ?case by (simp add: add.assoc add.left_commute)
qed simp

lemma ready_sleep_numeral:
  "ready_sleep (numeral v) d = d + ready_sleep (pred_numeral v) (min (saturating_mul d 2) (from_secs 15))"
  by (simp add: numeral_eq_Suc)

lemma ready_delay: "2 * n \<le> 2 ^ 60 \<Longrightarrow> min (saturating_mul (from_secs n) 2) (from_secs 15) = from_secs (min (2 * n) 15)"
  by (auto simp: saturating_mul_def DURATION_MAX_def from_secs_def min_def)

lemma ready_sleep_total: "ready_sleep ORDER_READY_ROUNDS (from_secs 2) = from_secs 149"
  by (simp add: ORDER_READY_ROUNDS_def ready_sleep_numeral ready_delay)
     (simp add: from_secs_def)


definition demo_order :: acme_order where
  "demo_order = \<lparr>refresh = (\<lambda>i. Some (1, Inr Ready)),
     authorizations_of = [Inr \<lparr>authz_valid = False, challenge_errors = [], tls_alpn = Some (''ka'', ''u'')\<rparr>],
     order_problem = None, set_ready = Some (1, Inr ()), finalize_csr = Some (1, Inr ()),
     certificate = (\<lambda>i. Some (1, Inr (Some ''pem'')))\<rparr>"


section \<open>What the CA is asked\<close>

definition reported :: "'a fut \<Rightarrow> 'a \<Rightarrow> bool" where
  "reported f a \<longleftrightarrow> map_option snd f = Some a"

definition becomes_ready :: "acme_order \<Rightarrow> nat \<Rightarrow> bool" where
  "becomes_ready ord i \<longleftrightarrow> (\<exists>s \<in> {Ready, Valid}. reported (refresh ord i) (Inr s)) \<and>
     (\<forall>j < i. \<exists>s \<in> {Pending, Processing}. reported (refresh ord j) (Inr s))"

lemma happens_terr_await [simp]:
  "happens (terr (await f) k) e \<longleftrightarrow> (\<exists>a. reported f (Inr a) \<and> happens (k a) e)"
  by (simp add: happens_terr reported_def)

lemma result_terr_await:
  "result (terr (await f) k) = Some (Inr b) \<longleftrightarrow> (\<exists>a. reported f (Inr a) \<and> result (k a) = Some (Inr b))"
  by (simp add: result_terr reported_def)

lemma poll_ready_silent: "\<not> happens (poll_ready ord domain n i d) e"
  by (induction n arbitrary: i d) auto

lemma poll_certificate_silent: "\<not> happens (poll_certificate ord domain n i) e"
  by (induction n arbitrary: i) (auto split: option.splits)

lemma poll_ready_True:
  assumes "result (poll_ready ord domain n i d) = Some (Inr True)"
    and "\<forall>j < i. \<exists>s \<in> {Pending, Processing}. reported (refresh ord j) (Inr s)"
  shows "\<exists>k < i + n. becomes_ready ord k"
  using assms
proof (induction n arbitrary: i d)
  case (Suc n)
  from Suc.prems(1) obtain s where s: "reported (refresh ord i) (Inr s)"
    and r: "result (if s = Ready \<or> s = Valid then tret (Inr True)
        else if s = Invalid then tret (Inl (OrderInvalid domain (invalid_reason ord)))
        else poll_ready ord domain n (Suc i) (min (saturating_mul d 2) (from_secs 15))) = Some (Inr True)"
    by (auto simp: result_terr_await)
  show ?case
  proof (cases "s = Ready \<or> s = Valid")
    case True
    with s Suc.prems(2) have "becomes_ready ord i" by (auto simp: becomes_ready_def)
    then show ?thesis by (auto intro: exI [of _ i])
  next
    case False
    with r have "result (poll_ready ord domain n (Suc i) (min (saturating_mul d 2) (from_secs 15))) =
        Some (Inr True)" and "s \<in> {Pending, Processing}"
      by (cases s; simp)+
    moreover from this s Suc.prems(2)
    have "\<forall>j < Suc i. \<exists>s \<in> {Pending, Processing}. reported (refresh ord j) (Inr s)"
      by (metis less_Suc_eq)
    ultimately have "\<exists>k < Suc i + n. becomes_ready ord k" by (intro Suc.IH)
    then show ?thesis by simp
  qed
qed simp

lemma poll_certificate_issued:
  "result (poll_certificate ord domain n i) = Some (Inr pem) \<Longrightarrow>
   \<exists>k < i + n. reported (certificate ord k) (Inr (Some pem))"
proof (induction n arbitrary: i)
  case (Suc n)
  then obtain p where "reported (certificate ord i) (Inr p)"
    and "result (case p of Some p \<Rightarrow> tret (Inr p) | None \<Rightarrow> poll_certificate ord domain n (Suc i)) =
      Some (Inr pem)"
    by (auto simp: result_terr_await)
  with Suc.IH [of "Suc i"] show ?case by (cases p) (auto intro: exI [of _ i])
qed simp

text \<open>
  A certificate is finalised only for an order the CA has declared ready within the twelve polls,
  after nothing but pending and processing; and what is returned is a certificate the CA issued
  after that, within the thirty polls.
\<close>

theorem finalize_order_sound:
  "(happens (finalize_order ord domain csr) ev \<longrightarrow>
      ev = FinalizeCsr csr \<and> (\<exists>i < ORDER_READY_ROUNDS. becomes_ready ord i)) \<and>
   (result (finalize_order ord domain csr) = Some (Inr pem) \<longrightarrow>
      happens (finalize_order ord domain csr) (FinalizeCsr csr) \<and>
      (\<exists>i < CERT_POLL_ROUNDS. reported (certificate ord i) (Inr (Some pem))))"
proof -
  let ?m = "poll_ready ord domain ORDER_READY_ROUNDS 0 (from_secs 2)"
  have h: "happens (finalize_order ord domain csr) ev \<longleftrightarrow> result ?m = Some (Inr True) \<and> ev = FinalizeCsr csr" for ev
    unfolding finalize_order_def happens_terr [of ?m]
    by (auto simp: poll_ready_silent poll_certificate_silent split: if_splits)
  have r: "result ?m = Some (Inr True) \<and> (\<exists>i < 0 + CERT_POLL_ROUNDS. reported (certificate ord i) (Inr (Some pem)))"
    if f: "result (finalize_order ord domain csr) = Some (Inr pem)"
  proof -
    from f obtain b where b: "result ?m = Some (Inr b)"
      and k: "result (if \<not> b then tret (Inl (NeverReady domain ORDER_READY_ROUNDS))
        else tthen (emit (FinalizeCsr csr)) (terr (await (finalize_csr ord)) (\<lambda>_.
          poll_certificate ord domain CERT_POLL_ROUNDS 0))) = Some (Inr pem)"
      unfolding finalize_order_def result_terr by blast
    from k have "b" "result (poll_certificate ord domain CERT_POLL_ROUNDS 0) = Some (Inr pem)"
      by (auto simp: result_terr split: if_splits)
    with b poll_certificate_issued [of ord domain CERT_POLL_ROUNDS 0 pem] show ?thesis by simp
  qed
  show ?thesis using h r poll_ready_True [of ord domain ORDER_READY_ROUNDS 0] by auto
qed

lemma poll_ready_now:
  "0 < n \<Longrightarrow> reported (refresh ord i) (Inr Ready) \<Longrightarrow>
   result (poll_ready ord domain n i d) = Some (Inr True)"
  by (cases n) (auto simp: result_terr_await)

lemma poll_certificate_now:
  "0 < n \<Longrightarrow> reported (certificate ord i) (Inr (Some pem)) \<Longrightarrow>
   result (poll_certificate ord domain n i) = Some (Inr pem)"
  by (cases n) (auto simp: result_terr_await)

lemma demo_order_finalizes: "result (finalize_order demo_order domain csr) = Some (Inr ''pem'')"
proof -
  have "result (poll_ready demo_order domain ORDER_READY_ROUNDS 0 (from_secs 2)) = Some (Inr True)"
    by (rule poll_ready_now) (simp_all add: ORDER_READY_ROUNDS_def demo_order_def reported_def)
  moreover have "result (poll_certificate demo_order domain CERT_POLL_ROUNDS 0) = Some (Inr ''pem'')"
    by (rule poll_certificate_now) (simp_all add: CERT_POLL_ROUNDS_def demo_order_def reported_def)
  moreover have "result (await (finalize_csr demo_order) :: (acme_event, _) task) = Some (Inr ())"
    by (simp add: demo_order_def)
  ultimately show ?thesis
    unfolding finalize_order_def result_terr by (intro exI [of _ True]) (simp add: result_terr)
qed

theorem finalize_order_sound_witness:
  "\<exists>i < CERT_POLL_ROUNDS. reported (certificate demo_order i) (Inr (Some ''pem''))"
  using finalize_order_sound [of demo_order "''d''" "[1]" undefined "''pem''"]
    demo_order_finalizes [of "''d''" "[1]"] by blast

end
