(* ===== verification/Cert_Provisioner.thy ===== *)
theory Cert_Provisioner
  imports Acme_Order "HOL-Library.Signed_Division"
begin

text \<open>
  The client's certificate provisioner (\<^verbatim>\<open>tunnel-client/src/acme.rs\<close>): the cache of issued
  certificates, the checks on a seeded one, and the leader/follower protocol by which concurrent
  connections share one ACME order per domain. Every critical section of \<open>prepare\<close> and \<open>finalize\<close>
  is one definition; \<open>Cert_Sharing\<close> interleaves them. The PEM and X.509 parsers and the P-256
  library are fields of \<open>cert_libs\<close>.
\<close>

section \<open>Certificates\<close>

record leaf =
  not_before :: int
  not_after :: int
  dns_names :: "string list"
  spki :: "byte list"

record cert_libs =
  first_cert :: "string \<Rightarrow> byte list option"
  parse_leaf :: "byte list \<Rightarrow> leaf option"
  sec1_point :: "byte list \<Rightarrow> (nat \<times> nat) option"

datatype leaf_error = NoCertificate | Unparseable

definition leaf_of :: "cert_libs \<Rightarrow> string \<Rightarrow> leaf_error + leaf" where
  "leaf_of l pem =
     (case first_cert l pem of
        None \<Rightarrow> Inl NoCertificate
      | Some der \<Rightarrow> (case parse_leaf l der of None \<Rightarrow> Inl Unparseable | Some c \<Rightarrow> Inr c))"

text \<open>Seconds since the epoch; the division truncates towards zero.\<close>

definition due :: "leaf \<Rightarrow> int" where
  "due c = not_after c - (not_after c - not_before c) sdiv 3"

text \<open>The clocks: the wall clock in seconds and the monotonic one.\<close>

definition renew_at :: "cert_libs \<Rightarrow> int \<Rightarrow> instant \<Rightarrow> string \<Rightarrow> leaf_error + instant" where
  "renew_at l wall now pem =
     (case leaf_of l pem of
        Inl e \<Rightarrow> Inl e
      | Inr c \<Rightarrow> Inr (now + from_secs (nat (max (due c - wall) 0))))"

definition DEFAULT_RENEW_AFTER :: duration where
  "DEFAULT_RENEW_AFTER = from_secs (60 * 24 * 3600)"

definition ascii_lower :: "char \<Rightarrow> char" where
  "ascii_lower c = (let n = of_char c :: nat in if 65 \<le> n \<and> n \<le> 90 then char_of (n + 32) else c)"

definition eq_ignore_ascii_case :: "string \<Rightarrow> string \<Rightarrow> bool" where
  "eq_ignore_ascii_case s t \<longleftrightarrow> map ascii_lower s = map ascii_lower t"

definition same_public_key :: "cert_libs \<Rightarrow> byte list \<Rightarrow> byte list \<Rightarrow> bool" where
  "same_public_key l a b \<longleftrightarrow>
     (case (sec1_point l a, sec1_point l b) of
        (Some p, Some q) \<Rightarrow> p = q
      | _ \<Rightarrow> a = b)"

datatype seed_problem = SeedLeaf leaf_error | NotNamed string | DifferentKey | DueForRenewal

definition seed_mismatch :: "cert_libs \<Rightarrow> string \<Rightarrow> byte list \<Rightarrow> string \<Rightarrow> seed_problem option" where
  "seed_mismatch l domain public_key pem =
     (case leaf_of l pem of
        Inl e \<Rightarrow> Some (SeedLeaf e)
      | Inr c \<Rightarrow>
          if \<not> list_ex (\<lambda>d. eq_ignore_ascii_case d domain) (dns_names c) then Some (NotNamed domain)
          else if \<not> same_public_key l (spki c) public_key then Some DifferentKey
          else None)"

section \<open>Rate limits\<close>

text \<open>The error chain: problems of the CA (type and detail) among other errors.\<close>

datatype cause = ApiProblem "string option" "string option" | OtherCause

definition RATE_LIMITED :: string where
  "RATE_LIMITED = ''urn:ietf:params:acme:error:rateLimited''"

fun split_after :: "string \<Rightarrow> string \<Rightarrow> string option" where
  "split_after pat s =
     (if take (length pat) s = pat then Some (drop (length pat) s)
      else (case s of [] \<Rightarrow> None | _ # s' \<Rightarrow> split_after pat s'))"

text \<open>\<open>s.get(..n)\<close>: none past the end or inside a character.\<close>

definition str_get_to :: "nat \<Rightarrow> string \<Rightarrow> string option" where
  "str_get_to n s =
     (if length s < n then None
      else if n < length s \<and> utf8_cont (of_nat (of_char (s ! n))) then None
      else Some (take n s))"

definition retry_after_in :: "(string \<Rightarrow> nat option) \<Rightarrow> string \<Rightarrow> nat option" where
  "retry_after_in parse_utc detail =
     Option.bind (split_after ''retry after '' detail) (\<lambda>rest.
       Option.bind (str_get_to 23 rest) parse_utc)"

fun first_api :: "cause list \<Rightarrow> (string option \<times> string option) option" where
  "first_api [] = None"
| "first_api (ApiProblem t d # cs) = Some (t, d)"
| "first_api (OtherCause # cs) = first_api cs"

definition rate_limited_until :: "(string \<Rightarrow> nat option) \<Rightarrow> cause list \<Rightarrow> nat option" where
  "rate_limited_until parse_utc err =
     (case first_api err of
        None \<Rightarrow> None
      | Some (typ, detail) \<Rightarrow>
          if typ \<noteq> Some RATE_LIMITED then None
          else Option.bind detail (retry_after_in parse_utc))"

section \<open>The provisioner\<close>

record cache_entry =
  cert_pem :: string
  renewal :: instant

text \<open>
  The two watch channels of an order: the published key authorization and certificate, and whether
  their senders are still there.
\<close>

record order_chans =
  key_auth :: "string option"
  key_auth_tx :: bool
  issued_pem :: "string option"
  cert_tx :: bool

record provisioner =
  cache :: "string \<rightharpoonup> cache_entry"
  in_flight :: "string \<rightharpoonup> nat"
  chans :: "order_chans list"

definition CertProvisioner_new :: provisioner where
  "CertProvisioner_new = \<lparr>cache = Map.empty, in_flight = Map.empty, chans = []\<rparr>"

definition new_chans :: order_chans where
  "new_chans = \<lparr>key_auth = None, key_auth_tx = True, issued_pem = None, cert_tx = True\<rparr>"

text \<open>The monotonic clock is read twice: in \<open>renew_at\<close>, and later for the comparison.\<close>

definition seed :: "cert_libs \<Rightarrow> int \<Rightarrow> instant \<Rightarrow> instant \<Rightarrow> string \<Rightarrow> byte list \<Rightarrow> string \<Rightarrow> provisioner \<Rightarrow>
    provisioner \<times> seed_problem option" where
  "seed l wall now later domain public_key pem p =
     (case seed_mismatch l domain public_key pem of
        Some why \<Rightarrow> (p, Some why)
      | None \<Rightarrow>
          (case renew_at l wall now pem of
             Inl e \<Rightarrow> (p, Some (SeedLeaf e))
           | Inr t \<Rightarrow>
               if later < t
               then (p\<lparr>cache := (cache p)(domain \<mapsto> \<lparr>cert_pem = pem, renewal = t\<rparr>)\<rparr>, None)
               else (p, Some DueForRenewal)))"

section \<open>Preparing an order\<close>

text \<open>What the leader holds: the key authorization, the challenge's URL and the order's channels.\<close>

datatype prepare_result =
    Cached string
  | LeaderChallenge string string nat
  | FollowerChallenge string nat

text \<open>
  Where a caller is: in \<open>prepare\<close> up to its result, and for the leader in \<open>finalize\<close> up to its end.
  \<open>DropEntry\<close> is the point before a stale entry is removed.
\<close>

datatype phase =
    LookUp
  | Probe
  | Found nat
  | AwaitKey nat
  | DropEntry
  | Claim
  | SetUp nat
  | Prepared prepare_result
  | PrepareFailed order_error
  | Finalizing nat string
  | Stored nat string
  | Cleanup nat "order_error + string"
  | Finalized "order_error + string"
  | Cancelled

definition look_up :: "instant \<Rightarrow> string \<Rightarrow> provisioner \<Rightarrow> phase" where
  "look_up now domain p =
     (case cache p domain of
        Some e \<Rightarrow> if now < renewal e then Prepared (Cached (cert_pem e)) else Probe
      | None \<Rightarrow> Probe)"

definition probe :: "string \<Rightarrow> provisioner \<Rightarrow> phase" where
  "probe domain p = (case in_flight p domain of Some i \<Rightarrow> Found i | None \<Rightarrow> Claim)"

definition join :: "nat \<Rightarrow> provisioner \<Rightarrow> phase" where
  "join i p =
     (if \<not> cert_tx (chans p ! i) then DropEntry
      else (case key_auth (chans p ! i) of
          Some k \<Rightarrow> Prepared (FollowerChallenge k i)
        | None \<Rightarrow> AwaitKey i))"

text \<open>\<open>changed().await\<close>: a value, the end of a sender that published none, or still pending.\<close>

definition key_changed :: "nat \<Rightarrow> provisioner \<Rightarrow> phase option" where
  "key_changed i p =
     (case key_auth (chans p ! i) of
        Some k \<Rightarrow> Some (Prepared (FollowerChallenge k i))
      | None \<Rightarrow> if key_auth_tx (chans p ! i) then None else Some DropEntry)"

definition drop_entry :: "string \<Rightarrow> provisioner \<Rightarrow> provisioner" where
  "drop_entry domain p = p\<lparr>in_flight := (in_flight p)(domain := None)\<rparr>"

definition claim :: "string \<Rightarrow> provisioner \<Rightarrow> provisioner \<times> phase" where
  "claim domain p =
     (if in_flight p domain \<noteq> None then (p, LookUp)
      else
        (p\<lparr>in_flight := (in_flight p)(domain \<mapsto> length (chans p)), chans := chans p @ [new_chans]\<rparr>,
         SetUp (length (chans p))))"

text \<open>The challenge of an order: the last authorization that is not valid yet decides.\<close>

fun find_challenge :: "string \<Rightarrow> authorizations \<Rightarrow> string \<times> string \<Rightarrow> order_error + (string \<times> string)" where
  "find_challenge domain [] found = Inr found"
| "find_challenge domain (Inl e # as) found = Inl e"
| "find_challenge domain (Inr a # as) found =
     (if authz_valid a then find_challenge domain as found
      else (case tls_alpn a of
          None \<Rightarrow> Inl (NoTlsAlpnChallenge domain)
        | Some c \<Rightarrow> find_challenge domain as c))"

text \<open>The set-up, given what the CA answered to \<open>account\<close> and \<open>new_order\<close>.\<close>

definition set_up :: "string \<Rightarrow> order_error + acme_order \<Rightarrow> order_error + (string \<times> string)" where
  "set_up domain placed =
     (case placed of
        Inl e \<Rightarrow> Inl e
      | Inr ord \<Rightarrow> find_challenge domain (authorizations_of ord) ('''', ''''))"

definition set_chans :: "nat \<Rightarrow> (order_chans \<Rightarrow> order_chans) \<Rightarrow> provisioner \<Rightarrow> provisioner" where
  "set_chans i f p = p\<lparr>chans := (chans p)[i := f (chans p ! i)]\<rparr>"

definition drop_senders :: "nat \<Rightarrow> provisioner \<Rightarrow> provisioner" where
  "drop_senders i = set_chans i (\<lambda>c. c\<lparr>key_auth_tx := False, cert_tx := False\<rparr>)"

definition end_set_up :: "string \<Rightarrow> nat \<Rightarrow> order_error + (string \<times> string) \<Rightarrow> provisioner \<Rightarrow> provisioner \<times> phase" where
  "end_set_up domain i r p =
     (case r of
        Inr (k, url) \<Rightarrow>
          (set_chans i (\<lambda>c. c\<lparr>key_auth := Some k, key_auth_tx := False\<rparr>) p,
           Prepared (LeaderChallenge k url i))
      | Inl e \<Rightarrow> (drop_senders i (drop_entry domain p), PrepareFailed e))"

section \<open>Finalizing it\<close>

fun mark_ready :: "acme_order \<Rightarrow> authorizations \<Rightarrow> (acme_event, order_error + unit) task" where
  "mark_ready ord [] = tret (Inr ())"
| "mark_ready ord (Inl e # as) = tret (Inl e)"
| "mark_ready ord (Inr a # as) =
     (if authz_valid a then mark_ready ord as
      else (case tls_alpn a of
          None \<Rightarrow> mark_ready ord as
        | Some (_, url) \<Rightarrow> tthen (emit (SetReady url)) (await (set_ready ord))))"

definition finalize_acme :: "acme_order \<Rightarrow> string \<Rightarrow> string \<Rightarrow> byte list \<Rightarrow>
    (acme_event, order_error + string) task" where
  "finalize_acme ord domain challenge_url csr_der =
     terr (if challenge_url \<noteq> [] then mark_ready ord (authorizations_of ord) else tret (Inr ())) (\<lambda>_.
       finalize_order ord domain csr_der)"

definition store :: "cert_libs \<Rightarrow> int \<Rightarrow> instant \<Rightarrow> string \<Rightarrow> string \<Rightarrow> provisioner \<Rightarrow> provisioner" where
  "store l wall now domain pem p =
     p\<lparr>cache := (cache p)(domain \<mapsto>
         \<lparr>cert_pem = pem,
          renewal = (case renew_at l wall now pem of Inr t \<Rightarrow> t | Inl _ \<Rightarrow> now + DEFAULT_RENEW_AFTER)\<rparr>)\<rparr>"

definition send_cert :: "nat \<Rightarrow> string \<Rightarrow> provisioner \<Rightarrow> provisioner" where
  "send_cert i pem = set_chans i (\<lambda>c. c\<lparr>issued_pem := Some pem\<rparr>)"

text \<open>The entry goes on every path; then the pending order is dropped, and its sender with it.\<close>

definition finish_finalize :: "string \<Rightarrow> nat \<Rightarrow> provisioner \<Rightarrow> provisioner" where
  "finish_finalize domain i p = drop_senders i (drop_entry domain p)"

end
