(* ===== verification/Cert_Sharing.thy ===== *)
theory Cert_Sharing
  imports Cert_Provisioner
begin

text \<open>
  Sharing one ACME order between concurrent connections (\<^verbatim>\<open>tunnel-client/src/acme.rs\<close>): the
  interleavings of the critical sections of \<open>prepare\<close> and \<open>finalize\<close> over any number of callers,
  what holds in all of them, and a run in which a failed order leaves two leaders.
\<close>

section \<open>Interleavings\<close>

text \<open>
  The shared state of all callers. Two fields record history: the domain each order was placed for,
  and the certificates that were accepted as seeds or issued by the CA.
\<close>

record world =
  prov :: provisioner
  order_domains :: "string list"
  genuine :: "(string \<times> string) list"

definition world_init :: world where
  "world_init = \<lparr>prov = CertProvisioner_new, order_domains = [], genuine = []\<rparr>"

fun leads :: "phase \<Rightarrow> nat option" where
  "leads (SetUp i) = Some i"
| "leads (Prepared (LeaderChallenge _ _ i)) = Some i"
| "leads (Finalizing i _) = Some i"
| "leads (Stored i _) = Some i"
| "leads (Cleanup i _) = Some i"
| "leads _ = None"

fun follows :: "phase \<Rightarrow> nat option" where
  "follows (Found i) = Some i"
| "follows (AwaitKey i) = Some i"
| "follows (Prepared (FollowerChallenge _ i)) = Some i"
| "follows _ = None"

text \<open>
  One atomic section of one caller for \<open>domain\<close>. The last two rules are the end of a caller's task:
  a leader that is dropped drops its senders, and a caller that is done may call again.
\<close>

inductive move :: "cert_libs \<Rightarrow> string \<Rightarrow> world \<Rightarrow> phase \<Rightarrow> world \<Rightarrow> phase \<Rightarrow> bool" for l domain where
  looks_up: "move l domain w LookUp w (look_up now domain (prov w))"
| probes: "move l domain w Probe w (probe domain (prov w))"
| joins: "move l domain w (Found i) w (join i (prov w))"
| key_arrives: "key_changed i (prov w) = Some ph \<Longrightarrow> move l domain w (AwaitKey i) w ph"
| drops_entry: "move l domain w DropEntry (w\<lparr>prov := drop_entry domain (prov w)\<rparr>) LookUp"
| loses_race: "claim domain (prov w) = (p, LookUp) \<Longrightarrow> move l domain w Claim (w\<lparr>prov := p\<rparr>) LookUp"
| claims: "claim domain (prov w) = (p, SetUp i) \<Longrightarrow>
    move l domain w Claim (w\<lparr>prov := p, order_domains := order_domains w @ [domain]\<rparr>) (SetUp i)"
| sets_up: "end_set_up domain i (set_up domain placed) (prov w) = (p, ph) \<Longrightarrow>
    move l domain w (SetUp i) (w\<lparr>prov := p\<rparr>) ph"
| finalizes: "move l domain w (Prepared (LeaderChallenge k url i)) w (Finalizing i url)"
| issued: "result (finalize_acme ord domain url csr) = Some (Inr pem) \<Longrightarrow>
    move l domain w (Finalizing i url)
      (w\<lparr>prov := store l wall now domain pem (prov w), genuine := (domain, pem) # genuine w\<rparr>) (Stored i pem)"
| not_issued: "result (finalize_acme ord domain url csr) = Some (Inl e) \<Longrightarrow>
    move l domain w (Finalizing i url) w (Cleanup i (Inl e))"
| sends: "move l domain w (Stored i pem) (w\<lparr>prov := send_cert i pem (prov w)\<rparr>) (Cleanup i (Inr pem))"
| cleans_up: "move l domain w (Cleanup i r) (w\<lparr>prov := finish_finalize domain i (prov w)\<rparr>) (Finalized r)"
| seeds: "seed l wall now later domain public_key pem (prov w) = (p, None) \<Longrightarrow>
    move l domain w LookUp (w\<lparr>prov := p, genuine := (domain, pem) # genuine w\<rparr>) LookUp"
| cancelled: "leads ph = Some i \<Longrightarrow> move l domain w ph (w\<lparr>prov := drop_senders i (prov w)\<rparr>) Cancelled"
| calls_again: "leads ph = None \<Longrightarrow> move l domain w ph w LookUp"

text \<open>Any number of callers, each for its domain.\<close>

type_synonym callers = "(string \<times> phase) list"

inductive prov_step :: "cert_libs \<Rightarrow> world \<times> callers \<Rightarrow> world \<times> callers \<Rightarrow> bool" for l where
  moves: "a < length cs \<Longrightarrow> cs ! a = (d, ph) \<Longrightarrow> move l d w ph w' ph' \<Longrightarrow>
    prov_step l (w, cs) (w', cs[a := (d, ph')])"

definition prov_init :: "world \<times> callers \<Rightarrow> bool" where
  "prov_init s \<longleftrightarrow> fst s = world_init \<and> (\<forall>c \<in> set (snd s). snd c = LookUp)"

section \<open>Invariant\<close>

definition chan_ok :: "world \<Rightarrow> nat \<Rightarrow> bool" where
  "chan_ok w i \<longleftrightarrow>
     (\<forall>pem. issued_pem (chans (prov w) ! i) = Some pem \<longrightarrow> (order_domains w ! i, pem) \<in> set (genuine w)) \<and>
     (\<not> key_auth_tx (chans (prov w) ! i) \<longrightarrow>
        key_auth (chans (prov w) ! i) \<noteq> None \<or> \<not> cert_tx (chans (prov w) ! i))"

definition world_ok :: "world \<Rightarrow> bool" where
  "world_ok w \<longleftrightarrow> length (order_domains w) = length (chans (prov w)) \<and>
     (\<forall>d i. in_flight (prov w) d = Some i \<longrightarrow> i < length (chans (prov w)) \<and> order_domains w ! i = d) \<and>
     (\<forall>d e. cache (prov w) d = Some e \<longrightarrow> (d, cert_pem e) \<in> set (genuine w)) \<and>
     (\<forall>i < length (chans (prov w)). chan_ok w i)"

fun phase_ok :: "world \<Rightarrow> string \<Rightarrow> phase \<Rightarrow> bool" where
  "phase_ok w d (SetUp i) \<longleftrightarrow> chans (prov w) ! i = new_chans"
| "phase_ok w d (Prepared (LeaderChallenge k _ i)) \<longleftrightarrow> key_auth (chans (prov w) ! i) = Some k"
| "phase_ok w d (Prepared (FollowerChallenge k i)) \<longleftrightarrow> key_auth (chans (prov w) ! i) = Some k"
| "phase_ok w d (Prepared (Cached pem)) \<longleftrightarrow> (d, pem) \<in> set (genuine w)"
| "phase_ok w d (Finalizing i _) \<longleftrightarrow> key_auth (chans (prov w) ! i) \<noteq> None"
| "phase_ok w d (Stored i pem) \<longleftrightarrow> key_auth (chans (prov w) ! i) \<noteq> None \<and> (d, pem) \<in> set (genuine w)"
| "phase_ok w d (Cleanup i r) \<longleftrightarrow> key_auth (chans (prov w) ! i) \<noteq> None"
| "phase_ok w d _ \<longleftrightarrow> True"

definition refers_ok :: "world \<Rightarrow> string \<Rightarrow> nat option \<Rightarrow> bool" where
  "refers_ok w d r \<longleftrightarrow> (\<forall>i. r = Some i \<longrightarrow> i < length (chans (prov w)) \<and> order_domains w ! i = d)"

definition caller_ok :: "world \<Rightarrow> string \<times> phase \<Rightarrow> bool" where
  "caller_ok w c \<longleftrightarrow> (case c of (d, ph) \<Rightarrow>
     refers_ok w d (leads ph) \<and> refers_ok w d (follows ph) \<and> phase_ok w d ph)"

text \<open>How the world may change under the other callers: at the orders nobody else leads.\<close>

definition evolves :: "nat option \<Rightarrow> world \<Rightarrow> world \<Rightarrow> bool" where
  "evolves led w w' \<longleftrightarrow>
     length (chans (prov w)) \<le> length (chans (prov w')) \<and> set (genuine w) \<subseteq> set (genuine w') \<and>
     (\<forall>j < length (chans (prov w)). order_domains w' ! j = order_domains w ! j \<and>
        (led \<noteq> Some j \<longrightarrow> chans (prov w') ! j = chans (prov w) ! j) \<and>
        (\<forall>k. key_auth (chans (prov w) ! j) = Some k \<longrightarrow> key_auth (chans (prov w') ! j) = Some k))"

lemmas prov_defs = look_up_def probe_def join_def key_changed_def drop_entry_def claim_def end_set_up_def
  set_chans_def drop_senders_def store_def send_cert_def finish_finalize_def new_chans_def

lemma move_evolves:
  assumes "move l d w ph w' ph'" and "world_ok w" and "caller_ok w (d, ph)"
  shows "evolves (leads ph) w w'"
  using assms
  by (cases rule: move.cases)
     (auto simp: evolves_def prov_defs caller_ok_def refers_ok_def world_ok_def nth_append nth_list_update seed_def
      split: if_splits sum.splits option.splits)

lemma caller_ok_evolves:
  assumes "evolves led w w'" and "caller_ok w (d, ph)" and "leads ph = None \<or> leads ph \<noteq> led"
  shows "caller_ok w' (d, ph)"
  using assms
  by (cases "(w, d, ph)" rule: phase_ok.cases) (auto simp: evolves_def caller_ok_def refers_ok_def)

lemma move_caller:
  assumes "move l d w ph w' ph'" and "world_ok w" and "caller_ok w (d, ph)"
  shows "caller_ok w' (d, ph')"
  using assms
  by (cases rule: move.cases)
     (auto simp: prov_defs caller_ok_def refers_ok_def world_ok_def nth_append nth_list_update
      split: if_splits sum.splits option.splits)

lemma move_world:
  assumes "move l d w ph w' ph'" and "world_ok w" and "caller_ok w (d, ph)"
  shows "world_ok w'"
  using assms
  by (cases rule: move.cases)
     (auto simp: prov_defs caller_ok_def refers_ok_def world_ok_def chan_ok_def nth_append nth_list_update seed_def
      less_Suc_eq split: if_splits sum.splits option.splits)

lemma move_leads:
  assumes "move l d w ph w' ph'"
  shows "leads ph' = None \<or> leads ph' = leads ph \<or>
    leads ph = None \<and> leads ph' = Some (length (chans (prov w)))"
  using assms
  by (cases rule: move.cases) (auto simp: prov_defs split: if_splits sum.splits option.splits)

text \<open>A channel with no key yet and a sender that may still publish one.\<close>

definition unpublished :: "world \<Rightarrow> nat \<Rightarrow> bool" where
  "unpublished w i \<longleftrightarrow> i < length (chans (prov w)) \<and>
     key_auth (chans (prov w) ! i) = None \<and> key_auth_tx (chans (prov w) ! i)"

lemma move_unpublished:
  assumes "move l d w ph w' ph'" and "caller_ok w (d, ph)" and "unpublished w' i"
  shows "ph' = SetUp i \<or> unpublished w i \<and> ph \<noteq> SetUp i"
  using assms
  by (cases rule: move.cases)
     (auto simp: unpublished_def prov_defs caller_ok_def refers_ok_def nth_append nth_list_update seed_def
      less_Suc_eq split: if_splits sum.splits option.splits)

definition all_open :: "world \<Rightarrow> bool" where
  "all_open w \<longleftrightarrow> list_all cert_tx (chans (prov w))"

lemma move_open:
  assumes "move l d w ph w' ph'" and "world_ok w" and "caller_ok w (d, ph)" and "all_open w'"
  shows "all_open w \<and> (ph' = DropEntry \<longrightarrow> ph = DropEntry) \<and>
    (in_flight (prov w') = in_flight (prov w) \<and> (leads ph' = None \<or> leads ph' = leads ph) \<or> ph = DropEntry \<or>
     (\<exists>i. in_flight (prov w) d = None \<and> ph' = SetUp i \<and> in_flight (prov w') = (in_flight (prov w))(d \<mapsto> i)))"
  using assms
  by (cases rule: move.cases)
     (auto simp: all_open_def list_all_length prov_defs caller_ok_def refers_ok_def world_ok_def chan_ok_def
      seed_def nth_append nth_list_update split: if_splits sum.splits option.splits)

definition one_leader_each :: "callers \<Rightarrow> bool" where
  "one_leader_each cs \<longleftrightarrow> (\<forall>a b i. a < length cs \<and> b < length cs \<and>
     leads (snd (cs ! a)) = Some i \<and> leads (snd (cs ! b)) = Some i \<longrightarrow> a = b)"

definition awaited :: "world \<Rightarrow> callers \<Rightarrow> bool" where
  "awaited w cs \<longleftrightarrow> (\<forall>i. unpublished w i \<longrightarrow> (\<exists>d. (d, SetUp i) \<in> set cs))"

definition entries_ok :: "world \<Rightarrow> callers \<Rightarrow> bool" where
  "entries_ok w cs \<longleftrightarrow> (all_open w \<longrightarrow> (\<forall>(d, ph) \<in> set cs. ph \<noteq> DropEntry \<and>
     (\<forall>i. leads ph = Some i \<longrightarrow> in_flight (prov w) d = Some i)))"

definition prov_inv :: "world \<times> callers \<Rightarrow> bool" where
  "prov_inv s \<longleftrightarrow> (case s of (w, cs) \<Rightarrow> world_ok w \<and> (\<forall>c \<in> set cs. caller_ok w c) \<and>
     one_leader_each cs \<and> awaited w cs \<and> entries_ok w cs)"

lemma all_callers_update:
  assumes "a < length cs" and "P x" and "\<And>b. b < length cs \<Longrightarrow> b \<noteq> a \<Longrightarrow> P (cs ! b)"
  shows "\<forall>c \<in> set (cs[a := x]). P c"
  using assms by (auto simp: in_set_conv_nth nth_list_update)

lemma one_leaderD:
  "one_leader_each cs \<Longrightarrow> a < length cs \<Longrightarrow> b < length cs \<Longrightarrow>
   leads (snd (cs ! a)) = Some i \<Longrightarrow> leads (snd (cs ! b)) = Some i \<Longrightarrow> a = b"
  unfolding one_leader_each_def by blast

lemma caller_ok_nth: "\<forall>c \<in> set cs. caller_ok w c \<Longrightarrow> a < length cs \<Longrightarrow> cs ! a = c \<Longrightarrow> caller_ok w c"
  using nth_mem by blast

lemma callers_step:
  assumes "move l d w ph w' ph'" and "a < length cs" "cs ! a = (d, ph)" and "world_ok w"
    and ok: "\<forall>c \<in> set cs. caller_ok w c" and "one_leader_each cs"
  shows "\<forall>c \<in> set (cs[a := (d, ph')]). caller_ok w' c"
proof (rule all_callers_update [OF assms(2)])
  note c = caller_ok_nth [OF ok assms(2,3)]
  from assms(1,4) c show "caller_ok w' (d, ph')" by (rule move_caller)
  fix b assume b: "b < length cs" "b \<noteq> a"
  obtain e q where e: "cs ! b = (e, q)" by fastforce
  moreover note caller_ok_nth [OF ok b(1) e]
  moreover have "leads q = None \<or> leads q \<noteq> leads ph"
    using one_leaderD [OF assms(6) assms(2) b(1), of "the (leads q)"] b(2) e assms(3) by (cases "leads q") auto
  ultimately show "caller_ok w' (cs ! b)"
    using caller_ok_evolves [OF move_evolves [OF assms(1,4) c]] by simp
qed

lemma leaders_step:
  assumes "move l d w ph w' ph'" and "a < length cs" "cs ! a = (d, ph)"
    and ok: "\<forall>c \<in> set cs. caller_ok w c" and "one_leader_each cs"
  shows "one_leader_each (cs[a := (d, ph')])"
proof -
  have old: "leads (snd (cs ! b)) \<noteq> Some (length (chans (prov w)))" if "b < length cs" for b
    using caller_ok_nth [OF ok that refl] by (cases "cs ! b") (auto simp: caller_ok_def refers_ok_def)
  have new: "False" if "leads ph' = Some i" "b < length cs" "b \<noteq> a" "leads (snd (cs ! b)) = Some i" for b i
    using move_leads [OF assms(1)] one_leaderD [OF assms(5) assms(2) that(2), of i] old [OF that(2)] that assms(3)
    by auto
  show ?thesis
    unfolding one_leader_each_def
  proof (intro allI impI, elim conjE)
    fix x y i
    assume "x < length (cs[a := (d, ph')])" "y < length (cs[a := (d, ph')])"
      and "leads (snd (cs[a := (d, ph')] ! x)) = Some i" "leads (snd (cs[a := (d, ph')] ! y)) = Some i"
    then show "x = y"
      using one_leaderD [OF assms(5), of x y i] new [of i x] new [of i y]
      by (cases "x = a"; cases "y = a") (simp_all add: nth_list_update)
  qed
qed

lemma awaited_step:
  assumes "move l d w ph w' ph'" and "a < length cs" "cs ! a = (d, ph)"
    and "caller_ok w (d, ph)" and "awaited w cs"
  shows "awaited w' (cs[a := (d, ph')])"
  unfolding awaited_def
proof (intro allI impI)
  fix i assume "unpublished w' i"
  from move_unpublished [OF assms(1,4) this] show "\<exists>e. (e, SetUp i) \<in> set (cs[a := (d, ph')])"
  proof
    assume "ph' = SetUp i"
    with assms(2) show ?thesis by (auto intro: set_update_memI)
  next
    assume u: "unpublished w i \<and> ph \<noteq> SetUp i"
    with assms(5) obtain e b where "b < length cs" "cs ! b = (e, SetUp i)"
      by (auto simp: awaited_def in_set_conv_nth)
    moreover from this u assms(3) have "a \<noteq> b" by auto
    ultimately have "b < length (cs[a := (d, ph')])" "cs[a := (d, ph')] ! b = (e, SetUp i)"
      by simp_all
    then show ?thesis by (metis nth_mem)
  qed
qed

lemma entries_step:
  assumes m: "move l d w ph w' ph'" and "a < length cs" "cs ! a = (d, ph)" and "world_ok w"
    and "caller_ok w (d, ph)" and "entries_ok w cs"
  shows "entries_ok w' (cs[a := (d, ph')])"
  unfolding entries_ok_def
proof
  assume o: "all_open w'"
  note mo = move_open [OF m assms(4,5) o]
  with assms(6) have old: "\<And>e q. (e, q) \<in> set cs \<Longrightarrow> q \<noteq> DropEntry \<and>
      (\<forall>i. leads q = Some i \<longrightarrow> in_flight (prov w) e = Some i)"
    by (auto simp: entries_ok_def)
  have "(d, ph) \<in> set cs" using assms(2,3) by (metis nth_mem)
  note ph = old [OF this]
  have "q \<noteq> DropEntry \<and> (\<forall>i. leads q = Some i \<longrightarrow> in_flight (prov w') e = Some i)"
    if "(e, q) = (d, ph') \<or> (e, q) \<in> set cs" for e q
    using that ph mo old [of e q] by (cases "leads ph") auto
  then show "\<forall>(e, q) \<in> set (cs[a := (d, ph')]). q \<noteq> DropEntry \<and>
      (\<forall>i. leads q = Some i \<longrightarrow> in_flight (prov w') e = Some i)"
    using set_update_subset_insert [of cs a "(d, ph')"] by blast
qed

interpretation provisioning: invariant_of prov_init "prov_step l" prov_inv for l
proof unfold_locales
  show "prov_init s \<Longrightarrow> prov_inv s" for s
    by (cases s) (fastforce simp: prov_init_def prov_inv_def world_init_def CertProvisioner_new_def world_ok_def
        caller_ok_def refers_ok_def one_leader_each_def awaited_def unpublished_def entries_ok_def)
next
  fix s t assume inv: "prov_inv s" and step: "prov_step l s t"
  from step show "prov_inv t"
  proof cases
    case (moves a cs d ph w w' ph')
    from inv have i: "world_ok w" "\<forall>c \<in> set cs. caller_ok w c" "one_leader_each cs" "awaited w cs" "entries_ok w cs"
      unfolding prov_inv_def moves prod.case by blast+
    note m = moves(5) and a = moves(3,4) and c = caller_ok_nth [OF i(2) moves(3,4)]
    from move_world [OF m i(1) c] callers_step [OF m a i(1-3)] leaders_step [OF m a i(2,3)]
      awaited_step [OF m a c i(4)] entries_step [OF m a i(1) c i(5)]
    show ?thesis unfolding prov_inv_def moves prod.case by blast
  qed
qed

abbreviation prov_reachable :: "cert_libs \<Rightarrow> world \<Rightarrow> callers \<Rightarrow> bool" where
  "prov_reachable l w cs \<equiv> reachable prov_init (prov_step l) (w, cs)"

lemma prov_reachableD:
  assumes "prov_reachable l w cs"
  shows "world_ok w" "\<And>d ph. (d, ph) \<in> set cs \<Longrightarrow> caller_ok w (d, ph)" "one_leader_each cs"
    "awaited w cs" "entries_ok w cs"
  using provisioning.inv_reachable [OF assms] by (auto simp: prov_inv_def)

text \<open>
  C27. Everyone who works on an ACME order works on the same one: a follower has its leader's key
  authorization and is there for its leader's domain, and the certificate it is sent, like every
  certificate in the cache, is one the CA issued (or the user seeded) for that domain.
\<close>

theorem followers_share_order:
  assumes "prov_reachable l w cs"
    and "(d, Prepared (FollowerChallenge k i)) \<in> set cs"
  shows "(\<forall>e k' url. (e, Prepared (LeaderChallenge k' url i)) \<in> set cs \<longrightarrow> e = d \<and> k' = k) \<and>
    (\<forall>pem. issued_pem (chans (prov w) ! i) = Some pem \<longrightarrow> (d, pem) \<in> set (genuine w)) \<and>
    (\<forall>e entry. cache (prov w) e = Some entry \<longrightarrow> (e, cert_pem entry) \<in> set (genuine w))"
  using prov_reachableD(1) [OF assms(1)] prov_reachableD(2) [OF assms(1) assms(2)]
    prov_reachableD(2) [OF assms(1)]
  by (fastforce simp: caller_ok_def refers_ok_def world_ok_def chan_ok_def)

text \<open>
  C28. Until the first order ends, however many connections ask at once and however they interleave,
  at most one of them leads an order for a domain, and its entry is the one the others find.
\<close>

theorem single_leader:
  assumes "prov_reachable l w cs" and "list_all cert_tx (chans (prov w))"
    and "a < length cs" "cs ! a = (d, p)" "leads p \<noteq> None"
    and "b < length cs" "cs ! b = (d, q)" "leads q \<noteq> None"
  shows "a = b \<and> in_flight (prov w) d = leads p"
proof -
  note inv = prov_reachableD [OF assms(1)]
  have "(d, p) \<in> set cs" "(d, q) \<in> set cs" using assms(3,4,6,7) nth_mem by metis+
  with inv(5) assms(2,5,8) have "in_flight (prov w) d = leads p" "in_flight (prov w) d = leads q"
    by (auto simp: entries_ok_def all_open_def)
  then show ?thesis using one_leaderD [OF inv(3) assms(3,6), of "the (leads p)"] assms(4,5,7) by simp
qed

text \<open>
  C29. A follower is never left waiting for a key authorization: whenever nothing wakes it, a leader
  is still setting the order up.
\<close>

theorem follower_wakes:
  assumes "prov_reachable l w cs" and "(d, AwaitKey i) \<in> set cs" and "key_changed i (prov w) = None"
  shows "(d, SetUp i) \<in> set cs"
proof -
  note inv = prov_reachableD [OF assms(1)]
  have c: "i < length (chans (prov w))" "order_domains w ! i = d"
    using inv(2) [OF assms(2)] by (simp_all add: caller_ok_def refers_ok_def)
  then have "unpublished w i"
    using assms(3) by (auto simp: key_changed_def unpublished_def split: option.splits if_splits)
  with inv(4) obtain e where e: "(e, SetUp i) \<in> set cs" by (auto simp: awaited_def)
  with inv(2) [OF this] c(2) have "e = d" by (simp add: caller_ok_def refers_ok_def)
  with e show ?thesis by simp
qed

section \<open>Runs\<close>

definition caller_moves :: "cert_libs \<Rightarrow> string \<Rightarrow> world \<times> phase \<Rightarrow> world \<times> phase \<Rightarrow> bool" where
  "caller_moves l d x y \<longleftrightarrow> move l d (fst x) (snd x) (fst y) (snd y)"

lemma caller_runs:
  assumes "(caller_moves l d)\<^sup>*\<^sup>* (w, ph) (w', ph')" and "prov_reachable l w cs"
    and "a < length cs" and "cs ! a = (d, ph)"
  shows "prov_reachable l w' (cs[a := (d, ph')])"
  using assms(1)
proof (induction "(w', ph')" arbitrary: w' ph' rule: rtranclp_induct)
  case base
  have "cs[a := (d, ph)] = cs" using assms(4) by (metis list_update_id)
  with base assms(2) show ?case by simp
next
  case (step y)
  obtain v q where y: "y = (v, q)" by fastforce
  with step have r: "prov_reachable l v (cs[a := (d, q)])" by simp
  have "prov_step l (v, cs[a := (d, q)]) (w', cs[a := (d, q), a := (d, ph')])"
    using step(2) assms(3) by (intro moves) (simp_all add: y caller_moves_def)
  with r show ?case by (metis list_update_overwrite reach_step)
qed

lemma caller_run1:
  assumes "caller_moves l d (w, ph) (w', ph')" and "prov_reachable l w cs"
    and "a < length cs" and "cs ! a = (d, ph)"
  shows "prov_reachable l w' (cs[a := (d, ph')])"
  by (rule caller_runs [OF _ assms(2-4)]) (simp add: assms(1) r_into_rtranclp)

lemma lead_run:
  assumes "cache (prov w) d = None" and "in_flight (prov w) d = None"
  shows "(caller_moves l d)\<^sup>*\<^sup>* (w, LookUp)
    (w\<lparr>prov := fst (claim d (prov w)), order_domains := order_domains w @ [d]\<rparr>, SetUp (length (chans (prov w))))"
proof -
  have "caller_moves l d (w, LookUp) (w, Probe)"
    using looks_up [of l d w 0] assms by (simp add: caller_moves_def look_up_def)
  moreover have "caller_moves l d (w, Probe) (w, Claim)"
    using probes [of l d w] assms by (simp add: caller_moves_def probe_def)
  moreover have "caller_moves l d (w, Claim)
      (w\<lparr>prov := fst (claim d (prov w)), order_domains := order_domains w @ [d]\<rparr>, SetUp (length (chans (prov w))))"
    using assms by (auto simp: caller_moves_def claim_def intro!: claims)
  ultimately show ?thesis
    by (rule converse_rtranclp_into_rtranclp [OF _ converse_rtranclp_into_rtranclp [OF _ r_into_rtranclp]])
qed

lemma follow_run:
  assumes "cache (prov w) d = None" and "in_flight (prov w) d = Some i"
    and "cert_tx (chans (prov w) ! i)" and "key_auth (chans (prov w) ! i) = None"
  shows "(caller_moves l d)\<^sup>*\<^sup>* (w, LookUp) (w, AwaitKey i)"
proof -
  have "caller_moves l d (w, LookUp) (w, Probe)"
    using looks_up [of l d w 0] assms by (simp add: caller_moves_def look_up_def)
  moreover have "caller_moves l d (w, Probe) (w, Found i)"
    using probes [of l d w] assms by (simp add: caller_moves_def probe_def)
  moreover have "caller_moves l d (w, Found i) (w, AwaitKey i)"
    using joins [of l d w i] assms by (simp add: caller_moves_def join_def)
  ultimately show ?thesis
    by (rule converse_rtranclp_into_rtranclp [OF _ converse_rtranclp_into_rtranclp [OF _ r_into_rtranclp]])
qed

lemma drop_run:
  assumes "key_changed i (prov w) = Some DropEntry"
  shows "(caller_moves l d)\<^sup>*\<^sup>* (w, AwaitKey i) (w\<lparr>prov := drop_entry d (prov w)\<rparr>, LookUp)"
proof -
  have "caller_moves l d (w, AwaitKey i) (w, DropEntry)"
    using key_arrives [OF assms] by (simp add: caller_moves_def)
  moreover have "caller_moves l d (w, DropEntry) (w\<lparr>prov := drop_entry d (prov w)\<rparr>, LookUp)"
    using drops_entry [of l d w] by (simp add: caller_moves_def)
  ultimately show ?thesis by (rule converse_rtranclp_into_rtranclp [OF _ r_into_rtranclp])
qed

text \<open>One leader that sets up, two followers that wait.\<close>

definition demo_claimed :: world where
  "demo_claimed = world_init\<lparr>prov := fst (claim ''d'' CertProvisioner_new), order_domains := [''d'']\<rparr>"

lemma demo_waiting:
  "prov_reachable l demo_claimed [(''d'', SetUp 0), (''d'', AwaitKey 0), (''d'', AwaitKey 0)]"
proof -
  have "prov_reachable l world_init [(''d'', LookUp), (''d'', LookUp), (''d'', LookUp)]"
    by (rule reach_init) (simp add: prov_init_def)
  from caller_runs [OF lead_run this, of "''d''" 0]
  have "prov_reachable l demo_claimed [(''d'', SetUp 0), (''d'', LookUp), (''d'', LookUp)]"
    by (simp add: demo_claimed_def world_init_def CertProvisioner_new_def)
  note 1 = this
  have w: "(caller_moves l ''d'')\<^sup>*\<^sup>* (demo_claimed, LookUp) (demo_claimed, AwaitKey 0)"
    by (rule follow_run)
       (simp_all add: demo_claimed_def world_init_def CertProvisioner_new_def claim_def new_chans_def)
  from caller_runs [OF w 1, of 1]
  have "prov_reachable l demo_claimed [(''d'', SetUp 0), (''d'', AwaitKey 0), (''d'', LookUp)]" by simp
  from caller_runs [OF w this, of 2] show ?thesis by simp
qed

theorem follower_wakes_witness:
  "(''d'', SetUp 0) \<in> set [(''d'', SetUp 0), (''d'', AwaitKey 0), (''d'', AwaitKey 0)]"
  by (rule follower_wakes [OF demo_waiting])
     (simp_all add: key_changed_def demo_claimed_def claim_def CertProvisioner_new_def new_chans_def)

theorem single_leader_witness: "in_flight (prov demo_claimed) ''d'' = leads (SetUp 0)"
  using single_leader [OF demo_waiting, of 0 "''d''" "SetUp 0" 0 "SetUp 0"]
  by (simp add: demo_claimed_def claim_def CertProvisioner_new_def new_chans_def)

text \<open>The set-up succeeds, and a follower gets the key authorization.\<close>

definition demo_published :: world where
  "demo_published = demo_claimed\<lparr>prov := fst (end_set_up ''d'' 0 (Inr (''ka'', ''u'')) (prov demo_claimed))\<rparr>"

lemma demo_following:
  "prov_reachable l demo_published
     [(''d'', Prepared (LeaderChallenge ''ka'' ''u'' 0)), (''d'', Prepared (FollowerChallenge ''ka'' 0)), (''d'', AwaitKey 0)]"
proof -
  have s: "set_up ''d'' (Inr demo_order) = Inr (''ka'', ''u'')"
    by (simp add: set_up_def demo_order_def)
  have "caller_moves l ''d'' (demo_claimed, SetUp 0) (demo_published, Prepared (LeaderChallenge ''ka'' ''u'' 0))"
    using sets_up [of "''d''" 0 "Inr demo_order" demo_claimed "prov demo_published"
        "Prepared (LeaderChallenge ''ka'' ''u'' 0)" l]
    by (simp add: s caller_moves_def demo_published_def end_set_up_def)
  from caller_run1 [OF this demo_waiting, of 0]
  have r: "prov_reachable l demo_published [(''d'', Prepared (LeaderChallenge ''ka'' ''u'' 0)), (''d'', AwaitKey 0), (''d'', AwaitKey 0)]"
    by simp
  have "caller_moves l ''d'' (demo_published, AwaitKey 0) (demo_published, Prepared (FollowerChallenge ''ka'' 0))"
    using key_arrives [of 0 demo_published "Prepared (FollowerChallenge ''ka'' 0)" l "''d''"]
    by (simp add: caller_moves_def demo_published_def demo_claimed_def claim_def CertProvisioner_new_def prov_defs)
  from caller_run1 [OF this r, of 1] show ?thesis by simp
qed

theorem followers_share_order_witness:
  "{(e, k). \<exists>url. (e, Prepared (LeaderChallenge k url 0)) \<in>
      set [(''d'', Prepared (LeaderChallenge ''ka'' ''u'' 0)),
        (''d'', Prepared (FollowerChallenge ''ka'' 0)), (''d'', AwaitKey 0)]} = {(''d'', ''ka'')}"
proof -
  have "\<forall>e k' url. (e, Prepared (LeaderChallenge k' url 0)) \<in> set [(''d'', Prepared (LeaderChallenge ''ka'' ''u'' 0)),
     (''d'', Prepared (FollowerChallenge ''ka'' 0)), (''d'', AwaitKey 0)] \<longrightarrow> e = ''d'' \<and> k' = ''ka''"
    by (rule followers_share_order [OF demo_following, THEN conjunct1]) simp
  then show ?thesis by auto
qed

text \<open>
  Once an order has failed, single leadership is lost: the first follower to wake takes the lead of
  a new order, and the second removes the new leader's entry, taking it for the stale one, and leads
  a third order.
\<close>

theorem two_leaders:
  "\<exists>w cs i j. prov_reachable l w cs \<and> i \<noteq> j \<and> (''d'', SetUp i) \<in> set cs \<and> (''d'', SetUp j) \<in> set cs"
proof -
  let ?e = "AcmeCall ''unreachable''"
  define w2 where "w2 = demo_claimed\<lparr>prov := fst (end_set_up ''d'' 0 (Inl ?e) (prov demo_claimed))\<rparr>"
  define w3 where "w3 = w2\<lparr>prov := drop_entry ''d'' (prov w2)\<rparr>"
  define w4 where "w4 = w3\<lparr>prov := fst (claim ''d'' (prov w3)), order_domains := order_domains w3 @ [''d'']\<rparr>"
  define w5 where "w5 = w4\<lparr>prov := drop_entry ''d'' (prov w4)\<rparr>"
  define w6 where "w6 = w5\<lparr>prov := fst (claim ''d'' (prov w5)), order_domains := order_domains w5 @ [''d'']\<rparr>"
  note ws = w6_def w5_def w4_def w3_def w2_def demo_claimed_def world_init_def CertProvisioner_new_def prov_defs
  have "caller_moves l ''d'' (demo_claimed, SetUp 0) (w2, PrepareFailed ?e)"
    using sets_up [of "''d''" 0 "Inl ?e" demo_claimed "prov w2" "PrepareFailed ?e" l]
    by (simp add: caller_moves_def w2_def end_set_up_def set_up_def)
  from caller_run1 [OF this demo_waiting, of 0]
  have 2: "prov_reachable l w2 [(''d'', PrepareFailed ?e), (''d'', AwaitKey 0), (''d'', AwaitKey 0)]" by simp
  have "key_changed 0 (prov w2) = Some DropEntry" by (simp add: ws)
  from caller_runs [OF drop_run [OF this] 2, of 1]
  have 3: "prov_reachable l w3 [(''d'', PrepareFailed ?e), (''d'', LookUp), (''d'', AwaitKey 0)]"
    by (simp add: w3_def)
  from caller_runs [OF lead_run 3, of "''d''" 1]
  have 4: "prov_reachable l w4 [(''d'', PrepareFailed ?e), (''d'', SetUp 1), (''d'', AwaitKey 0)]"
    unfolding w4_def by (simp add: w3_def w2_def demo_claimed_def world_init_def CertProvisioner_new_def prov_defs)
  have "key_changed 0 (prov w4) = Some DropEntry" by (simp add: ws)
  from caller_runs [OF drop_run [OF this] 4, of 2]
  have 5: "prov_reachable l w5 [(''d'', PrepareFailed ?e), (''d'', SetUp 1), (''d'', LookUp)]"
    by (simp add: w5_def)
  from caller_runs [OF lead_run 5, of "''d''" 2]
  have "prov_reachable l w6 [(''d'', PrepareFailed ?e), (''d'', SetUp 1), (''d'', SetUp (Suc (Suc 0)))]"
    unfolding w6_def by (simp add: w5_def w4_def w3_def w2_def demo_claimed_def world_init_def CertProvisioner_new_def prov_defs)
  moreover have "Suc 0 \<noteq> Suc (Suc 0)" by simp
  ultimately show ?thesis by (metis One_nat_def list.set_intros)
qed

end
