(* ===== verification/Server_Cert.thy ===== *)
theory Server_Cert
  imports Cert_Provisioner
begin

text \<open>
  The relay's own certificate (\<^verbatim>\<open>tunnel-server/src/cert.rs\<close>): the choice of a certificate at start-up,
  its provisioning through ACME, and the resolver that reloads it from disk and renews it in the
  background. Files are a map from paths to contents; the effects of a provisioning task are the
  changes it makes to the files, to the challenge the public listener serves, and at the CA.
\<close>

section \<open>Files\<close>

type_synonym files = "string \<rightharpoonup> string"

datatype server_event =
    WriteFile string string
  | RenameFile string string
  | SetChallenge string string
  | ClearChallenge
  | AtCa acme_event

fun apply_event :: "server_event \<Rightarrow> files \<Rightarrow> files" where
  "apply_event (WriteFile p c) fs = fs(p \<mapsto> c)"
| "apply_event (RenameFile p q) fs = fs(q := fs p, p := None)"
| "apply_event _ fs = fs"

datatype cert_error =
    IoError string
  | NoCertificates string
  | BadPem string
  | NoPrivateKey string
  | UnsupportedKey
  | Csr string
  | BadCredentials
  | Acme order_error
  | AlpnAcceptor

text \<open>Whether a read or a write of a path, or a rename onto it, succeeds.\<close>

record disk =
  read_ok :: "string \<Rightarrow> bool"
  write_ok :: "string \<Rightarrow> bool"
  rename_ok :: "string \<Rightarrow> bool"

definition fs_write :: "disk \<Rightarrow> string \<Rightarrow> string \<Rightarrow> (server_event, cert_error + unit) task" where
  "fs_write k path body =
     (if write_ok k path then tthen (emit (WriteFile path body)) (tret (Inr ()))
      else tret (Inl (IoError path)))"

definition fs_rename :: "disk \<Rightarrow> string \<Rightarrow> string \<Rightarrow> (server_event, cert_error + unit) task" where
  "fs_rename k src dst =
     (if rename_ok k dst then tthen (emit (RenameFile src dst)) (tret (Inr ()))
      else tret (Inl (IoError dst)))"

definition write_atomic :: "disk \<Rightarrow> string \<Rightarrow> string \<Rightarrow> (server_event, cert_error + unit) task" where
  "write_atomic k path body =
     (let tmp = path @ ''.tmp'' in
      terr (fs_write k tmp body) (\<lambda>_. fs_rename k tmp path))"

section \<open>Keys, accounts and orders\<close>

text \<open>
  The libraries: keys (by number) with their PEM form, the CSR for a domain, the private-key parser
  of the TLS library, account credentials, and the CA's answers.
\<close>

record key_libs =
  from_pem :: "string \<Rightarrow> nat option"
  serialize_pem :: "nat \<Rightarrow> string"
  generate :: "nat option"
  csr_for :: "string \<Rightarrow> nat \<Rightarrow> byte list option"
  all_certs :: "string \<Rightarrow> byte list list option"
  private_key :: "string \<Rightarrow> nat option option"
  supported_key :: "nat \<Rightarrow> bool"
  creds_ok :: "string \<Rightarrow> bool"
  acceptor_for :: "string \<Rightarrow> string \<Rightarrow> bool"

record ca =
  ca_builder :: "string option \<Rightarrow> bool"
  ca_restore :: "string \<Rightarrow> (order_error + unit) fut"
  ca_create :: "string list \<Rightarrow> string \<Rightarrow> (order_error + string) fut"
  ca_new_order :: "string \<Rightarrow> (order_error + acme_order) fut"

definition load_or_generate_keypair :: "key_libs \<Rightarrow> disk \<Rightarrow> files \<Rightarrow> string \<Rightarrow>
    (server_event, cert_error + nat) task" where
  "load_or_generate_keypair l k fs path =
     (case fs path of
        Some pem \<Rightarrow>
          if \<not> read_ok k path then tret (Inl (IoError path))
          else tret (case from_pem l pem of Some key \<Rightarrow> Inr key | None \<Rightarrow> Inl (BadPem path))
      | None \<Rightarrow>
          (case generate l of
             None \<Rightarrow> tret (Inl UnsupportedKey)
           | Some key \<Rightarrow> terr (fs_write k path (serialize_pem l key)) (\<lambda>_. tret (Inr key))))"

record acme_directory =
  staging :: bool
  dir_url :: "string option"
  root_ca_path :: "string option"

definition directory_url :: "string \<Rightarrow> string \<Rightarrow> acme_directory \<Rightarrow> string" where
  "directory_url le_staging le_production d =
     (case dir_url d of
        Some url \<Rightarrow> url
      | None \<Rightarrow> if staging d then le_staging else le_production)"

definition map_err :: "('x \<Rightarrow> 'y) \<Rightarrow> 'x + 'a \<Rightarrow> 'y + 'a" where
  "map_err f r = (case r of Inl x \<Rightarrow> Inl (f x) | Inr a \<Rightarrow> Inr a)"

definition ask :: "(order_error + 'a) fut \<Rightarrow> (server_event, cert_error + 'a) task" where
  "ask f = await (map_option (apsnd (map_err Acme)) f)"

definition acme_load_or_create_account :: "key_libs \<Rightarrow> disk \<Rightarrow> ca \<Rightarrow> files \<Rightarrow> string option \<Rightarrow>
    string option \<Rightarrow> string \<Rightarrow> string \<Rightarrow> (server_event, cert_error + unit) task" where
  "acme_load_or_create_account l k c fs email root url path =
     (case fs path of
        Some json \<Rightarrow>
          if \<not> read_ok k path then tret (Inl (IoError path))
          else if \<not> creds_ok l json then tret (Inl BadCredentials)
          else if \<not> ca_builder c root then tret (Inl (IoError ''root ca''))
          else ask (ca_restore c json)
      | None \<Rightarrow>
          if \<not> ca_builder c root then tret (Inl (IoError ''root ca''))
          else
            (let contact = (case email of Some e \<Rightarrow> [''mailto:'' @ e] | None \<Rightarrow> []) in
             terr (ask (ca_create c contact url)) (\<lambda>credentials. fs_write k path credentials)))"

text \<open>The ACME library's part of a task, with its effects at the CA.\<close>

definition at_ca :: "(acme_event, order_error + 'a) task \<Rightarrow> (server_event, cert_error + 'a) task" where
  "at_ca m = Task (map (apsnd AtCa) (effects m)) (map_option (apsnd (map_err Acme)) (outcome m))"

definition finalize_acme_order :: "acme_order \<Rightarrow> string \<Rightarrow> byte list \<Rightarrow> (acme_event, order_error + string) task" where
  "finalize_acme_order ord domain csr_der =
     terr (mark_ready ord (authorizations_of ord)) (\<lambda>_. finalize_order ord domain csr_der)"

record provision_args =
  pa_domain :: string
  pa_email :: "string option"
  pa_root :: "string option"
  pa_url :: string
  pa_creds_path :: string
  pa_cert_path :: string
  pa_key_path :: string

text \<open>The challenge is cleared before the result of the order is looked at.\<close>

definition serve_challenge :: "acme_order \<Rightarrow> string \<Rightarrow> string \<Rightarrow> byte list \<Rightarrow> (server_event, cert_error + string) task" where
  "serve_challenge ord domain key_authorization csr_der =
     tthen (emit (SetChallenge domain key_authorization))
       (tbind (at_ca (finalize_acme_order ord domain csr_der)) (\<lambda>issued.
          tthen (emit ClearChallenge) (tret issued)))"

definition save_cert :: "key_libs \<Rightarrow> disk \<Rightarrow> provision_args \<Rightarrow> nat \<Rightarrow> string \<Rightarrow> (server_event, cert_error + unit) task" where
  "save_cert l k a keypair pem =
     terr (write_atomic k (pa_key_path a) (serialize_pem l keypair)) (\<lambda>_.
       write_atomic k (pa_cert_path a) pem)"

text \<open>The order, once keys and account are there.\<close>

definition order_cert :: "key_libs \<Rightarrow> disk \<Rightarrow> ca \<Rightarrow> provision_args \<Rightarrow> nat \<Rightarrow> byte list \<Rightarrow>
    (server_event, cert_error + unit) task" where
  "order_cert l k c a keypair csr_der =
     terr (ask (ca_new_order c (pa_domain a))) (\<lambda>ord.
       case find_challenge (pa_domain a) (authorizations_of ord) ('''', '''') of
         Inl e \<Rightarrow> tret (Inl (Acme e))
       | Inr (key_authorization, _) \<Rightarrow>
           if \<not> acceptor_for l (pa_domain a) key_authorization then tret (Inl AlpnAcceptor)
           else
             terr (serve_challenge ord (pa_domain a) key_authorization csr_der) (\<lambda>pem.
               save_cert l k a keypair pem))"

definition provision_acme_cert :: "key_libs \<Rightarrow> disk \<Rightarrow> ca \<Rightarrow> files \<Rightarrow> provision_args \<Rightarrow>
    (server_event, cert_error + unit) task" where
  "provision_acme_cert l k c fs a =
     terr (load_or_generate_keypair l k fs (pa_key_path a)) (\<lambda>keypair.
       case csr_for l (pa_domain a) keypair of
         None \<Rightarrow> tret (Inl (Csr (pa_domain a)))
       | Some csr_der \<Rightarrow>
           terr (acme_load_or_create_account l k c
                   (if fs (pa_key_path a) = None then fs(pa_key_path a \<mapsto> serialize_pem l keypair) else fs)
                   (pa_email a) (pa_root a) (pa_url a) (pa_creds_path a)) (\<lambda>_.
             order_cert l k c a keypair csr_der))"

section \<open>The challenge is served while the CA is asked\<close>

fun bracketed :: "bool \<Rightarrow> server_event list \<Rightarrow> bool" where
  "bracketed serving [] \<longleftrightarrow> \<not> serving"
| "bracketed serving (SetChallenge _ _ # es) \<longleftrightarrow> \<not> serving \<and> bracketed True es"
| "bracketed serving (AtCa _ # es) \<longleftrightarrow> serving \<and> bracketed True es"
| "bracketed serving (ClearChallenge # es) \<longleftrightarrow> serving \<and> bracketed False es"
| "bracketed serving (_ # es) \<longleftrightarrow> \<not> serving \<and> bracketed False es"

lemma bracketed_append: "bracketed b es \<Longrightarrow> bracketed False fs \<Longrightarrow> bracketed b (es @ fs)"
  by (induction b es rule: bracketed.induct) auto

lemma bracketed_at_ca: "bracketed True (map AtCa es @ fs) = bracketed True fs"
  by (induction es) auto

lemma trace_at_ca: "trace (at_ca m) = map AtCa (trace m)"
  by (simp add: trace_def at_ca_def comp_def)

lemma result_at_ca: "result (at_ca m) = map_option (map_err Acme) (result m)"
  by (simp add: result_def at_ca_def option.map_comp comp_def)

lemma trace_fs [simp]:
  "trace (fs_write k p c) = (if write_ok k p then [WriteFile p c] else [])"
  "trace (fs_rename k p q) = (if rename_ok k q then [RenameFile p q] else [])"
  "trace (ask f) = []"
  by (simp_all add: fs_write_def fs_rename_def ask_def)

lemma result_fs [simp]:
  "result (fs_write k p c) = Some (if write_ok k p then Inr () else Inl (IoError p))"
  "result (fs_rename k p q) = Some (if rename_ok k q then Inr () else Inl (IoError q))"
  by (simp_all add: fs_write_def fs_rename_def)

lemma trace_write_atomic:
  "trace (write_atomic k p c) =
     (if \<not> write_ok k (p @ ''.tmp'') then []
      else WriteFile (p @ ''.tmp'') c # (if rename_ok k p then [RenameFile (p @ ''.tmp'') p] else []))"
  by (simp add: write_atomic_def trace_terr Let_def)

lemma trace_keypair:
  "trace (load_or_generate_keypair l k fs p) = [] \<or>
   (\<exists>key. trace (load_or_generate_keypair l k fs p) = [WriteFile p (serialize_pem l key)])"
  by (auto simp: load_or_generate_keypair_def trace_terr split: option.splits)

lemma trace_account:
  "trace (acme_load_or_create_account l k c fs email root url path) = [] \<or>
   (\<exists>creds. trace (acme_load_or_create_account l k c fs email root url path) = [WriteFile path creds])"
  by (auto simp: acme_load_or_create_account_def trace_terr Let_def split: option.splits sum.splits)

lemma trace_save_cert:
  "trace (save_cert l k a key pem) = trace (write_atomic k (pa_key_path a) (serialize_pem l key)) \<or>
   trace (save_cert l k a key pem) = trace (write_atomic k (pa_key_path a) (serialize_pem l key)) @
     trace (write_atomic k (pa_cert_path a) pem)"
  by (auto simp: save_cert_def trace_terr split: option.splits sum.splits)

lemma trace_serve_challenge:
  "trace (serve_challenge ord d ka csr) =
     SetChallenge d ka # map AtCa (trace (finalize_acme_order ord d csr)) @
       (if result (finalize_acme_order ord d csr) = None then [] else [ClearChallenge])"
  by (auto simp: serve_challenge_def trace_tbind trace_at_ca result_at_ca split: option.splits)

lemma result_serve_challenge:
  "result (serve_challenge ord d ka csr) = map_option (map_err Acme) (result (finalize_acme_order ord d csr))"
  by (cases "result (finalize_acme_order ord d csr)") (simp_all add: serve_challenge_def result_tbind result_at_ca)

fun writes_to :: "string set \<Rightarrow> server_event \<Rightarrow> bool" where
  "writes_to ps (WriteFile p _) \<longleftrightarrow> p \<in> ps"
| "writes_to ps _ \<longleftrightarrow> False"

lemma keypair_writes: "list_all (writes_to {path, q}) (trace (load_or_generate_keypair l k fs path))"
  using trace_keypair [of l k fs path] by auto

lemma account_writes:
  "list_all (writes_to {q, path}) (trace (acme_load_or_create_account l k c fs email root url path))"
  using trace_account [of l k c fs email root url path] by auto

text \<open>The course of a provisioning: keys and account, then the order, then the files.\<close>

definition ordered :: "key_libs \<Rightarrow> disk \<Rightarrow> provision_args \<Rightarrow> bool \<Rightarrow> server_event list \<Rightarrow> bool" where
  "ordered l k a resolved es \<longleftrightarrow> es = [] \<or>
     (\<exists>ord ka csr key saved. es = trace (serve_challenge ord (pa_domain a) ka csr) @ saved \<and>
        (resolved \<longrightarrow> result (finalize_acme_order ord (pa_domain a) csr) \<noteq> None) \<and>
        (saved = [] \<or> (\<exists>pem. result (finalize_acme_order ord (pa_domain a) csr) = Some (Inr pem) \<and>
           saved = trace (save_cert l k a key pem))))"

lemma serve_and_save:
  "ordered l k a (result (terr (serve_challenge ord (pa_domain a) ka csr) (save_cert l k a key)) \<noteq> None)
     (trace (terr (serve_challenge ord (pa_domain a) ka csr) (save_cert l k a key)))"
proof (cases "result (finalize_acme_order ord (pa_domain a) csr)")
  case None
  then have "result (terr (serve_challenge ord (pa_domain a) ka csr) (save_cert l k a key)) = None"
    by (simp add: terr_def result_tbind result_serve_challenge)
  moreover from None have "trace (terr (serve_challenge ord (pa_domain a) ka csr) (save_cert l k a key)) =
      trace (serve_challenge ord (pa_domain a) ka csr) @ []"
    by (simp add: trace_terr result_serve_challenge)
  ultimately show ?thesis unfolding ordered_def by blast
next
  case (Some r)
  then show ?thesis
    by (cases r) (force simp: ordered_def trace_terr result_serve_challenge map_err_def)+
qed

lemma order_course:
  "ordered l k a (result (order_cert l k c a key csr) \<noteq> None) (trace (order_cert l k c a key csr))"
proof (cases "result (ask (ca_new_order c (pa_domain a)))")
  case (Some r)
  then show ?thesis
    using serve_and_save [of l k a]
    by (cases r) (auto simp: order_cert_def trace_terr ordered_def result_terr_Some split: sum.splits)
qed (simp add: order_cert_def trace_terr ordered_def)

lemma provision_course:
  obtains pre post where
    "trace (provision_acme_cert l k c fs a) = pre @ post"
    and "list_all (writes_to {pa_key_path a, pa_creds_path a}) pre"
    and "ordered l k a (result (provision_acme_cert l k c fs a) \<noteq> None) post"
proof -
  let ?m = "provision_acme_cert l k c fs a"
  let ?key = "load_or_generate_keypair l k fs (pa_key_path a)"
  let ?acc = "\<lambda>key. acme_load_or_create_account l k c
      (if fs (pa_key_path a) = None then fs(pa_key_path a \<mapsto> serialize_pem l key) else fs)
      (pa_email a) (pa_root a) (pa_url a) (pa_creds_path a)"
  have w: "list_all (writes_to {pa_key_path a, pa_creds_path a}) (trace ?key)"
      "list_all (writes_to {pa_key_path a, pa_creds_path a}) (trace (?acc key))" for key
    by (rule keypair_writes account_writes)+
  let ?k = "\<lambda>key. case csr_for l (pa_domain a) key of
      None \<Rightarrow> tret (Inl (Csr (pa_domain a)))
    | Some csr \<Rightarrow> terr (?acc key) (\<lambda>_. order_cert l k c a key csr)"
  have m: "terr ?key ?k = ?m" by (simp add: provision_acme_cert_def)
  show ?thesis
  proof (cases rule: terr_course [of ?key ?k, case_names stops continues])
    case stops
    then have "trace ?m = trace ?key" unfolding m .
    with that [of "trace ?key" "[]"] w show ?thesis by (simp add: ordered_def)
  next
    case (continues key)
    then have c: "trace ?m = trace ?key @ trace (?k key)" "result ?m = result (?k key)" unfolding m by blast+
    show ?thesis
    proof (cases "csr_for l (pa_domain a) key")
      case None
      with c that [of "trace ?key" "[]"] w show ?thesis by (simp add: ordered_def)
    next
      case (Some csr)
      show ?thesis
      proof (cases rule: terr_course [of "?acc key" "\<lambda>_. order_cert l k c a key csr"])
        case stops
        with c Some that [of "trace ?key @ trace (?acc key)" "[]"] w show ?thesis
          by (simp add: ordered_def)
      next
        case (continues u)
        with c Some that [of "trace ?key @ trace (?acc key)"] w
          order_course [of l k a c key csr] show ?thesis by simp
      qed
    qed
  qed
qed


section \<open>The certificate file is never partial\<close>

fun touches :: "string \<Rightarrow> server_event \<Rightarrow> bool" where
  "touches p (WriteFile q _) \<longleftrightarrow> q = p"
| "touches p (RenameFile q r) \<longleftrightarrow> q = p \<or> r = p"
| "touches p _ \<longleftrightarrow> False"

lemma untouched: "list_all (\<lambda>e. \<not> touches p e) es \<Longrightarrow> fold apply_event es fs p = fs p"
proof (induction es arbitrary: fs)
  case (Cons e es)
  then show ?case by (cases e) auto
qed simp

lemma untouched_writes: "p \<notin> ps \<Longrightarrow> list_all (writes_to ps) es \<Longrightarrow> list_all (\<lambda>e. \<not> touches p e) es"
proof (induction es)
  case (Cons e es)
  then show ?case by (cases e) auto
qed simp

lemma untouched_serving:
  "list_all (\<lambda>e. \<not> touches p e) (trace (serve_challenge ord d ka csr))"
  by (auto simp: trace_serve_challenge list_all_iff)

lemma tmp_differs: "p @ ''.tmp'' \<noteq> p"
  by simp

text \<open>Everything but the final rename leaves the certificate alone.\<close>

lemma provision_final_rename:
  assumes "pa_cert_path a \<notin> {pa_key_path a, pa_creds_path a, pa_key_path a @ ''.tmp''}"
  shows "\<exists>es. list_all (\<lambda>e. \<not> touches (pa_cert_path a) e) es \<and>
    (trace (provision_acme_cert l k c fs a) = es \<or>
     (\<exists>es' pem ord csr. es = es' @ [WriteFile (pa_cert_path a @ ''.tmp'') pem] \<and>
        result (finalize_acme_order ord (pa_domain a) csr) = Some (Inr pem) \<and>
        trace (provision_acme_cert l k c fs a) = es @ [RenameFile (pa_cert_path a @ ''.tmp'') (pa_cert_path a)]))"
proof -
  let ?p = "pa_cert_path a" and ?un = "list_all (\<lambda>e. \<not> touches (pa_cert_path a) e)"
  obtain pre post where t: "trace (provision_acme_cert l k c fs a) = pre @ post"
    and pre: "list_all (writes_to {pa_key_path a, pa_creds_path a}) pre"
    and post: "ordered l k a (result (provision_acme_cert l k c fs a) \<noteq> None) post"
    by (rule provision_course)
  have pre: "?un pre" using untouched_writes [OF _ pre] assms by simp
  have key: "?un (trace (write_atomic k (pa_key_path a) x))" for x
    using assms by (auto simp: trace_write_atomic)
  have "?un post \<or> (\<exists>ord csr es pem. result (finalize_acme_order ord (pa_domain a) csr) = Some (Inr pem) \<and>
      post = es @ trace (write_atomic k ?p pem) \<and> ?un es)"
    using post unfolding ordered_def
  proof (elim disjE exE conjE)
    fix ord ka csr key saved pem
    let ?s = "trace (serve_challenge ord (pa_domain a) ka csr)"
      and ?w = "trace (write_atomic k (pa_key_path a) (serialize_pem l key))"
    assume p: "post = ?s @ saved" and r: "result (finalize_acme_order ord (pa_domain a) csr) = Some (Inr pem)"
      and "saved = trace (save_cert l k a key pem)"
    then have "saved = ?w \<or> saved = ?w @ trace (write_atomic k ?p pem)" using trace_save_cert by metis
    moreover have "?un (?s @ ?w)" using untouched_serving key by simp
    ultimately show ?thesis using p r by (metis append.assoc)
  qed (use untouched_serving in simp_all)
  then show ?thesis
  proof (elim disjE exE conjE)
    assume "?un post"
    with t pre show ?thesis by (intro exI [of _ "pre @ post"]) simp
  next
    fix ord csr es pem
    assume "result (finalize_acme_order ord (pa_domain a) csr) = Some (Inr pem)"
      "post = es @ trace (write_atomic k ?p pem)" "?un es"
    with t pre show ?thesis
      by (intro exI [of _ "pre @ es @ (if write_ok k (?p @ ''.tmp'') then [WriteFile (?p @ ''.tmp'') pem] else [])"])
         (auto simp: trace_write_atomic)
  qed
qed


section \<open>The resolver\<close>

text \<open>A certified key: the chain and the private key.\<close>

type_synonym certified_key = "byte list list \<times> nat"

definition load_certified_key_from_paths :: "cert_libs \<Rightarrow> key_libs \<Rightarrow> disk \<Rightarrow> files \<Rightarrow> string \<Rightarrow> string \<Rightarrow>
    cert_error + (certified_key \<times> int)" where
  "load_certified_key_from_paths x l k fs cert_path key_path =
     (case (if read_ok k cert_path then fs cert_path else None) of
        None \<Rightarrow> Inl (IoError cert_path)
      | Some cert_file \<Rightarrow>
          (case (if read_ok k key_path then fs key_path else None) of
             None \<Rightarrow> Inl (IoError key_path)
           | Some key_file \<Rightarrow>
               (case all_certs l cert_file of
                  None \<Rightarrow> Inl (BadPem cert_path)
                | Some [] \<Rightarrow> Inl (NoCertificates cert_path)
                | Some (c # cs) \<Rightarrow>
                    (let expiry = (case parse_leaf x c of Some f \<Rightarrow> not_after f | None \<Rightarrow> 0) in
                     case private_key l key_file of
                       None \<Rightarrow> Inl (BadPem key_path)
                     | Some None \<Rightarrow> Inl (NoPrivateKey key_path)
                     | Some (Some key) \<Rightarrow>
                         if supported_key l key then Inr ((c # cs, key), expiry) else Inl UnsupportedKey))))"

definition RENEWAL_RETRY_BASE :: duration where
  "RENEWAL_RETRY_BASE = from_secs (5 * 60)"

definition RENEWAL_RETRY_MAX :: duration where
  "RENEWAL_RETRY_MAX = from_secs (6 * 60 * 60)"

definition renewal_retry_delay :: "u32 \<Rightarrow> duration" where
  "renewal_retry_delay failures =
     (let e = min (sat_sub failures 1) 16 in
      min (saturating_mul RENEWAL_RETRY_BASE (unat (push_bit (unat e) (1 :: u32)))) RENEWAL_RETRY_MAX)"

record renewal_backoff =
  failures :: u32
  retry_at :: "instant option"

definition RenewalBackoff_default :: renewal_backoff where
  "RenewalBackoff_default = \<lparr>failures = 0, retry_at = None\<rparr>"

definition backoff_failure :: "instant \<Rightarrow> renewal_backoff \<Rightarrow> renewal_backoff" where
  "backoff_failure now b =
     (let n = sat_add (failures b) 1 in
      b\<lparr>failures := n, retry_at := Some (now + renewal_retry_delay n)\<rparr>)"

text \<open>The renewal window, when the certificate is managed through ACME.\<close>

record resolver =
  cached_cert :: "(certified_key \<times> instant \<times> int) option"
  renew_before_secs :: "int option"
  renewing :: bool
  renewal_backoff :: renewal_backoff

definition DiskCertResolver_new :: "int option \<Rightarrow> resolver" where
  "DiskCertResolver_new window = \<lparr>cached_cert = None, renew_before_secs = window, renewing = False,
     renewal_backoff = RenewalBackoff_default\<rparr>"

text \<open>The result tells whether a renewal task was started.\<close>

definition maybe_trigger_renewal :: "instant \<Rightarrow> int \<Rightarrow> resolver \<Rightarrow> resolver \<times> bool" where
  "maybe_trigger_renewal now wall r =
     (case renew_before_secs r of
        None \<Rightarrow> (r, False)
      | Some window \<Rightarrow>
          (let expiry = (case cached_cert r of Some (_, _, t) \<Rightarrow> t | None \<Rightarrow> 2 ^ 63 - 1) in
           if window \<le> expiry - wall then (r, False)
           else if (case retry_at (renewal_backoff r) of Some t \<Rightarrow> now < t | None \<Rightarrow> False) then (r, False)
           else if renewing r then (r, False)
           else (r\<lparr>renewing := True\<rparr>, True)))"

text \<open>\<open>loaded\<close> is what reading the certificate from disk gives.\<close>

definition resolve :: "instant \<Rightarrow> int \<Rightarrow> cert_error + (certified_key \<times> int) \<Rightarrow> resolver \<Rightarrow>
    resolver \<times> certified_key option \<times> bool" where
  "resolve now wall loaded r =
     (case cached_cert r of
        Some (ck, loaded_at, _) \<Rightarrow>
          if now - loaded_at < from_secs 60
          then (case maybe_trigger_renewal now wall r of (r, started) \<Rightarrow> (r, Some ck, started))
          else
            (case loaded of
               Inr (ck', expiry) \<Rightarrow>
                 (case maybe_trigger_renewal now wall (r\<lparr>cached_cert := Some (ck', now, expiry)\<rparr>) of
                    (r, started) \<Rightarrow> (r, Some ck', started))
             | Inl _ \<Rightarrow> (r, Some ck, False))
      | None \<Rightarrow>
          (case loaded of
             Inr (ck', expiry) \<Rightarrow>
               (case maybe_trigger_renewal now wall (r\<lparr>cached_cert := Some (ck', now, expiry)\<rparr>) of
                  (r, started) \<Rightarrow> (r, Some ck', started))
           | Inl _ \<Rightarrow> (r, None, False)))"

text \<open>
  The end of the renewal task: the provisioning followed by a reload of the files, or a panic, after
  which only the guard is released.
\<close>

definition renewal_ends :: "instant \<Rightarrow> (cert_error + (certified_key \<times> int)) option \<Rightarrow> resolver \<Rightarrow> resolver" where
  "renewal_ends now res r =
     (case res of
        Some (Inr (ck, expiry)) \<Rightarrow>
          r\<lparr>cached_cert := Some (ck, now, expiry), renewal_backoff := RenewalBackoff_default\<rparr>
      | Some (Inl _) \<Rightarrow> r\<lparr>renewal_backoff := backoff_failure now (renewal_backoff r)\<rparr>
      | None \<Rightarrow> r)\<lparr>renewing := False\<rparr>"

text \<open>Handshakes and ends of renewals, in time; the number of renewal tasks that run is history.\<close>

inductive resolver_step :: "resolver \<times> nat \<times> instant \<Rightarrow> resolver \<times> nat \<times> instant \<Rightarrow> bool" where
  handshake: "now \<le> now' \<Longrightarrow> resolve now' wall loaded r = (r', ck, started) \<Longrightarrow>
    resolver_step (r, n, now) (r', (if started then Suc n else n), now')"
| renewal_done: "now \<le> now' \<Longrightarrow> 0 < n \<Longrightarrow> resolver_step (r, n, now) (renewal_ends now' res r, n - 1, now')"

definition resolver_init :: "int option \<Rightarrow> resolver \<times> nat \<times> instant \<Rightarrow> bool" where
  "resolver_init window s \<longleftrightarrow> fst s = DiskCertResolver_new window \<and> fst (snd s) = 0"

definition resolver_inv :: "resolver \<times> nat \<times> instant \<Rightarrow> bool" where
  "resolver_inv s \<longleftrightarrow> (case s of (r, n, now) \<Rightarrow> n = (if renewing r then 1 else 0))"

text \<open>What one handshake does.\<close>

lemma resolve_cases:
  assumes "resolve now wall loaded r = (r', ck, started)"
  shows "renewing r' = (renewing r \<or> started) \<and> (started \<longrightarrow> \<not> renewing r) \<and>
    (cached_cert r \<noteq> None \<longrightarrow> ck \<noteq> None) \<and> (ck \<noteq> None \<longleftrightarrow> cached_cert r' \<noteq> None) \<and>
    (started \<longrightarrow> (case retry_at (renewal_backoff r) of Some t \<Rightarrow> t \<le> now | None \<Rightarrow> True)) \<and>
    (started \<longrightarrow> (case (renew_before_secs r, cached_cert r') of
       (Some w, Some (_, _, expiry)) \<Rightarrow> expiry - wall < w | _ \<Rightarrow> False))"
  using assms
  by (auto simp: resolve_def maybe_trigger_renewal_def Let_def not_less split: option.splits prod.splits if_splits sum.splits)

interpretation resolving: invariant_of "resolver_init window" resolver_step resolver_inv for window
proof unfold_locales
  show "resolver_init window s \<Longrightarrow> resolver_inv s" for s
    by (cases s) (auto simp: resolver_init_def resolver_inv_def DiskCertResolver_new_def)
  show "resolver_inv s \<Longrightarrow> resolver_step s t \<Longrightarrow> resolver_inv t" for s t
    by (erule resolver_step.cases)
       (auto simp: resolver_inv_def renewal_ends_def dest!: resolve_cases split: if_splits)
qed


definition demo_key :: certified_key where
  "demo_key = ([[1]], 7)"


text \<open>The back-off doubles from five minutes and is capped at six hours, with no overflow.\<close>

lemma renewal_retry_delay_eq:
  assumes "0 < f"
  shows "renewal_retry_delay f = from_secs (min (300 * 2 ^ (unat f - 1)) 21600)"
proof -
  let ?e = "min (unat f - 1) 16"
  have e: "unat (min (sat_sub f 1) 16) = ?e"
    by (simp add: min_def word_le_nat_alt unat_sat_sub)
  have "(2 :: nat) ^ ?e < 2 ^ 32" by (rule power_strict_increasing) simp_all
  moreover have "push_bit ?e (1 :: u32) = of_nat (2 ^ ?e)" by (simp add: push_bit_eq_mult)
  ultimately have "unat (push_bit ?e (1 :: u32)) = 2 ^ ?e"
    by (simp only: unsigned_of_nat) (simp add: take_bit_nat_eq_self_iff)
  then have "renewal_retry_delay f = min (saturating_mul RENEWAL_RETRY_BASE (2 ^ ?e)) RENEWAL_RETRY_MAX"
    by (simp add: renewal_retry_delay_def e Let_def)
  also have "saturating_mul RENEWAL_RETRY_BASE (2 ^ ?e) = from_secs (300 * 2 ^ ?e)"
  proof -
    have "(2 :: nat) ^ ?e \<le> 2 ^ 16" by (rule power_increasing) simp_all
    then show ?thesis by (simp add: saturating_mul_def RENEWAL_RETRY_BASE_def DURATION_MAX_def from_secs_def)
  qed
  also have "min (from_secs (300 * 2 ^ ?e)) RENEWAL_RETRY_MAX = from_secs (min (300 * 2 ^ ?e) 21600)"
    by (simp add: RENEWAL_RETRY_MAX_def from_secs_def min_mult_distrib_right)
  also have "min (300 * 2 ^ ?e) 21600 = min (300 * 2 ^ (unat f - 1)) (21600 :: nat)"
  proof (cases "unat f - 1 \<le> 16")
    case False
    then have "(2 :: nat) ^ 16 \<le> 2 ^ (unat f - 1)" by (intro power_increasing) simp_all
    with False show ?thesis by (simp add: min_def)
  qed (simp add: min_def)
  finally show ?thesis .
qed

section \<open>Choosing a certificate\<close>

record server_config =
  bind_addr :: string
  api_port :: "16 word"
  pub_port :: "16 word"
  cfg_domain_suffixes :: "string list"
  cfg_cert_path :: "string option"
  cfg_key_path :: "string option"
  acme_domain :: "string option"
  acme_email :: "string option"
  acme_creds_path :: string
  acme_staging :: bool
  acme_directory_url :: "string option"
  acme_root_ca_path :: "string option"
  acme_renew_days_before_expiry :: u32

definition AcmeDirectory_from_config :: "server_config \<Rightarrow> acme_directory" where
  "AcmeDirectory_from_config cfg = \<lparr>staging = acme_staging cfg, dir_url = acme_directory_url cfg,
     root_ca_path = acme_root_ca_path cfg\<rparr>"

definition is_cert_expired :: "cert_libs \<Rightarrow> disk \<Rightarrow> files \<Rightarrow> int \<Rightarrow> string \<Rightarrow> bool" where
  "is_cert_expired x k fs wall path \<longleftrightarrow>
     (case (if read_ok k path then fs path else None) of
        None \<Rightarrow> True
      | Some pem \<Rightarrow> (case leaf_of x pem of Inl _ \<Rightarrow> True | Inr c \<Rightarrow> not_after c < wall))"

definition cert_path_of :: "server_config \<Rightarrow> string" where
  "cert_path_of cfg = (case cfg_cert_path cfg of Some p \<Rightarrow> p | None \<Rightarrow> ''server_cert.pem'')"

definition key_path_of :: "server_config \<Rightarrow> string" where
  "key_path_of cfg = (case cfg_key_path cfg of Some p \<Rightarrow> p | None \<Rightarrow> ''server.key'')"

text \<open>The two Let's Encrypt URLs are constants of the ACME library.\<close>

definition provision_args_of :: "string \<Rightarrow> string \<Rightarrow> server_config \<Rightarrow> string \<Rightarrow> provision_args" where
  "provision_args_of le_staging le_production cfg domain =
     (let dir = AcmeDirectory_from_config cfg in
      \<lparr>pa_domain = domain, pa_email = acme_email cfg, pa_root = root_ca_path dir,
       pa_url = directory_url le_staging le_production dir, pa_creds_path = acme_creds_path cfg,
       pa_cert_path = cert_path_of cfg, pa_key_path = key_path_of cfg\<rparr>)"

definition determine_cert :: "cert_libs \<Rightarrow> key_libs \<Rightarrow> disk \<Rightarrow> ca \<Rightarrow> string \<times> string \<Rightarrow> files \<Rightarrow> int \<Rightarrow> server_config \<Rightarrow>
    (server_event, cert_error + (string \<times> string \<times> bool) option) task" where
  "determine_cert x l k c le fs wall cfg =
     (let is_acme = (acme_domain cfg \<noteq> None); cert_p = cert_path_of cfg; key_p = key_path_of cfg in
      if cfg_cert_path cfg = None \<and> \<not> is_acme then tret (Inr None)
      else if \<not> is_cert_expired x k fs wall cert_p then tret (Inr (Some (cert_p, key_p, is_acme)))
      else
        (case acme_domain cfg of
           Some domain \<Rightarrow>
             terr (provision_acme_cert l k c fs (provision_args_of (fst le) (snd le) cfg domain)) (\<lambda>_.
               tret (Inr (Some (cert_p, key_p, True))))
         | None \<Rightarrow> tret (Inr None)))"

text \<open>The server's TLS configuration: a fresh self-signed certificate, or a resolver over two files.\<close>

datatype tls_source = SelfSigned string | OnDisk string string "int option"

definition build_server_tls_config :: "server_config \<Rightarrow> (string \<times> string \<times> bool) option \<Rightarrow> tls_source" where
  "build_server_tls_config cfg cert_paths =
     (case cert_paths of
        Some (cert_path, key_path, is_acme) \<Rightarrow>
          OnDisk cert_path key_path
            (if is_acme
             then map_option (\<lambda>_. int (unat (acme_renew_days_before_expiry cfg)) * 86400) (acme_domain cfg)
             else None)
      | None \<Rightarrow> SelfSigned ''tunnel'')"

lemma not_expired_leaf:
  assumes "\<not> is_cert_expired x k fs wall path"
  obtains pem c where "fs path = Some pem" "leaf_of x pem = Inr c" "wall \<le> not_after c"
  using assms by (auto simp: is_cert_expired_def split: option.splits sum.splits if_splits)

text \<open>
  The relay starts with a certificate from disk only if it is a certificate that has not
  expired or one that was provisioned just now; it renews it in the background exactly when it is
  configured for ACME; and without an ACME domain it neither writes a file nor contacts a CA.
\<close>

theorem relay_certificate_choice:
  assumes "result (determine_cert x l k c le fs wall cfg) = Some (Inr choice)"
  shows "(case build_server_tls_config cfg choice of
      SelfSigned _ \<Rightarrow> acme_domain cfg = None
    | OnDisk cert key win \<Rightarrow> cert = cert_path_of cfg \<and> key = key_path_of cfg \<and>
        (win \<noteq> None \<longleftrightarrow> acme_domain cfg \<noteq> None) \<and>
        ((\<exists>pem leaf. fs cert = Some pem \<and> leaf_of x pem = Inr leaf \<and> wall \<le> not_after leaf) \<or>
         (\<exists>d. acme_domain cfg = Some d \<and>
            result (provision_acme_cert l k c fs (provision_args_of (fst le) (snd le) cfg d)) = Some (Inr ())))) \<and>
    (acme_domain cfg = None \<longrightarrow> trace (determine_cert x l k c le fs wall cfg) = [])"
proof (cases "is_cert_expired x k fs wall (cert_path_of cfg)")
  case True
  then show ?thesis
    using assms
    by (auto simp: determine_cert_def build_server_tls_config_def Let_def result_terr split: option.splits if_splits)
next
  case False
  then show ?thesis
    using assms
    by (auto simp: determine_cert_def build_server_tls_config_def Let_def split: option.splits if_splits
        elim!: not_expired_leaf)
qed

section \<open>Examples\<close>

definition demo_cert_libs :: cert_libs where
  "demo_cert_libs = \<lparr>first_cert = (\<lambda>pem. Some (as_bytes pem)),
     parse_leaf = (\<lambda>der. Some \<lparr>not_before = 0, not_after = 900, dns_names = [''d''], spki = []\<rparr>),
     sec1_point = (\<lambda>_. None)\<rparr>"

definition demo_key_libs :: key_libs where
  "demo_key_libs = \<lparr>from_pem = (\<lambda>_. Some 1), serialize_pem = (\<lambda>_. ''key''), generate = Some 1,
     csr_for = (\<lambda>_ _. Some [1]), all_certs = (\<lambda>pem. Some [as_bytes pem]), private_key = (\<lambda>_. Some (Some 1)),
     supported_key = (\<lambda>_. True), creds_ok = (\<lambda>_. True), acceptor_for = (\<lambda>_ _. True)\<rparr>"

definition demo_disk :: disk where
  "demo_disk = \<lparr>read_ok = (\<lambda>_. True), write_ok = (\<lambda>_. True), rename_ok = (\<lambda>_. True)\<rparr>"

definition demo_ca :: ca where
  "demo_ca = \<lparr>ca_builder = (\<lambda>_. True), ca_restore = (\<lambda>_. Some (1, Inr ())),
     ca_create = (\<lambda>_ _. Some (1, Inr ''creds'')), ca_new_order = (\<lambda>_. Some (1, Inr demo_order))\<rparr>"

definition demo_args :: provision_args where
  "demo_args = \<lparr>pa_domain = ''d'', pa_email = None, pa_root = None, pa_url = ''u'', pa_creds_path = ''a'',
     pa_cert_path = ''c'', pa_key_path = ''k''\<rparr>"

definition demo_config :: server_config where
  "demo_config = \<lparr>bind_addr = ''0.0.0.0'', api_port = 8443, pub_port = 443, cfg_domain_suffixes = [],
     cfg_cert_path = Some ''c'', cfg_key_path = None, acme_domain = None, acme_email = None,
     acme_creds_path = ''a'', acme_staging = False, acme_directory_url = None, acme_root_ca_path = None,
     acme_renew_days_before_expiry = 30\<rparr>"

lemma demo_order_cert: "result (order_cert demo_key_libs demo_disk demo_ca demo_args key csr) = Some (Inr ())"
proof -
  have "result (finalize_acme_order demo_order ''d'' csr) = Some (Inr ''pem'')"
    unfolding finalize_acme_order_def result_terr
    by (simp add: demo_order_finalizes) (simp add: demo_order_def)
  then have "result (serve_challenge demo_order ''d'' ''ka'' csr) = Some (Inr ''pem'')"
    by (simp add: result_serve_challenge map_err_def)
  then show ?thesis
    by (simp add: order_cert_def result_terr demo_ca_def ask_def demo_args_def map_err_def)
       (simp add: demo_order_def demo_key_libs_def save_cert_def write_atomic_def demo_disk_def result_terr Let_def)
qed



theorem relay_certificate_choice_witness:
  "trace (determine_cert demo_cert_libs demo_key_libs demo_disk demo_ca ('''', '''') [''c'' \<mapsto> ''pem''] 100 demo_config) = []"
  using relay_certificate_choice [of demo_cert_libs demo_key_libs demo_disk demo_ca "('''', '''')"
      "[''c'' \<mapsto> ''pem'']" 100 demo_config "Some (''c'', ''server.key'', False)"]
  by (simp add: determine_cert_def demo_config_def Let_def cert_path_of_def key_path_of_def is_cert_expired_def
      demo_disk_def leaf_of_def demo_cert_libs_def)

end
