(* ===== verification/Relay_Run.thy ===== *)
theory Relay_Run
  imports Server_Cert H2_Transport
begin

text \<open>
  The relay as a whole (\<^verbatim>\<open>tunnel-server/src/lib.rs\<close>: \<open>run_until\<close>): it starts the public listener, chooses a
  certificate, starts the QUIC and the H2 listener, and runs until the public listener ends or a
  shutdown is asked for. The listeners themselves are in their own theories; here they are tasks that
  are spawned and aborted. What binding, the endpoint and the shutdown future do is \<open>relay_env\<close>.
\<close>

section \<open>Transport limits\<close>

definition QUIC_MAX_BIDI_STREAMS :: u32 where
  "QUIC_MAX_BIDI_STREAMS = 256"

definition QUIC_MAX_UNI_STREAMS :: u32 where
  "QUIC_MAX_UNI_STREAMS = 0"

definition QUIC_STREAM_RECEIVE_WINDOW :: u32 where
  "QUIC_STREAM_RECEIVE_WINDOW = 1024 * 1024"

definition QUIC_RECEIVE_WINDOW :: u32 where
  "QUIC_RECEIVE_WINDOW = 16 * 1024 * 1024"

record transport_config =
  max_concurrent_bidi_streams :: u32
  max_concurrent_uni_streams :: u32
  stream_receive_window :: u32
  receive_window :: u32
  max_idle_timeout :: duration
  keep_alive_interval :: duration

text \<open>An idle timeout is a variable-length integer of milliseconds: at most \<open>2 ^ 62 - 1\<close>.\<close>

definition quic_transport_config :: "transport_config option" where
  "quic_transport_config =
     (if as_millis QUIC_MAX_IDLE_TIMEOUT < 2 ^ 62
      then Some \<lparr>max_concurrent_bidi_streams = QUIC_MAX_BIDI_STREAMS,
             max_concurrent_uni_streams = QUIC_MAX_UNI_STREAMS,
             stream_receive_window = QUIC_STREAM_RECEIVE_WINDOW, receive_window = QUIC_RECEIVE_WINDOW,
             max_idle_timeout = QUIC_MAX_IDLE_TIMEOUT, keep_alive_interval = QUIC_KEEP_ALIVE_INTERVAL\<rparr>
      else None)"

section \<open>Running\<close>

definition SHUTDOWN_FLUSH :: duration where
  "SHUTDOWN_FLUSH = from_secs 2"

definition SHUTDOWN_REASON :: "byte list" where
  "SHUTDOWN_REASON = as_bytes ''relay shutting down''"

datatype listener = PublicListener | QuicListener | H2Listener

datatype run_event =
    Spawn listener
  | Abort listener
  | CloseEndpoint u32 "byte list"
  | AtServer server_event

datatype run_error = BindFailed string | CertFailed cert_error | EndpointFailed | ListenerFailed string

record relay_env =
  pub_bind :: bool
  quic_config :: bool
  quic_endpoint :: bool
  tcp_bind :: bool
  public_ends :: "(run_error + unit) fut"
  shutdown :: "unit fut"
  public_first :: bool
  wait_idle :: "unit fut"

definition lift_server :: "(server_event, cert_error + 'a) task \<Rightarrow> (run_event, run_error + 'a) task" where
  "lift_server m = Task (map (apsnd AtServer) (effects m)) (map_option (apsnd (map_err CertFailed)) (outcome m))"

fun emits :: "'e list \<Rightarrow> ('e, 'a) task \<Rightarrow> ('e, 'a) task" where
  "emits [] m = m"
| "emits (e # es) m = tthen (emit e) (emits es m)"

text \<open>What the guards in scope do when \<open>m\<close> returns.\<close>

definition dropping :: "'e list \<Rightarrow> ('e, 'a) task \<Rightarrow> ('e, 'a) task" where
  "dropping es m = tbind m (\<lambda>r. emits es (tret r))"

text \<open>The two branches of the final \<open>select!\<close>; a tie may go either way.\<close>

definition serve_until :: "relay_env \<Rightarrow> (run_event, run_error + unit) task" where
  "serve_until e =
     (let stop = (\<lambda>t. tthen (sleep t) (tthen (emit (CloseEndpoint 0 SHUTDOWN_REASON))
             (tbind (timeout SHUTDOWN_FLUSH (await (wait_idle e))) (\<lambda>_. tret (Inr ()))))) in
      case (public_ends e, shutdown e) of
        (Some (t, r), Some (u, _)) \<Rightarrow>
          if t < u \<or> t = u \<and> public_first e then await (public_ends e) else stop u
      | (_, None) \<Rightarrow> await (public_ends e)
      | (None, Some (u, _)) \<Rightarrow> stop u)"

definition serve_agents :: "relay_env \<Rightarrow> (run_event, run_error + unit) task" where
  "serve_agents e =
     (if \<not> quic_config e \<or> quic_transport_config = None then tret (Inl EndpointFailed)
      else if \<not> quic_endpoint e then tret (Inl EndpointFailed)
      else if \<not> tcp_bind e then tret (Inl (BindFailed ''api''))
      else
        emits [Spawn QuicListener, Spawn H2Listener]
          (dropping [CloseEndpoint 0 SHUTDOWN_REASON, Abort H2Listener, Abort QuicListener] (serve_until e)))"

text \<open>
  \<open>run_until\<close>, for any way of choosing the certificate; the relay's is \<open>determine_cert\<close>, and the
  TLS configuration of both agent listeners is \<open>build_server_tls_config\<close> of its choice.
\<close>

definition run_until :: "relay_env \<Rightarrow> (server_event, cert_error + (string \<times> string \<times> bool) option) task \<Rightarrow>
    (run_event, run_error + unit) task" where
  "run_until e choose_cert =
     (if \<not> pub_bind e then tret (Inl (BindFailed ''pub''))
      else
        emits [Spawn PublicListener]
          (dropping [Abort PublicListener]
             (terr (lift_server choose_cert) (\<lambda>cert_paths. serve_agents e))))"

definition relay_run_until :: "cert_libs \<Rightarrow> key_libs \<Rightarrow> disk \<Rightarrow> ca \<Rightarrow> string \<times> string \<Rightarrow> files \<Rightarrow> int \<Rightarrow>
    server_config \<Rightarrow> relay_env \<Rightarrow> (run_event, run_error + unit) task" where
  "relay_run_until x l k c le fs wall cfg e = run_until e (determine_cert x l k c le fs wall cfg)"

definition relay_run :: "cert_libs \<Rightarrow> key_libs \<Rightarrow> disk \<Rightarrow> ca \<Rightarrow> string \<times> string \<Rightarrow> files \<Rightarrow> int \<Rightarrow>
    server_config \<Rightarrow> relay_env \<Rightarrow> (run_event, run_error + unit) task" where
  "relay_run x l k c le fs wall cfg e = relay_run_until x l k c le fs wall cfg (e\<lparr>shutdown := None\<rparr>)"

section \<open>Nothing is left behind\<close>

text \<open>The listeners that run after a sequence of events; each is spawned once and aborted once.\<close>

fun running :: "listener list \<Rightarrow> run_event list \<Rightarrow> listener list option" where
  "running ls [] = Some ls"
| "running ls (Spawn l # es) = (if l \<in> set ls then None else running (l # ls) es)"
| "running ls (Abort l # es) = (if l \<in> set ls then running (remove1 l ls) es else None)"
| "running ls (_ # es) = running ls es"

lemma running_append: "running ls (es @ fs) = Option.bind (running ls es) (\<lambda>ls'. running ls' fs)"
  by (induction ls es rule: running.induct) auto

lemma running_server [simp]: "running ls (map AtServer es) = Some ls"
  by (induction es) auto

lemma emits_simps [simp]:
  "trace (emits es m) = es @ trace m" "result (emits es m) = result m" "finish (emits es m) = finish m"
  by (induction es) simp_all

lemma dropping_simps [simp]:
  "trace (dropping es m) = trace m @ (if result m = None then [] else es)"
  "result (dropping es m) = result m" "finish (dropping es m) = finish m"
proof -
  show "trace (dropping es m) = trace m @ (if result m = None then [] else es)"
    by (cases "result m") (simp_all add: dropping_def trace_tbind)
  show "result (dropping es m) = result m"
    by (cases "result m") (simp_all add: dropping_def result_tbind)
  show "finish (dropping es m) = finish m"
    by (cases "outcome m") (auto simp: dropping_def finish_tbind, simp_all add: finish_def)
qed

lemma trace_lift_server [simp]: "trace (lift_server m) = map AtServer (trace m)"
  by (simp add: trace_def lift_server_def comp_def)

lemma trace_timeout_await [simp]: "trace (timeout d (await f)) = []"
  by (auto simp: trace_def timeout_def split: option.split)

lemma trace_serve_until:
  "trace (serve_until e) = [] \<or> trace (serve_until e) = [CloseEndpoint 0 SHUTDOWN_REASON]"
  by (auto simp: serve_until_def Let_def trace_tbind tthen_sleep split: option.splits)

lemma serve_agents_clean:
  assumes "result (serve_agents e) \<noteq> None"
  shows "running [PublicListener] (trace (serve_agents e)) = Some [PublicListener] \<and>
    (Spawn QuicListener \<in> set (trace (serve_agents e)) \<longrightarrow>
       CloseEndpoint 0 SHUTDOWN_REASON \<in> set (trace (serve_agents e)))"
proof (cases "quic_config e \<and> quic_transport_config \<noteq> None \<and> quic_endpoint e \<and> tcp_bind e")
  case True
  then have a: "serve_agents e = emits [Spawn QuicListener, Spawn H2Listener]
      (dropping [CloseEndpoint 0 SHUTDOWN_REASON, Abort H2Listener, Abort QuicListener] (serve_until e))"
    by (auto simp: serve_agents_def)
  with assms trace_serve_until [of e] show ?thesis by (auto simp: a running_append)
qed (auto simp: serve_agents_def)

text \<open>
  C33. The relay leaves nothing behind: however \<open>run_until\<close> returns, on a failed start, the end of the
  public listener or a shutdown, every listener it spawned has been aborted, none was spawned twice,
  and agents that could have connected over QUIC have been sent a close frame.
\<close>

theorem relay_leaves_nothing:
  assumes "result (run_until e choose_cert) \<noteq> None"
  shows "running [] (trace (run_until e choose_cert)) = Some [] \<and>
    (Spawn QuicListener \<in> set (trace (run_until e choose_cert)) \<longrightarrow>
       CloseEndpoint 0 SHUTDOWN_REASON \<in> set (trace (run_until e choose_cert)))"
proof (cases "pub_bind e")
  case True
  let ?m = "terr (lift_server choose_cert) (\<lambda>cert_paths. serve_agents e)"
  have r: "result ?m \<noteq> None" using assms True by (simp add: run_until_def)
  have t: "trace (run_until e choose_cert) = Spawn PublicListener # trace ?m @ [Abort PublicListener]"
    using r True by (simp add: run_until_def)
  have "running [PublicListener] (trace ?m) = Some [PublicListener] \<and>
      (Spawn QuicListener \<in> set (trace ?m) \<longrightarrow> CloseEndpoint 0 SHUTDOWN_REASON \<in> set (trace ?m))"
  proof (cases rule: terr_course [of "lift_server choose_cert" "\<lambda>cert_paths. serve_agents e", case_names stops continues])
    case stops
    then show ?thesis by auto
  next
    case (continues c)
    with r serve_agents_clean [of e] show ?thesis by (auto simp: running_append)
  qed
  then show ?thesis by (simp add: t running_append)
qed (simp add: run_until_def)

text \<open>
  A shutdown takes effect: once the relay serves, it returns successfully at most two seconds
  after the shutdown future resolves, whether or not the agents acknowledge the close.
\<close>

lemma shutdown_stops:
  assumes "pub_bind e" "quic_config e" "quic_endpoint e" "tcp_bind e"
    and "outcome choose_cert = Some (s, Inr paths)" and "public_ends e = None" and "shutdown e = Some (u, ())"
  shows "\<exists>t \<le> s + u + SHUTDOWN_FLUSH. outcome (run_until e choose_cert) = Some (t, Inr ())"
proof -
  have "quic_transport_config \<noteq> None"
    by (simp add: quic_transport_config_def QUIC_MAX_IDLE_TIMEOUT_def H2_PING_INTERVAL_def H2_PING_TIMEOUT_def
        as_millis_def as_secs_def from_secs_def)
  obtain v r where v: "outcome (timeout SHUTDOWN_FLUSH (await (wait_idle e) :: (run_event, _) task)) = Some (v, r)"
    "v \<le> SHUTDOWN_FLUSH"
    using timeout_resolves by blast
  have "outcome (serve_until e) = Some (u + v, Inr ())"
    using assms(6,7) v(1) by (simp add: serve_until_def tthen_sleep task_simps tthen_emit tbind_def)
  then have "outcome (serve_agents e) = Some (u + v, Inr ())"
    using assms \<open>quic_transport_config \<noteq> None\<close>
    by (simp add: serve_agents_def dropping_def tbind_def task_simps tthen_emit)
  moreover have "outcome (lift_server choose_cert) = Some (s, Inr paths)"
    using assms(5) by (simp add: lift_server_def map_err_def)
  ultimately have "outcome (run_until e choose_cert) = Some (s + (u + v), Inr ())"
    using assms(1) by (simp add: run_until_def dropping_def terr_def tbind_def task_simps tthen_emit)
  with v(2) show ?thesis by (intro exI [of _ "s + (u + v)"]) simp
qed

definition demo_relay :: relay_env where
  "demo_relay = \<lparr>pub_bind = True, quic_config = True, quic_endpoint = True, tcp_bind = True,
     public_ends = None, shutdown = Some (5, ()), public_first = False, wait_idle = None\<rparr>"

theorem relay_leaves_nothing_witness:
  "running [] (trace (run_until (demo_relay\<lparr>tcp_bind := False\<rparr>) (tret (Inr None)))) = Some []"
proof (rule relay_leaves_nothing [THEN conjunct1])
  show "result (run_until (demo_relay\<lparr>tcp_bind := False\<rparr>) (tret (Inr None))) \<noteq> None"
    by (simp add: run_until_def demo_relay_def lift_server_def serve_agents_def terr_def result_tbind)
       (simp add: result_def map_err_def)
qed

end
