(* ===== verification/Client_Setup.thy ===== *)
theory Client_Setup
  imports Quic_Listener Connection_Run H2_Transport
begin

text \<open>
  Setting the client up (\<^verbatim>\<open>tunnel-client/src/client.rs\<close>: \<open>TunnelClient::new\<close>, \<open>build_connection\<close>,
  \<open>sign_recoverable\<close>, the choice of the TLS mode; \<^verbatim>\<open>tunnel-client/src/key.rs\<close>), the opening of the control
  exchange, and that the relay accepts the identity the client built for itself. The crates behind
  it (P-256, certificate generation, TLS configuration) are the fields of \<open>client_libs\<close>; hashing,
  encodings and key recovery are those of the relay's \<open>libs\<close>.
\<close>

section \<open>Keys\<close>

datatype key_algorithm = Ed25519 | EcdsaP256

datatype signature_scheme = RSA_PSS_SHA256 | ED25519 | ECDSA_NISTP256_SHA256 | ECDSA_NISTP384_SHA384

definition rustls_scheme :: "key_algorithm \<Rightarrow> signature_scheme" where
  "rustls_scheme a = (case a of Ed25519 \<Rightarrow> ED25519 | EcdsaP256 \<Rightarrow> ECDSA_NISTP256_SHA256)"

definition spki_oid :: "key_algorithm \<Rightarrow> nat list" where
  "spki_oid a = (case a of Ed25519 \<Rightarrow> [1, 3, 101, 112] | EcdsaP256 \<Rightarrow> [1, 2, 840, 10045, 2, 1])"

definition spki_curve_oid :: "key_algorithm \<Rightarrow> nat list option" where
  "spki_curve_oid a = (case a of Ed25519 \<Rightarrow> None | EcdsaP256 \<Rightarrow> Some [1, 2, 840, 10045, 3, 1, 7])"

text \<open>A \<open>TunnelKey\<close>: the private part stays behind \<open>key_sign\<close>.\<close>

record tunnel_key =
  algorithm :: key_algorithm
  public_key_raw :: "byte list"
  key_sign :: "byte list \<Rightarrow> string + byte list"

definition choose_scheme :: "tunnel_key \<Rightarrow> signature_scheme list \<Rightarrow> signature_scheme option" where
  "choose_scheme k offered =
     (let scheme = rustls_scheme (algorithm k) in if scheme \<in> set offered then Some scheme else None)"

text \<open>The PKCS#8 loaders, over the key pairs (\<open>'k\<close>) of the certificate library.\<close>

record 'k key_loader =
  try_from_der :: "byte list \<Rightarrow> 'k option"
  is_compatible :: "'k \<Rightarrow> key_algorithm \<Rightarrow> bool"
  seed_to_pkcs8 :: "byte list \<Rightarrow> byte list"
  from_pkcs8_with :: "byte list \<Rightarrow> key_algorithm \<Rightarrow> 'k option"

definition from_pkcs8_der :: "'k key_loader \<Rightarrow> byte list \<Rightarrow> string + 'k \<times> key_algorithm" where
  "from_pkcs8_der l der =
     (case try_from_der l der of
        None \<Rightarrow> Inl ''invalid key''
      | Some k \<Rightarrow>
          if is_compatible l k EcdsaP256 then Inr (k, EcdsaP256)
          else if is_compatible l k Ed25519 then Inr (k, Ed25519)
          else Inl ''unsupported keypair algorithm in PKCS#8 DER'')"

definition from_ed25519_seed :: "'k key_loader \<Rightarrow> byte list \<Rightarrow> string + 'k \<times> key_algorithm" where
  "from_ed25519_seed l seed =
     (if length seed \<noteq> 32 then Inl ''ed25519 seed must be 32 bytes''
      else (case from_pkcs8_with l (seed_to_pkcs8 l seed) Ed25519 of
          None \<Rightarrow> Inl ''invalid key''
        | Some k \<Rightarrow> Inr (k, Ed25519)))"

text \<open>The primary key handed over the foreign surface: a raw seed, or PKCS#8.\<close>

definition primary_key :: "'k key_loader \<Rightarrow> key_algorithm \<Rightarrow> byte list \<Rightarrow> string + 'k \<times> key_algorithm" where
  "primary_key l a bytes =
     (case a of
        Ed25519 \<Rightarrow> map_sum ((@) ''ed25519 keypair: '') id
          (if length bytes = 32 then from_ed25519_seed l bytes else from_pkcs8_der l bytes)
      | EcdsaP256 \<Rightarrow> map_sum ((@) ''p256 keypair (expect PKCS#8 DER): '') id (from_pkcs8_der l bytes))"

section \<open>Connections\<close>

record client_libs =
  relay_libs :: libs
  from_sec1_bytes :: "byte list \<Rightarrow> byte list option"
  sig_from_der :: "byte list \<Rightarrow> byte list option"
  normalize_s :: "byte list \<Rightarrow> byte list option"
  from_trial_recovery :: "byte list \<Rightarrow> byte list \<Rightarrow> byte list \<Rightarrow> byte list option"
  self_signed :: "byte list option \<Rightarrow> tunnel_key \<Rightarrow> byte list option"
  client_tls :: "byte list \<Rightarrow> tunnel_key \<Rightarrow> bool \<Rightarrow> bool"
  serialize_request :: "string \<Rightarrow> tunnel_key \<Rightarrow> byte list option"

record connection =
  client_id :: string
  conn_domain :: string
  url :: string
  agent_cert :: "byte list"
  agent_keypair :: tunnel_key
  identity_keypair :: tunnel_key
  csr_der :: "byte list option"

datatype setup_error =
    NotP256 string
  | NoRelays
  | EmptyPool
  | BadPolicy policy_error
  | BadKeepalive string
  | BadPublicKey string
  | CertGeneration
  | TlsConfig
  | CsrGeneration

definition id_bytes :: "client_libs \<Rightarrow> tunnel_key \<Rightarrow> setup_error + byte list" where
  "id_bytes l k =
     (case algorithm k of
        Ed25519 \<Rightarrow>
          if length (public_key_raw k) = 32 then Inr (public_key_raw k)
          else Inl (BadPublicKey ''Ed25519 identity public_key_raw()'')
      | EcdsaP256 \<Rightarrow>
          (case from_sec1_bytes l (public_key_raw k) of
             None \<Rightarrow> Inl (BadPublicKey ''parse identity pubkey for client_id'')
           | Some vk \<Rightarrow> Inr (to_encoded_point (relay_libs l) vk)))"

definition build_connection :: "client_libs \<Rightarrow> tunnel_key \<Rightarrow> tunnel_key \<Rightarrow> string \<Rightarrow> byte list option \<Rightarrow> bool \<Rightarrow> bool \<Rightarrow>
    setup_error + connection" where
  "build_connection l agent identity domain_suffix ext acme_staging need_csr =
     (case id_bytes l identity of
        Inl e \<Rightarrow> Inl e
      | Inr bytes \<Rightarrow>
          (let cid = hex_encode (relay_libs l) (take 8 (sha256 (relay_libs l) bytes));
               domain = cid @ ''.'' @ domain_suffix in
           case self_signed l ext agent of
             None \<Rightarrow> Inl CertGeneration
           | Some cert \<Rightarrow>
               if \<not> client_tls l cert agent acme_staging then Inl TlsConfig
               else
                 (let conn = \<lparr>client_id = cid, conn_domain = domain, url = ''https://'' @ domain,
                        agent_cert = cert, agent_keypair = agent, identity_keypair = identity, csr_der = None\<rparr> in
                  if need_csr
                  then (case serialize_request l domain identity of
                      None \<Rightarrow> Inl CsrGeneration
                    | Some csr \<Rightarrow> Inr (conn\<lparr>csr_der := Some csr\<rparr>))
                  else Inr conn)))"

datatype sign_failure = SignFailed string | BadDer | BadIdentityKey | NotRecoverable | BadLength nat

definition sign_recoverable :: "client_libs \<Rightarrow> tunnel_key \<Rightarrow> byte list \<Rightarrow> sign_failure + byte list" where
  "sign_recoverable l k msg =
     (case key_sign k msg of
        Inl e \<Rightarrow> Inl (SignFailed e)
      | Inr der \<Rightarrow>
          (case sig_from_der l der of
             None \<Rightarrow> Inl BadDer
           | Some s \<Rightarrow>
               (let s = (case normalize_s l s of Some n \<Rightarrow> n | None \<Rightarrow> s) in
                case from_sec1_bytes l (public_key_raw k) of
                  None \<Rightarrow> Inl BadIdentityKey
                | Some vk \<Rightarrow>
                    (case from_trial_recovery l vk msg s of
                       None \<Rightarrow> Inl NotRecoverable
                     | Some bytes \<Rightarrow> if length bytes \<noteq> 65 then Inl (BadLength (length bytes)) else Inr bytes))))"

section \<open>The client\<close>

record identity_config =
  keypair :: tunnel_key
  cert_extension :: "byte list option"

record tunnel_config =
  server_addrs :: "string list"
  local_addr :: string
  secondary_local_addr :: "string option"
  domain_suffix :: string
  force_h2 :: bool
  cfg_pool_size :: nat
  cfg_acme_email :: "string option"
  cfg_acme_creds_path :: string
  cfg_acme_staging :: bool
  cfg_cert_pem :: "string option"
  primary_identity :: identity_config
  reconnect :: reconnect_policy
  keepalive :: h2_keepalive
  self_signed_identity :: "identity_config option"

record client =
  config :: tunnel_config
  primary :: connection
  secondary :: "connection option"

definition TunnelClient_new :: "client_libs \<Rightarrow> tunnel_config \<Rightarrow> setup_error + client" where
  "TunnelClient_new l cfg =
     (let pk = keypair (primary_identity cfg); sec = self_signed_identity cfg in
      if algorithm pk \<noteq> EcdsaP256 then Inl (NotP256 ''primary_identity'')
      else if (case sec of Some s \<Rightarrow> algorithm (keypair s) \<noteq> EcdsaP256 | None \<Rightarrow> False)
      then Inl (NotP256 ''self_signed_identity'')
      else if server_addrs cfg = [] then Inl NoRelays
      else if cfg_pool_size cfg = 0 then Inl EmptyPool
      else
        (case policy_validate (reconnect cfg) of
           Inl e \<Rightarrow> Inl (BadPolicy e)
         | Inr _ \<Rightarrow>
             (case H2KeepAlive_validate (keepalive cfg) of
                Inl e \<Rightarrow> Inl (BadKeepalive e)
              | Inr _ \<Rightarrow>
                  (case build_connection l (case sec of Some s \<Rightarrow> keypair s | None \<Rightarrow> pk) pk (domain_suffix cfg)
                          (cert_extension (primary_identity cfg)) (cfg_acme_staging cfg) True of
                     Inl e \<Rightarrow> Inl e
                   | Inr prim \<Rightarrow>
                       (case sec of
                          None \<Rightarrow> Inr \<lparr>config = cfg, primary = prim, secondary = None\<rparr>
                        | Some s \<Rightarrow>
                            (case build_connection l (keypair s) (keypair s) (domain_suffix cfg)
                                    (cert_extension s) (cfg_acme_staging cfg) False of
                               Inl e \<Rightarrow> Inl e
                             | Inr second \<Rightarrow> Inr \<lparr>config = cfg, primary = prim, secondary = Some second\<rparr>))))))"

section \<open>TLS mode\<close>

datatype tls_mode = Named | BareIp

text \<open>\<open>parse_ip\<close> is whether a string parses as an IP address.\<close>

definition server_name_from_addr :: "(string \<Rightarrow> bool) \<Rightarrow> string \<Rightarrow> string option" where
  "server_name_from_addr parse_ip addr =
     (let host = (case rsplit_once (CHR '':'') addr of Some (h, _) \<Rightarrow> h | None \<Rightarrow> addr) in
      if parse_ip host then None else Some host)"

definition for_addr :: "(string \<Rightarrow> bool) \<Rightarrow> string \<Rightarrow> tls_mode \<times> string" where
  "for_addr parse_ip addr =
     (case server_name_from_addr parse_ip addr of
        Some name \<Rightarrow> (Named, name)
      | None \<Rightarrow> (BareIp, ''localhost''))"

text \<open>
  A bracketed IPv6 address, the form that carries a port, is taken for the name of a relay: the
  parser of addresses does not accept the brackets.
\<close>

lemma bracketed_ip_is_named:
  assumes "\<And>h. parse_ip (CHR ''['' # h) = False" and "CHR '':'' \<notin> set port"
  shows "for_addr parse_ip (CHR ''['' # ip @ '']:'' @ port) = (Named, CHR ''['' # ip @ '']'')"
proof -
  have "rsplit_once (CHR '':'') (CHR ''['' # ip @ '']:'' @ port) = Some (CHR ''['' # ip @ '']'', port)"
    using assms(2) by (simp add: rsplit_once_Some)
  then show ?thesis by (simp add: for_addr_def server_name_from_addr_def assms(1))
qed

section \<open>Opening the control exchange\<close>

datatype opening_error = WriteFailed ctrl_error | CannotSign sign_failure

text \<open>The first two steps on the control stream: the domain, and the signature over it.\<close>

definition quic_opening :: "client_libs \<Rightarrow> connection \<Rightarrow> sink \<Rightarrow> sink \<times> (opening_error + unit)" where
  "quic_opening l c w =
     (case ctrl_write w (as_bytes (conn_domain c)) of
        (w, Inl e) \<Rightarrow> (w, Inl (WriteFailed e))
      | (w, Inr _) \<Rightarrow>
          (case sign_recoverable l (identity_keypair c) (as_bytes (conn_domain c)) of
             Inl e \<Rightarrow> (w, Inl (CannotSign e))
           | Inr s \<Rightarrow>
               (case ctrl_write w s of
                  (w, Inl e) \<Rightarrow> (w, Inl (WriteFailed e))
                | (w, Inr _) \<Rightarrow> (w, Inr ()))))"

lemma ctrl_write_Inr:
  assumes "ctrl_write w d = (w', Inr u)"
  shows "length d \<le> MAX_CTRL_FRAME \<and> sent w' = sent w @ frame d"
  using assms
  by (auto simp: ctrl_write_def write_all_def frame_def split: if_splits prod.splits bool.splits option.splits)

lemma quic_opening_Inr:
  assumes "quic_opening l c w = (w', Inr u)"
  obtains s where "sign_recoverable l (identity_keypair c) (as_bytes (conn_domain c)) = Inr s"
    and "length (as_bytes (conn_domain c)) \<le> MAX_CTRL_FRAME" and "length s \<le> MAX_CTRL_FRAME"
    and "sent w' = sent w @ frame (as_bytes (conn_domain c)) @ frame s"
  using assms
  by (auto simp: quic_opening_def split: prod.splits sum.splits dest!: ctrl_write_Inr)

lemma build_connection_Inr:
  assumes "build_connection l agent identity suffix ext st csr = Inr c" and "algorithm identity = EcdsaP256"
  obtains vk where "from_sec1_bytes l (public_key_raw identity) = Some vk"
    and "client_id c = id_from_pubkey (relay_libs l) (to_encoded_point (relay_libs l) vk)"
    and "conn_domain c = client_id c @ CHR ''.'' # suffix" and "identity_keypair c = identity"
  using assms
  by (auto simp: build_connection_def id_bytes_def id_from_pubkey_def Let_def
      split: option.splits if_splits)

lemma sign_recoverable_Inr:
  assumes "sign_recoverable l k msg = Inr s"
  obtains vk r where "from_sec1_bytes l (public_key_raw k) = Some vk"
    and "from_trial_recovery l vk msg r = Some s" and "length s = 65"
  using assms by (auto simp: sign_recoverable_def Let_def split: sum.splits option.splits if_splits)

text \<open>What the P-256 and hex libraries document.\<close>

definition recovers :: "client_libs \<Rightarrow> bool" where
  "recovers l \<longleftrightarrow> (\<forall>vk msg s b. from_trial_recovery l vk msg s = Some b \<longrightarrow>
     (\<exists>r. sig_try_from (relay_libs l) b = Some r \<and> recover_verifying_key (relay_libs l) r msg = Some vk))"

definition hex_digits :: "client_libs \<Rightarrow> bool" where
  "hex_digits l \<longleftrightarrow> (\<forall>bs. CHR ''.'' \<notin> set (hex_encode (relay_libs l) bs))"

lemma honest_recover:
  assumes "recovers l" and "hex_digits l"
    and "build_connection l agent identity suffix ext st csr = Inr c" and "algorithm identity = EcdsaP256"
    and "sign_recoverable l (identity_keypair c) (as_bytes (conn_domain c)) = Inr s"
  shows "recover_identity_pubkey (relay_libs l) (conn_domain c) s \<noteq> None \<and>
    split_next (CHR ''.'') (conn_domain c) = client_id c"
proof -
  from build_connection_Inr [OF assms(3,4)] obtain vk where vk: "from_sec1_bytes l (public_key_raw identity) = Some vk"
    and cid: "client_id c = id_from_pubkey (relay_libs l) (to_encoded_point (relay_libs l) vk)"
    and dom: "conn_domain c = client_id c @ CHR ''.'' # suffix" and idk: "identity_keypair c = identity" .
  from sign_recoverable_Inr [OF assms(5)] vk idk obtain n where "from_trial_recovery l vk (as_bytes (conn_domain c)) n = Some s"
    by auto
  with assms(1) obtain r where r: "sig_try_from (relay_libs l) s = Some r"
    "recover_verifying_key (relay_libs l) r (as_bytes (conn_domain c)) = Some vk"
    unfolding recovers_def by blast
  have "CHR ''.'' \<notin> set (client_id c)" using assms(2) by (simp add: cid id_from_pubkey_def hex_digits_def)
  then have "split_next (CHR ''.'') (conn_domain c) = client_id c" by (simp add: dom split_next_append)
  with r cid show ?thesis by (simp add: recover_identity_pubkey_def Let_def)
qed

text \<open>The relay's verdict on an honest client's domain and signature.\<close>

lemma honest_verdict:
  assumes "recovers l" and "hex_digits l"
    and "build_connection l agent identity sfx ext st csr = Inr c" and "algorithm identity = EcdsaP256"
    and "sign_recoverable l (identity_keypair c) (as_bytes (conn_domain c)) = Inr s"
    and "from_utf8 (as_bytes (conn_domain c)) = Some (conn_domain c)"
    and "sfxs = [] \<or> sfx \<in> set sfxs"
    and "case tok of None \<Rightarrow> True | Some src \<Rightarrow> (\<exists>recs. dns (txt_name (txt_host (conn_domain c))) = Inr recs \<and>
      as_bytes (compute_txt_expected (relay_libs l) src (txt_host (conn_domain c))) \<in> set (concat recs))"
  shows "auth_verdict (relay_libs l) sfxs tok dns (as_bytes (conn_domain c)) s = Accept (client_id c)"
proof -
  obtain vk where "conn_domain c = client_id c @ CHR ''.'' # sfx"
    using build_connection_Inr [OF assms(3,4)] by metis
  then have "allowed_suffix (conn_domain c) sfxs"
    using assms(7) by (auto simp: allowed_suffix_iff)
  then show ?thesis
    using honest_recover [OF assms(1-5)] assms(6,8)
    by (auto simp: auth_verdict_def txt_authorizes_iff split: option.splits)
qed

text \<open>
  The relay lets an honest client in: what a client writes to open the control exchange, with the
  identity it derived from its own key, is accepted by the relay under exactly the client id the
  client computed, whatever the timing, provided the relay allows the suffix and, when the client
  brings a deployment source, DNS publishes that source's marker for the host.
\<close>

theorem honest_client_accepted:
  assumes "recovers l" and "hex_digits l"
    and "build_connection l agent identity suffix ext st csr = Inr c" and "algorithm identity = EcdsaP256"
    and "quic_opening l c w = (w', Inr ())" and "sent w = []" and "contents r = sent w' @ rest"
    and "from_utf8 (as_bytes (conn_domain c)) = Some (conn_domain c)"
    and "domain_suffixes ctx = [] \<or> suffix \<in> set (domain_suffixes ctx)"
    and "\<And>n. n \<le> MAX_CTRL_FRAME \<Longrightarrow> alloc n" and "\<And>n. txt_lookup ctx n = Some (t n, dns n)"
    and "case tok of None \<Rightarrow> True | Some src \<Rightarrow> (\<exists>recs. dns (txt_name (txt_host (conn_domain c))) = Inr recs \<and>
      as_bytes (compute_txt_expected (relay_libs l) src (txt_host (conn_domain c))) \<in> set (concat recs))"
  shows "\<exists>r'. contents r' = rest \<and>
    result (quic_auth_exchange (relay_libs l) alloc ctx tok r) = Some (Some (client_id c, r'))"
proof -
  from quic_opening_Inr [OF assms(5)] obtain s where
    s: "sign_recoverable l (identity_keypair c) (as_bytes (conn_domain c)) = Inr s"
    and len: "length (as_bytes (conn_domain c)) \<le> MAX_CTRL_FRAME" "length s \<le> MAX_CTRL_FRAME"
    and sent: "sent w' = sent w @ frame (as_bytes (conn_domain c)) @ frame s" .
  have "auth_verdict (relay_libs l) (domain_suffixes ctx) tok dns (as_bytes (conn_domain c)) s =
      Accept (client_id c)"
    by (rule honest_verdict [OF assms(1-4) s assms(8,9), where tok = tok and dns = dns, OF assms(12)])
  moreover have "contents r = frame (as_bytes (conn_domain c)) @ frame s @ rest"
    using assms(6,7) sent by simp
  ultimately show ?thesis
    using quic_auth_exchange_verdict [of r "as_bytes (conn_domain c)" s rest alloc ctx t dns "relay_libs l" tok,
        OF _ len assms(10,11)] by auto
qed

definition demo_client_libs :: client_libs where
  "demo_client_libs = \<lparr>relay_libs = demo_libs\<lparr>hex_encode := map (\<lambda>_. CHR ''a'')\<rparr>,
     from_sec1_bytes = Some, sig_from_der = Some, normalize_s = (\<lambda>_. None),
     from_trial_recovery = (\<lambda>vk msg s. Some (msg @ vk)), self_signed = (\<lambda>_ _. Some [1]),
     client_tls = (\<lambda>_ _ _. True), serialize_request = (\<lambda>_ _. Some [2])\<rparr>"

definition demo_identity :: tunnel_key where
  "demo_identity = \<lparr>algorithm = EcdsaP256, public_key_raw = replicate 55 7, key_sign = (\<lambda>_. Inr [])\<rparr>"

definition demo_connection :: connection where
  "demo_connection = projr (build_connection demo_client_libs demo_identity demo_identity ''x'' None False True)"

lemma demo_libs_laws: "recovers demo_client_libs" "hex_digits demo_client_libs"
  by (auto simp: recovers_def hex_digits_def demo_client_libs_def demo_libs_def)

lemma demo_connection_built:
  "build_connection demo_client_libs demo_identity demo_identity ''x'' None False True = Inr demo_connection"
  "client_id demo_connection = ''aaaaaaaa''" "conn_domain demo_connection = ''aaaaaaaa.x''"
  "identity_keypair demo_connection = demo_identity"
  by (simp_all add: demo_connection_def build_connection_def id_bytes_def demo_client_libs_def demo_identity_def
      demo_libs_def Let_def numeral_eq_Suc)

lemma demo_opening:
  "snd (quic_opening demo_client_libs demo_connection \<lparr>sent = [], room = None\<rparr>) = Inr ()"
proof -
  have "sign_recoverable demo_client_libs demo_identity (as_bytes ''aaaaaaaa.x'') =
      Inr (as_bytes ''aaaaaaaa.x'' @ replicate 55 7)"
    by (simp add: sign_recoverable_def demo_client_libs_def demo_identity_def)
  then show ?thesis
    by (simp add: quic_opening_def demo_connection_built ctrl_write_ok MAX_CTRL_FRAME_def)
qed

theorem honest_client_accepted_witness:
  "\<exists>r'. contents r' = [] \<and> result (quic_auth_exchange (relay_libs demo_client_libs) (\<lambda>_. True)
     \<lparr>domain_suffixes = [''x''], auth_handler = None, txt_lookup = \<lambda>_. Some (3, Inl '''')\<rparr> None
     (instantly (sent (fst (quic_opening demo_client_libs demo_connection \<lparr>sent = [], room = None\<rparr>)) @ []))) =
   Some (Some (''aaaaaaaa'', r'))"
proof -
  let ?w = "\<lparr>sent = [], room = None\<rparr>"
  have o: "quic_opening demo_client_libs demo_connection ?w =
      (fst (quic_opening demo_client_libs demo_connection ?w), Inr ())"
    using demo_opening by (simp add: prod_eq_iff)
  have "from_utf8 (as_bytes ''aaaaaaaa.x'') = Some ''aaaaaaaa.x''" by code_simp
  then show ?thesis
    using honest_client_accepted [OF demo_libs_laws demo_connection_built(1) _ o, where rest = "[]" and tok = None
        and t = "\<lambda>_. 3" and dns = "\<lambda>_. Inl ''''" and alloc = "\<lambda>_. True"
        and ctx = "\<lparr>domain_suffixes = [''x''], auth_handler = None, txt_lookup = \<lambda>_. Some (3, Inl '''')\<rparr>"]
    by (simp add: demo_connection_built demo_identity_def)
qed

section \<open>Running all connections\<close>

definition PRIMARY_TAG :: string where "PRIMARY_TAG = ''PRI''"
definition SECONDARY_TAG :: string where "SECONDARY_TAG = ''SEC''"

text \<open>The connection tasks in the order in which they are spawned; a task's id is its position.\<close>

definition spawn_all :: "client \<Rightarrow> (string \<times> string) list" where
  "spawn_all c = concat (map (\<lambda>addr. (PRIMARY_TAG, addr) #
     (if secondary c \<noteq> None then [(SECONDARY_TAG, addr)] else [])) (server_addrs (config c)))"

type_synonym owners = "nat \<rightharpoonup> string \<times> string"

definition owners_of :: "(string \<times> string) list \<Rightarrow> owners" where
  "owners_of tasks = (\<lambda>i. if i < length tasks then Some (tasks ! i) else None)"

definition owner_of :: "owners \<Rightarrow> nat \<Rightarrow> owners \<times> (string \<times> string)" where
  "owner_of owners i =
     (owners(i := None), case owners i of Some o' \<Rightarrow> o' | None \<Rightarrow> (''?'', ''?''))"

text \<open>How a task ended, or that \<open>stop()\<close> was called.\<close>

datatype task_end = EndedOk | EndedErr string | PanickedTask string | CancelledTask

datatype client_item = StopCalled | Joined nat task_end

datatype client_result = ClientOk | AllGaveUp "string option" | ClientRunning

text \<open>The loop, over what happens in order; \<open>live\<close> is the number of tasks that have not been joined.\<close>

fun client_loop :: "owners \<Rightarrow> nat \<Rightarrow> string option \<Rightarrow> client_item list \<Rightarrow> connection_event list \<times> client_result" where
  "client_loop owners 0 last_err xs =
     (case xs of
        StopCalled # _ \<Rightarrow> ([], ClientOk)
      | _ \<Rightarrow> ([], AllGaveUp last_err))"
| "client_loop owners (Suc live) last_err [] = ([], ClientRunning)"
| "client_loop owners (Suc live) last_err (StopCalled # xs) = ([], ClientOk)"
| "client_loop owners (Suc live) last_err (Joined i e # xs) =
     (case e of
        EndedErr cause \<Rightarrow>
          (case owner_of owners i of
             (owners, (tag, addr)) \<Rightarrow>
               apfst ((#) (GaveUp tag addr cause)) (client_loop owners live (Some cause) xs))
      | PanickedTask p \<Rightarrow>
          (case owner_of owners i of
             (owners, (tag, addr)) \<Rightarrow>
               apfst ((#) (GaveUp tag addr (''tunnel connection panicked: '' @ p)))
                 (client_loop owners live (Some (''tunnel connection panicked: '' @ p)) xs))
      | _ \<Rightarrow> client_loop (owners(i := None)) live last_err xs)"

definition client_run :: "client \<Rightarrow> client_item list \<Rightarrow> connection_event list \<times> client_result" where
  "client_run c xs =
     (let tasks = spawn_all c in client_loop (owners_of tasks) (length tasks) None xs)"

definition give_up_cause :: "task_end \<Rightarrow> string option" where
  "give_up_cause e =
     (case e of
        EndedErr cause \<Rightarrow> Some cause
      | PanickedTask p \<Rightarrow> Some (''tunnel connection panicked: '' @ p)
      | _ \<Rightarrow> None)"

text \<open>One report per task that gave up, under its own tag and address.\<close>

definition reports :: "(string \<times> string) list \<Rightarrow> (nat \<times> task_end) list \<Rightarrow> connection_event list" where
  "reports tasks js = concat (map (\<lambda>(i, e). case give_up_cause e of
     Some cause \<Rightarrow> [GaveUp (fst (tasks ! i)) (snd (tasks ! i)) cause] | None \<Rightarrow> []) js)"

fun last_cause :: "string option \<Rightarrow> (nat \<times> task_end) list \<Rightarrow> string option" where
  "last_cause le [] = le"
| "last_cause le ((i, e) # js) = last_cause (case give_up_cause e of Some c \<Rightarrow> Some c | None \<Rightarrow> le) js"

lemma reports_Cons:
  "reports tasks ((i, e) # js) = (case give_up_cause e of
     Some cause \<Rightarrow> GaveUp (fst (tasks ! i)) (snd (tasks ! i)) cause # reports tasks js | None \<Rightarrow> reports tasks js)"
  by (simp add: reports_def split: option.split)

lemma client_loop_reports:
  assumes "distinct (map fst js)" and "\<forall>j \<in> set js. owners (fst j) = Some (tasks ! fst j)" and "length js \<le> live"
  shows "fst (client_loop owners live le (map (\<lambda>(i, e). Joined i e) js)) = reports tasks js \<and>
    (snd (client_loop owners live le (map (\<lambda>(i, e). Joined i e) js)) =
      (if length js = live
       then AllGaveUp (last_cause le js)
       else ClientRunning))"
  using assms
proof (induction js arbitrary: owners live le)
  case Nil
  then show ?case by (cases live) (simp_all add: reports_def)
next
  case (Cons j js)
  obtain i e where j: "j = (i, e)" by fastforce
  obtain n where n: "live = Suc n" using Cons.prems(3) by (cases live) auto
  have "\<forall>j \<in> set js. (owners(i := None)) (fst j) = Some (tasks ! fst j)"
    using Cons.prems(1,2) by (auto simp: j)
  note IH = Cons.IH [OF _ this, of n]
  have "distinct (map fst js)" "length js \<le> n" "owners i = Some (tasks ! i)"
    using Cons.prems by (simp_all add: j n)
  with IH show ?case
    by (cases "tasks ! i"; cases e) (simp_all add: j n owner_of_def reports_Cons give_up_cause_def del: fun_upd_apply)
qed

text \<open>
  C26. The client reports every connection that gives up exactly once and under its own tag and relay:
  for any order in which its tasks end, the events are one \<open>GaveUp\<close> per failed or panicked task, none
  for the others, and the run fails precisely when the last task has ended, with the latest cause.
\<close>

theorem client_run_reports:
  assumes "distinct (map fst js)" and "\<forall>j \<in> set js. fst j < length (spawn_all c)"
  shows "client_run c (map (\<lambda>(i, e). Joined i e) js) =
    (reports (spawn_all c) js,
     if length js = length (spawn_all c)
     then AllGaveUp (last_cause None js)
     else ClientRunning)"
proof -
  have "length js \<le> length (spawn_all c)"
  proof -
    have "set (map fst js) \<subseteq> {..<length (spawn_all c)}" using assms(2) by auto
    from card_mono [OF _ this] show ?thesis using distinct_card [OF assms(1)] by simp
  qed
  moreover have "\<forall>j \<in> set js. owners_of (spawn_all c) (fst j) = Some (spawn_all c ! fst j)"
    using assms(2) by (simp add: owners_of_def)
  ultimately show ?thesis
    using client_loop_reports [OF assms(1), of "owners_of (spawn_all c)" "spawn_all c" "length (spawn_all c)" None]
    by (simp add: client_run_def Let_def prod_eq_iff)
qed

definition demo_client :: client where
  "demo_client = \<lparr>config = \<lparr>server_addrs = [''r:1''], local_addr = ''l:2'', secondary_local_addr = None,
       domain_suffix = ''x'', force_h2 = False, cfg_pool_size = 1, cfg_acme_email = None,
       cfg_acme_creds_path = ''creds'', cfg_acme_staging = False, cfg_cert_pem = None,
       primary_identity = \<lparr>keypair = demo_identity, cert_extension = None\<rparr>, reconnect = ReconnectPolicy_default,
       keepalive = H2KeepAlive_default, self_signed_identity = None\<rparr>,
     primary = demo_connection, secondary = Some demo_connection\<rparr>"

theorem client_run_reports_witness:
  "client_run demo_client [Joined 1 (EndedErr ''e''), Joined 0 (PanickedTask ''p'')] =
     ([GaveUp ''SEC'' ''r:1'' ''e'', GaveUp ''PRI'' ''r:1'' ''tunnel connection panicked: p''],
      AllGaveUp (Some ''tunnel connection panicked: p''))"
  using client_run_reports [of "[(1, EndedErr ''e''), (0, PanickedTask ''p'')]" demo_client]
  by (simp add: demo_client_def spawn_all_def reports_def give_up_cause_def PRIMARY_TAG_def SECONDARY_TAG_def)

end
