(* ===== verification/Client_Ctrl.thy ===== *)
theory Client_Ctrl
  imports Client_Setup Cert_Provisioner
begin

text \<open>
  The client's side of a QUIC connection (\<^verbatim>\<open>tunnel-client/src/client.rs\<close>, \<open>quic_loop_inner\<close>): the control
  exchange with its ACME challenge, the wait for the relay to accept, and the loop that forwards
  tunnel streams. The provisioner's answers are futures here: how concurrent connections
  share one is the subject of \<open>Cert_Sharing\<close>.
\<close>

definition PIPE_HANDSHAKE_TIMEOUT :: duration where "PIPE_HANDSHAKE_TIMEOUT = from_secs 30"
definition PIPE_CONNECT_TIMEOUT :: duration where "PIPE_CONNECT_TIMEOUT = from_secs 10"
definition QUIC_ACCEPT_TIMEOUT :: duration where "QUIC_ACCEPT_TIMEOUT = from_secs 40"

section \<open>Errors\<close>

datatype client_error =
    Opening opening_error
  | Channel ctrl_error
  | ConnectionLost string
  | Provisioning order_error
  | LeaderGone
  | LeaderEmpty
  | MissingCsr
  | AlpnAcceptor
  | BadChain
  | NotAccepted
  | AcceptTooLong
  | RelayRejection string
  | ClosedBefore string
  | UnexpectedPath string
  | ResponseFailed

text \<open>\<open>anyhow\<close>: how it prints an error with its causes, and which of the causes come from the CA.\<close>

record anyhow_view =
  print_error :: "client_error \<Rightarrow> string"
  causes_of :: "client_error \<Rightarrow> cause list"
  parse_utc :: "string \<Rightarrow> nat option"

definition from_error :: "anyhow_view \<Rightarrow> client_error \<Rightarrow> attempt_failure" where
  "from_error v e = \<lparr>af_cause = print_error v e, af_until = rate_limited_until (parse_utc v) (causes_of v e)\<rparr>"

section \<open>Forwarding one stream\<close>

text \<open>What terminates the tunnel's TLS: a certificate chain and the key that goes with it.\<close>

record tls_acceptor_config =
  tls_chain :: "byte list list"
  tls_key :: tunnel_key

definition build_tls_acceptor :: "tunnel_key \<Rightarrow> byte list list \<Rightarrow> tls_acceptor_config" where
  "build_tls_acceptor k certs = \<lparr>tls_chain = certs, tls_key = k\<rparr>"

datatype pipe_event = ConnectTarget string | CopyStarts

text \<open>
  The futures: the TLS handshake on the tunnel stream, the TCP connection to the local target, and
  the copying in both directions.
\<close>

definition pipe :: "(string + unit) fut \<Rightarrow> string \<Rightarrow> (string + unit) fut \<Rightarrow> unit fut \<Rightarrow> (pipe_event, unit) task" where
  "pipe tls_accept target tcp_connect copying =
     tbind (timeout PIPE_HANDSHAKE_TIMEOUT (await tls_accept)) (\<lambda>h. case h of
       Some (Inr _) \<Rightarrow>
         tthen (emit (ConnectTarget target))
           (tbind (timeout PIPE_CONNECT_TIMEOUT (await tcp_connect)) (\<lambda>t. case t of
              Some (Inr _) \<Rightarrow> tthen (emit CopyStarts) (await copying)
            | Some (Inl e) \<Rightarrow> tret ()
            | None \<Rightarrow> tret ()))
     | Some (Inl e) \<Rightarrow> tret ()
     | None \<Rightarrow> tret ())"

definition serve_alpn_challenge :: "(string + unit) fut \<Rightarrow> ('e, unit) task" where
  "serve_alpn_challenge tls_accept =
     tbind (timeout PIPE_HANDSHAKE_TIMEOUT (await tls_accept)) (\<lambda>_. tret ())"

section \<open>The control exchange over QUIC\<close>

text \<open>
  What the client does: bytes on the control stream; the finalisation of an order in a task of its
  own; responders for challenge streams; the end of the task sets, which aborts what still runs in
  them; the session counted and reported as up; and forwards.
\<close>

datatype client_event =
    Wrote "byte list"
  | SpawnFinalize string string "byte list"
  | ServeChallenge string nat
  | DropChallenges
  | Responded string "byte list"
  | ReleasedCapacity nat
  | Up
  | Forward tls_acceptor_config nat
  | DropForwards

type_synonym 'a client_task = "(client_event, client_error + 'a) task"

text \<open>
  The connection and its surroundings. \<open>write_time\<close> is how long the transport takes for a write, if it
  takes it at all; \<open>ends_well\<close> whether the control stream ends by being finished rather than with the
  connection. Streams come with the delay since the one before. \<open>done_first\<close> is the branch \<open>select!\<close>
  takes when both are ready at once.
\<close>

record quic_ctrl =
  open_ctrl :: "(string + unit) fut"
  ctrl_out :: sink
  write_time :: "byte list \<Rightarrow> duration option"
  ctrl_in :: "byte source"
  ends_well :: bool
  challenge_streams :: "(duration \<times> (string + nat)) list"
  done_first :: bool
  tunnel_streams :: "(duration \<times> (string + nat)) list"
  stop_called :: "duration option"

text \<open>
  The provisioner: the answer to \<open>prepare\<close>, the outcome of the finalisation a leader starts, and the
  change of the certificate channel a follower waits for (nothing when the sender is dropped).
\<close>

record prov_env =
  prepare_answer :: "(order_error + prepare_result) fut"
  finalize_answer :: "(order_error + string) fut"
  cert_changed :: "string option option fut"

text \<open>The crates behind the exchange.\<close>

record ctrl_libs =
  setup_libs :: client_libs
  alpn_acceptor :: "string \<Rightarrow> string \<Rightarrow> bool"
  pem_certs :: "string \<Rightarrow> byte list list option"
  try_reserve :: "nat \<Rightarrow> bool"

definition parse_cert_chain_pem :: "ctrl_libs \<Rightarrow> string \<Rightarrow> client_error + byte list list" where
  "parse_cert_chain_pem l pem = (case pem_certs l pem of None \<Rightarrow> Inl BadChain | Some cs \<Rightarrow> Inr cs)"

definition elapse :: "duration \<Rightarrow> 'a fut \<Rightarrow> 'a fut" where
  "elapse t f = map_option (apfst (\<lambda>d. d - t)) f"

definition before :: "bool \<Rightarrow> duration \<Rightarrow> 'a fut \<Rightarrow> bool" where
  "before tie t f \<longleftrightarrow> (case f of None \<Rightarrow> True | Some (d, _) \<Rightarrow> t < d \<or> (t = d \<and> \<not> tie))"

fun quic_serve_challenges_until :: "bool \<Rightarrow> string \<Rightarrow> (duration \<times> (string + nat)) list \<Rightarrow>
    (client_error + string) fut \<Rightarrow> string client_task" where
  "quic_serve_challenges_until tie ka [] pem = await pem"
| "quic_serve_challenges_until tie ka ((t, res) # streams) pem =
     (if before tie t pem
      then tthen (sleep t) (case res of
          Inl e \<Rightarrow> tret (Inl (ConnectionLost e))
        | Inr stream \<Rightarrow>
            tthen (emit (ServeChallenge ka stream))
              (quic_serve_challenges_until tie ka streams (elapse t pem)))
      else await pem)"

text \<open>The task sets of a challenge live as long as its frame.\<close>

definition with_challenges :: "'a client_task \<Rightarrow> 'a client_task" where
  "with_challenges m = tbind m (\<lambda>r. tthen (emit DropChallenges) (tret r))"

definition write_frame :: "quic_ctrl \<Rightarrow> sink \<Rightarrow> byte list \<Rightarrow> sink client_task" where
  "write_frame q w data =
     tbind (await (map_option (\<lambda>t. (t, ctrl_write w data)) (write_time q data))) (\<lambda>(w', r).
       tthen (emit (Wrote (drop (length (sent w)) (sent w'))))
         (tret (case r of Inl e \<Rightarrow> Inl (Channel e) | Inr _ \<Rightarrow> Inr w')))"

definition read_frame :: "ctrl_libs \<Rightarrow> byte source \<Rightarrow> (byte list \<times> byte source) client_task" where
  "read_frame l r =
     tbind (ctrl_read (try_reserve l) r) (\<lambda>f. tret (case f of Inl e \<Rightarrow> Inl (Channel e) | Inr x \<Rightarrow> Inr x))"

definition finalized :: "(order_error + string) fut \<Rightarrow> (client_error + string) fut" where
  "finalized f = map_option (apsnd (\<lambda>r. case r of Inl e \<Rightarrow> Inl (Provisioning e) | Inr pem \<Rightarrow> Inr pem)) f"

definition leader_cert :: "string option option fut \<Rightarrow> (client_error + string) fut" where
  "leader_cert f = map_option (apsnd (\<lambda>r. case r of
     None \<Rightarrow> Inl LeaderGone
   | Some None \<Rightarrow> Inl LeaderEmpty
   | Some (Some pem) \<Rightarrow> Inr pem)) f"

definition quic_lead :: "ctrl_libs \<Rightarrow> quic_ctrl \<Rightarrow> prov_env \<Rightarrow> connection \<Rightarrow> string \<Rightarrow> sink \<Rightarrow> byte source \<Rightarrow>
    (string \<times> byte source) client_task" where
  "quic_lead l q p c ka w r =
     (if \<not> alpn_acceptor l (conn_domain c) ka then tret (Inl AlpnAcceptor)
      else
        terr (write_frame q w (as_bytes ka)) (\<lambda>w.
        terr (read_frame l r) (\<lambda>(_, r).
        case csr_der c of
          None \<Rightarrow> tret (Inl MissingCsr)
        | Some csr \<Rightarrow>
            tthen (emit (SpawnFinalize (conn_domain c) ka csr))
              (with_challenges
                (terr (quic_serve_challenges_until (done_first q) ka (challenge_streams q)
                         (finalized (finalize_answer p))) (\<lambda>cert_pem.
                 terr (write_frame q w (as_bytes ''done'')) (\<lambda>_.
                 tret (Inr (cert_pem, r)))))))))"

definition quic_follow :: "ctrl_libs \<Rightarrow> quic_ctrl \<Rightarrow> prov_env \<Rightarrow> connection \<Rightarrow> string \<Rightarrow> sink \<Rightarrow> byte source \<Rightarrow>
    (string \<times> byte source) client_task" where
  "quic_follow l q p c ka w r =
     (if \<not> alpn_acceptor l (conn_domain c) ka then tret (Inl AlpnAcceptor)
      else
        terr (write_frame q w (as_bytes ka)) (\<lambda>w.
        terr (read_frame l r) (\<lambda>(_, r).
        with_challenges
          (terr (quic_serve_challenges_until (done_first q) ka (challenge_streams q)
                   (leader_cert (cert_changed p))) (\<lambda>cert_pem.
           terr (write_frame q w (as_bytes ''done'')) (\<lambda>_.
           tret (Inr (cert_pem, r))))))))"

text \<open>Step 3: the material that terminates tunnel TLS, and what is left of the control stream.\<close>

definition quic_tunnel_certs :: "ctrl_libs \<Rightarrow> quic_ctrl \<Rightarrow> prov_env option \<Rightarrow> connection \<Rightarrow> sink \<Rightarrow> byte source \<Rightarrow>
    (byte list list \<times> byte source) client_task" where
  "quic_tunnel_certs l q prov c w r =
     (case prov of
        None \<Rightarrow> terr (write_frame q w []) (\<lambda>_. tret (Inr ([agent_cert c], r)))
      | Some p \<Rightarrow>
          terr (tbind (await (prepare_answer p)) (\<lambda>a. tret (case a of Inl e \<Rightarrow> Inl (Provisioning e) | Inr x \<Rightarrow> Inr x)))
            (\<lambda>prepared.
             terr (case prepared of
                 Cached pem \<Rightarrow> terr (write_frame q w []) (\<lambda>_. tret (Inr (pem, r)))
               | LeaderChallenge ka chal i \<Rightarrow> quic_lead l q p c ka w r
               | FollowerChallenge ka i \<Rightarrow> quic_follow l q p c ka w r)
             (\<lambda>(cert_pem, r).
              tret (case parse_cert_chain_pem l cert_pem of Inl e \<Rightarrow> Inl e | Inr certs \<Rightarrow> Inr (certs, r)))))"

text \<open>\<open>read_to_end\<close>: the rest of the stream once it is finished, if it is within the limit.\<close>

definition read_to_end :: "nat \<Rightarrow> bool \<Rightarrow> byte source \<Rightarrow> byte list client_task" where
  "read_to_end limit ok r =
     (if limit < length (items r)
      then await (Some (delay_of (take (Suc limit) (items r)), Inl AcceptTooLong))
      else await (map_option (\<lambda>d. (delay_of (items r) + d,
             if ok then Inr (contents r) else Inl (ConnectionLost ''read''))) (fin r)))"

fun forward_streams :: "bool \<Rightarrow> tls_acceptor_config \<Rightarrow> duration option \<Rightarrow> (duration \<times> (string + nat)) list \<Rightarrow>
    unit client_task" where
  "forward_streams tie acceptor stop [] = await (map_option (\<lambda>d. (d, Inr ())) stop)"
| "forward_streams tie acceptor stop ((t, res) # streams) =
     (if before tie t (map_option (\<lambda>d. (d, ())) stop)
      then tthen (sleep t) (case res of
          Inl e \<Rightarrow> tret (Inl (ConnectionLost e))
        | Inr stream \<Rightarrow>
            tthen (emit (Forward acceptor stream))
              (forward_streams tie acceptor (map_option (\<lambda>d. d - t) stop) streams))
      else await (map_option (\<lambda>d. (d, Inr ())) stop))"

text \<open>The session is up; the forwards are dropped with the loop. Called already, \<open>stop()\<close> ends it at once.\<close>

definition quic_up :: "quic_ctrl \<Rightarrow> tls_acceptor_config \<Rightarrow> unit client_task" where
  "quic_up q acceptor =
     tthen (emit Up)
       (if stop_called q = Some 0 then tret (Inr ())
        else tbind (forward_streams (done_first q) acceptor (stop_called q) (tunnel_streams q))
               (\<lambda>r. tthen (emit DropForwards) (tret r)))"

definition open_control :: "quic_ctrl \<Rightarrow> unit client_task" where
  "open_control q =
     tbind (await (open_ctrl q)) (\<lambda>r. tret (case r of Inl e \<Rightarrow> Inl (ConnectionLost e) | Inr _ \<Rightarrow> Inr ()))"

definition send_signature :: "ctrl_libs \<Rightarrow> quic_ctrl \<Rightarrow> connection \<Rightarrow> sink \<Rightarrow> sink client_task" where
  "send_signature l q c w =
     (case sign_recoverable (setup_libs l) (identity_keypair c) (as_bytes (conn_domain c)) of
        Inl e \<Rightarrow> tret (Inl (Opening (CannotSign e)))
      | Inr s \<Rightarrow> write_frame q w s)"

definition await_accept :: "quic_ctrl \<Rightarrow> byte source \<Rightarrow> byte list client_task" where
  "await_accept q r =
     tbind (timeout QUIC_ACCEPT_TIMEOUT (read_to_end MAX_CTRL_FRAME (ends_well q) r))
       (\<lambda>a. tret (case a of None \<Rightarrow> Inl NotAccepted | Some x \<Rightarrow> x))"

definition quic_loop_inner :: "ctrl_libs \<Rightarrow> quic_ctrl \<Rightarrow> prov_env option \<Rightarrow> connection \<Rightarrow> unit client_task" where
  "quic_loop_inner l q prov c =
     terr (open_control q) (\<lambda>_.
     terr (write_frame q (ctrl_out q) (as_bytes (conn_domain c))) (\<lambda>w.
     terr (send_signature l q c w) (\<lambda>w.
     terr (quic_tunnel_certs l q prov c w (ctrl_in q)) (\<lambda>(tunnel_certs, r).
     terr (await_accept q r) (\<lambda>_.
     quic_up q (build_tls_acceptor (if prov = None then agent_keypair c else identity_keypair c) tunnel_certs))))))"

end
