(* ===== verification/Client_Session.thy ===== *)
theory Client_Session
  imports Client_Ctrl "HOL-Library.Sublist"
begin

text \<open>
  Properties of the client's QUIC session: what it says on the control stream, when it counts as up
  and what it then forwards behind which certificate, that it comes up when the relay does its
  part, and what the reconnect loop is told.
\<close>

section \<open>What the client says on the control stream\<close>

definition said :: "client_event list \<Rightarrow> byte list" where
  "said tr = concat (map (\<lambda>e. case e of Wrote bs \<Rightarrow> bs | _ \<Rightarrow> []) tr)"

lemma said_simps [simp]:
  "said [] = []" "said (e # tr) = (case e of Wrote bs \<Rightarrow> bs | _ \<Rightarrow> []) @ said tr"
  "said (tr @ tr') = said tr @ said tr'"
  by (simp_all add: said_def)

text \<open>The certificate a future yields, and the one the provisioner ends up with, if it does.\<close>

definition cert_of :: "(client_error + string) fut \<Rightarrow> string option" where
  "cert_of f = (case f of Some (_, Inr pem) \<Rightarrow> Some pem | _ \<Rightarrow> None)"

definition cert_source :: "prov_env \<Rightarrow> string option" where
  "cert_source p =
     (case prepare_answer p of
        Some (_, Inr (Cached pem)) \<Rightarrow> Some pem
      | Some (_, Inr (LeaderChallenge ka u i)) \<Rightarrow> cert_of (finalized (finalize_answer p))
      | Some (_, Inr (FollowerChallenge ka i)) \<Rightarrow> cert_of (leader_cert (cert_changed p))
      | _ \<Rightarrow> None)"

text \<open>
  The script of the client: its domain, its signature, and then an empty frame, or the key
  authorization, followed by \<open>done\<close> once there is a certificate.
\<close>

definition done_script :: "string option \<Rightarrow> byte list" where
  "done_script pem = (if pem = None then [] else frame (as_bytes ''done''))"

definition challenge_script :: "string \<Rightarrow> string option \<Rightarrow> byte list" where
  "challenge_script ka pem = frame (as_bytes ka) @ done_script pem"

definition key_auth_script :: "prov_env option \<Rightarrow> byte list" where
  "key_auth_script prov =
     (case prov of
        None \<Rightarrow> frame []
      | Some p \<Rightarrow>
          (case prepare_answer p of
             Some (_, Inr (Cached pem)) \<Rightarrow> frame []
           | Some (_, Inr (LeaderChallenge ka u i)) \<Rightarrow> challenge_script ka (cert_source p)
           | Some (_, Inr (FollowerChallenge ka i)) \<Rightarrow> challenge_script ka (cert_source p)
           | _ \<Rightarrow> []))"

definition client_script :: "ctrl_libs \<Rightarrow> prov_env option \<Rightarrow> connection \<Rightarrow> byte list" where
  "client_script l prov c =
     frame (as_bytes (conn_domain c)) @
     (case sign_recoverable (setup_libs l) (identity_keypair c) (as_bytes (conn_domain c)) of
        Inl e \<Rightarrow> []
      | Inr s \<Rightarrow> frame s @ key_auth_script prov)"

lemma write_all_prefix:
  "write_all w bs = (w', ok) \<Longrightarrow> \<exists>x. sent w' = sent w @ x \<and> prefix x bs \<and> (ok \<longrightarrow> x = bs)"
  by (auto simp: write_all_def take_is_prefix split: option.splits if_splits)

lemma ctrl_write_prefix:
  assumes "ctrl_write w d = (w', r)"
  shows "\<exists>x. sent w' = sent w @ x \<and> prefix x (frame d) \<and> (r = Inr () \<longrightarrow> x = frame d)"
proof -
  let ?n = "u32_to_be_bytes (of_nat (length d))"
  show ?thesis
  proof (cases "length d \<le> MAX_CTRL_FRAME")
    case True
    obtain w1 ok1 where w1: "write_all w ?n = (w1, ok1)" by fastforce
    obtain w2 ok2 where w2: "write_all w1 d = (w2, ok2)" by fastforce
    from write_all_prefix [OF w1] obtain x where x: "sent w1 = sent w @ x" "prefix x ?n" "ok1 \<longrightarrow> x = ?n" by blast
    from write_all_prefix [OF w2] obtain y where y: "sent w2 = sent w1 @ y" "prefix y d" "ok2 \<longrightarrow> y = d" by blast
    show ?thesis
      using assms True w1 w2 x y
      by (cases ok1; cases ok2) (auto simp: ctrl_write_def frame_def prefix_prefix)
  qed (use assms in \<open>auto simp: ctrl_write_def\<close>)
qed

lemma write_frame_says:
  "prefix (said (trace (write_frame q w d))) (frame d)"
  "result (write_frame q w d) = Some (Inr w') \<Longrightarrow> trace (write_frame q w d) = [Wrote (frame d)]"
  "set (trace (write_frame q w d)) \<subseteq> range Wrote"
proof -
  obtain w1 r where w1: "ctrl_write w d = (w1, r)" by fastforce
  from ctrl_write_prefix [OF this] obtain x where x: "sent w1 = sent w @ x" "prefix x (frame d)"
    "r = Inr () \<longrightarrow> x = frame d" by blast
  show "prefix (said (trace (write_frame q w d))) (frame d)"
    "result (write_frame q w d) = Some (Inr w') \<Longrightarrow> trace (write_frame q w d) = [Wrote (frame d)]"
    "set (trace (write_frame q w d)) \<subseteq> range Wrote"
    using x by (cases "write_time q d"; auto simp: write_frame_def trace_tbind result_tbind w1 split: sum.splits)+
qed

text \<open>Two pieces of a script, the second after the first has been said in full.\<close>

lemma says_terr:
  assumes "prefix (said (trace m)) a"
    and "\<And>x. result m = Some (Inr x) \<Longrightarrow> said (trace m) = a \<and> prefix (said (trace (k x))) b"
  shows "prefix (said (trace (terr m k))) (a @ b)"
proof (cases rule: terr_course [of m k, case_names stops continues])
  case stops
  with assms(1) show ?thesis by (simp add: prefix_prefix)
next
  case (continues x)
  with assms(2) [OF continues(1)] show ?thesis by simp
qed

lemma says_silent_terr:
  assumes "said (trace m) = []" and "\<And>x. result m = Some (Inr x) \<Longrightarrow> prefix (said (trace (k x))) b"
  shows "prefix (said (trace (terr m k))) b"
  using says_terr [of m "[]" k b] assms by simp

lemma trace_Nil: "trace m = [] \<longleftrightarrow> (\<forall>e. \<not> happens m e)"
  by (cases "effects m") (auto simp: happens_def trace_def)

lemma trace_tthen_sleep [simp]: "trace (tthen (sleep d) m) = trace m"
  by (simp add: tthen_sleep)

lemma trace_read_frame [simp]: "trace (read_frame l r) = []"
  by (simp add: trace_Nil read_frame_def)

lemma trace_with_challenges:
  "trace (with_challenges m) = trace m @ (if result m = None then [] else [DropChallenges])"
  by (auto simp: with_challenges_def trace_tbind split: option.splits)

lemma result_with_challenges [simp]: "result (with_challenges m) = result m"
  by (cases "result m") (simp_all add: with_challenges_def result_tbind)

lemma serve_challenges_silent:
  "said (trace (quic_serve_challenges_until tie ka streams pem)) = []"
  "set (trace (quic_serve_challenges_until tie ka streams pem)) \<subseteq> range (ServeChallenge ka)"
  "result (quic_serve_challenges_until tie ka streams pem) = Some (Inr c) \<Longrightarrow> cert_of pem = Some c"
proof (induction tie ka streams pem rule: quic_serve_challenges_until.induct)
  case (2 tie ka t res streams pem)
  {
    case 1
    then show ?case using 2 by (cases "before tie t pem") (auto split: sum.split)
  next
    case 2
    then show ?case using "2.IH" by (cases "before tie t pem") (auto split: sum.split)
  next
    case 3
    then show ?case using "2.IH" 
      by (cases "before tie t pem") (auto simp: cert_of_def elapse_def split: sum.splits option.splits)
  }
qed (auto simp: cert_of_def split: option.splits)
lemma says_frame:
  assumes "\<And>x. result (write_frame q w d) = Some (Inr x) \<Longrightarrow> prefix (said (trace (k x))) b"
  shows "prefix (said (trace (terr (write_frame q w d) k))) (frame d @ b)"
  by (rule says_terr) (use assms in \<open>auto simp: write_frame_says\<close>)

lemma says_last:
  assumes "\<And>x. said (trace (k x)) = []"
  shows "prefix (said (trace (terr (write_frame q w d) k))) (frame d)"
  using says_frame [of q w d k "[]"] assms by simp

lemma says_serving:
  assumes "m = terr (quic_serve_challenges_until tie ka streams pem) (\<lambda>cert_pem.
      terr (write_frame q w (as_bytes ''done'')) (\<lambda>_. tret (Inr (cert_pem, r))))"
  shows "prefix (said (trace (with_challenges m)))
      (done_script (cert_of pem))"
proof -
  let ?s = "quic_serve_challenges_until tie ka streams pem"
  have "prefix (said (trace m)) (done_script (cert_of pem))"
    unfolding assms
  proof (rule says_silent_terr)
    show "said (trace ?s) = []" by (rule serve_challenges_silent)
    show "prefix (said (trace (terr (write_frame q w (as_bytes ''done'')) (\<lambda>_. tret (Inr (cert_pem, r))))))
        (done_script (cert_of pem))"
      if "result ?s = Some (Inr cert_pem)" for cert_pem
      using serve_challenges_silent(3) [OF that] by (auto simp: done_script_def intro!: says_last)
  qed
  then show ?thesis
    by (auto simp: trace_with_challenges)
qed

lemma says_challenge:
  assumes "m = (if \<not> alpn_acceptor l (conn_domain c) ka then tret (Inl AlpnAcceptor)
      else terr (write_frame q w (as_bytes ka)) (\<lambda>w. terr (read_frame l r) (\<lambda>(_, r). k w r)))"
    and "\<And>w r. prefix (said (trace (k w r))) b"
  shows "prefix (said (trace m)) (frame (as_bytes ka) @ b)"
  using assms by (auto intro!: says_frame says_silent_terr)

lemma quic_lead_says:
  "prefix (said (trace (quic_lead l q p c ka w r))) (challenge_script ka (cert_of (finalized (finalize_answer p))))"
  unfolding challenge_script_def
  by (rule says_challenge [OF quic_lead_def]) (use says_serving(1) [OF refl] in \<open>auto split: option.split\<close>)

lemma quic_follow_says:
  "prefix (said (trace (quic_follow l q p c ka w r))) (challenge_script ka (cert_of (leader_cert (cert_changed p))))"
  unfolding challenge_script_def
  by (rule says_challenge [OF quic_follow_def]) (rule says_serving(1) [OF refl])

lemma quic_lead_result:
  assumes "result (quic_lead l q p c ka w r) = Some (Inr (pem, r'))"
  shows "said (trace (quic_lead l q p c ka w r)) = challenge_script ka (Some pem) \<and>
    cert_of (finalized (finalize_answer p)) = Some pem"
  using assms
  by (auto simp: quic_lead_def result_terr trace_terr write_frame_says(2) challenge_script_def
      trace_with_challenges serve_challenges_silent(1) done_script_def
      split: if_splits option.splits dest: serve_challenges_silent(3))

lemma quic_follow_result:
  assumes "result (quic_follow l q p c ka w r) = Some (Inr (pem, r'))"
  shows "said (trace (quic_follow l q p c ka w r)) = challenge_script ka (Some pem) \<and>
    cert_of (leader_cert (cert_changed p)) = Some pem"
  using assms
  by (auto simp: quic_follow_def result_terr trace_terr write_frame_says(2) challenge_script_def
      trace_with_challenges serve_challenges_silent(1) done_script_def
      split: if_splits dest: serve_challenges_silent(3))

lemma quic_tunnel_certs_says:
  "prefix (said (trace (quic_tunnel_certs l q prov c w r))) (key_auth_script prov)"
proof (cases prov)
  case None
  then show ?thesis by (auto simp: quic_tunnel_certs_def key_auth_script_def intro: says_last)
next
  case (Some p)
  show ?thesis
  proof (cases "map_option snd (prepare_answer p)")
    case None
    with Some show ?thesis by (simp add: quic_tunnel_certs_def key_auth_script_def trace_terr trace_tbind result_tbind)
  next
    case (Some a)
    then obtain t where a: "prepare_answer p = Some (t, a)" by auto
    have last: "prefix (said (trace m)) b \<Longrightarrow> prefix (said (trace (terr m (\<lambda>(x, r). tret (f x r))))) b" for m b and f :: "string \<Rightarrow> byte source \<Rightarrow> _"
      using says_terr [of m b _ "[]"] by (auto simp: trace_terr split: option.split sum.split)
    show ?thesis
      using \<open>prov = Some p\<close> a quic_lead_says [of l q p c _ w r] quic_follow_says [of l q p c _ w r]
      by (cases a; cases "projr a")
        (auto simp: quic_tunnel_certs_def key_auth_script_def cert_source_def trace_terr [of "tbind _ _"] trace_tbind
          result_tbind intro!: last says_last)
  qed
qed
section \<open>When a session counts as up\<close>

text \<open>What terminates tunnel TLS: the agent's own certificate and key, or the issued chain and the identity key.\<close>

definition tunnel_creds :: "ctrl_libs \<Rightarrow> prov_env option \<Rightarrow> connection \<Rightarrow> tls_acceptor_config option" where
  "tunnel_creds l prov c =
     (case prov of
        None \<Rightarrow> Some \<lparr>tls_chain = [agent_cert c], tls_key = agent_keypair c\<rparr>
      | Some p \<Rightarrow>
          (case cert_source p of
             None \<Rightarrow> None
           | Some pem \<Rightarrow> map_option (\<lambda>cs. \<lparr>tls_chain = cs, tls_key = identity_keypair c\<rparr>) (pem_certs l pem)))"

lemma quic_tunnel_certs_result:
  assumes "result (quic_tunnel_certs l q prov c w r) = Some (Inr (certs, r'))"
  shows "said (trace (quic_tunnel_certs l q prov c w r)) = key_auth_script prov \<and>
    tunnel_creds l prov c =
      Some (build_tls_acceptor (if prov = None then agent_keypair c else identity_keypair c) certs)"
proof (cases prov)
  case None
  with assms show ?thesis
    by (auto simp: quic_tunnel_certs_def key_auth_script_def tunnel_creds_def build_tls_acceptor_def
        result_terr trace_terr write_frame_says(2))
next
  case (Some p)
  with assms obtain t y where y: "prepare_answer p = Some (t, y)"
    by (cases "prepare_answer p") (auto simp: quic_tunnel_certs_def result_terr result_tbind)
  with assms Some obtain x where x: "prepare_answer p = Some (t, Inr x)"
    by (cases y) (auto simp: quic_tunnel_certs_def result_terr result_tbind)
  show ?thesis
    using assms Some x
    by (cases x)
       (auto simp: quic_tunnel_certs_def key_auth_script_def tunnel_creds_def build_tls_acceptor_def
        cert_source_def parse_cert_chain_pem_def result_terr trace_terr trace_tbind result_tbind
        write_frame_says(2) case_prod_unfold split: option.splits sum.splits
        dest!: quic_lead_result quic_follow_result)
qed

fun is_traffic :: "client_event \<Rightarrow> bool" where
  "is_traffic Up \<longleftrightarrow> True"
| "is_traffic (Forward a n) \<longleftrightarrow> True"
| "is_traffic DropForwards \<longleftrightarrow> True"
| "is_traffic _ \<longleftrightarrow> False"

definition quiet :: "'a client_task \<Rightarrow> bool" where
  "quiet m \<longleftrightarrow> (\<forall>e \<in> set (trace m). \<not> is_traffic e)"

lemma quiet_simps [simp]:
  "quiet (tret x)" "quiet (write_frame q w d)" "quiet (read_frame l r)" "quiet (with_challenges m) \<longleftrightarrow> quiet m"
  "quiet (tthen (emit e) m) \<longleftrightarrow> \<not> is_traffic e \<and> quiet m"
  "quiet (quic_serve_challenges_until tie ka streams pem)"
  using write_frame_says(3) [of q w d] serve_challenges_silent(2) [of tie ka streams pem]
  by (auto simp: quiet_def trace_with_challenges)

lemma quiet_terr:
  assumes "quiet m" and "\<And>x. quiet (k x)"
  shows "quiet (terr m k)"
  by (cases rule: terr_course [of m k, case_names stops continues]) (use assms in \<open>auto simp: quiet_def\<close>)

lemma quiet_tunnel_certs: "quiet (quic_tunnel_certs l q prov c w r)"
proof -
  have "quiet (quic_lead l q p c ka w r)" "quiet (quic_follow l q p c ka w r)" for p ka
    by (auto simp: quic_lead_def quic_follow_def intro!: quiet_terr split: option.split)
  moreover have "quiet (tbind (await f) (\<lambda>a. tret (h a)))" for f :: "'a fut" and h :: "'a \<Rightarrow> client_error + 'b"
    by (auto simp: quiet_def trace_tbind split: option.split)
  ultimately show ?thesis
    by (auto simp: quic_tunnel_certs_def intro!: quiet_terr split: option.split prepare_result.split)
qed

lemma trace_quic_up:
  "\<exists>post. trace (quic_up q acc) = Up # post \<and> (\<forall>e \<in> set post. e = DropForwards \<or> (\<exists>n. e = Forward acc n))"
proof -
  have "set (trace (forward_streams tie acc stop streams)) \<subseteq> range (Forward acc)" for tie stop streams
    by (induction tie acc stop streams rule: forward_streams.induct) (auto split: sum.split)
  then show ?thesis
    by (fastforce simp: quic_up_def trace_tbind split: option.split)
qed

lemma happens_trace: "happens m e \<longleftrightarrow> e \<in> set (trace m)"
  by (simp add: happens_def trace_def)

lemma quiet_then:
  assumes "happens (terr m k) Up" and "quiet m"
  obtains x where "result m = Some (Inr x)" and "happens (k x) Up" and "trace (terr m k) = trace m @ trace (k x)"
  using assms that by (auto simp: happens_terr quiet_def happens_trace [of m] trace_terr)

lemma trace_steps [simp]: "trace (open_control q) = []" "trace (await_accept q r) = []"
  by (simp_all add: trace_Nil open_control_def await_accept_def read_to_end_def)

lemma quiet_silent: "trace m = [] \<Longrightarrow> quiet m"
  by (simp add: quiet_def)

lemma quiet_signature [simp]: "quiet (send_signature l q c w)"
  by (simp add: send_signature_def split: sum.split)

lemma await_accept_Inr:
  "result (await_accept q r) = Some (Inr bs) \<Longrightarrow> ends_well q \<and> fin r \<noteq> None"
  by (auto simp: await_accept_def read_to_end_def result_tbind bind_eq_Some_conv
      split: option.splits if_splits dest!: result_timeout_Some)

lemma quic_up_course:
  assumes "happens (quic_loop_inner l q prov c) Up"
  obtains w w' certs r bs where "result (write_frame q (ctrl_out q) (as_bytes (conn_domain c))) = Some (Inr w)"
    and "result (send_signature l q c w) = Some (Inr w')"
    and "result (quic_tunnel_certs l q prov c w' (ctrl_in q)) = Some (Inr (certs, r))"
    and "result (await_accept q r) = Some (Inr bs)"
    and "trace (quic_loop_inner l q prov c) =
      trace (write_frame q (ctrl_out q) (as_bytes (conn_domain c))) @ trace (send_signature l q c w) @
      trace (quic_tunnel_certs l q prov c w' (ctrl_in q)) @ trace (quic_up q (build_tls_acceptor
        (if prov = None then agent_keypair c else identity_keypair c) certs))"
  using assms unfolding quic_loop_inner_def
  by (auto elim!: quiet_then simp: quiet_silent quiet_tunnel_certs simp del: split_paired_Ex)

lemma said_after_certs: "said (trace (terr (await_accept q r) (\<lambda>_. quic_up q acc))) = []"
proof -
  obtain post where "trace (quic_up q acc) = Up # post" "\<forall>e \<in> set post. e = DropForwards \<or> (\<exists>n. e = Forward acc n)"
    using trace_quic_up by blast
  moreover have "\<forall>e \<in> set post. e = DropForwards \<or> (\<exists>n. e = Forward acc n) \<Longrightarrow> said post = []" for post
    by (induction post) auto
  ultimately show ?thesis by (auto simp: trace_terr split: option.split sum.split)
qed

lemma quic_loop_says: "prefix (said (trace (quic_loop_inner l q prov c))) (client_script l prov c)"
proof -
  have certs: "prefix (said (trace (terr (quic_tunnel_certs l q prov c w r) (\<lambda>(certs, r).
      terr (await_accept q r) (\<lambda>_. quic_up q (acc certs)))))) (key_auth_script prov @ [])" for w r acc
  proof (rule says_terr [OF quic_tunnel_certs_says])
    fix x
    assume "result (quic_tunnel_certs l q prov c w r) = Some (Inr x)"
    then show "said (trace (quic_tunnel_certs l q prov c w r)) = key_auth_script prov \<and>
        prefix (said (trace (case x of (certs, r) \<Rightarrow> terr (await_accept q r) (\<lambda>_. quic_up q (acc certs))))) []"
      by (cases x) (simp add: said_after_certs quic_tunnel_certs_result)
  qed
  show ?thesis
  proof (cases "sign_recoverable (setup_libs l) (identity_keypair c) (as_bytes (conn_domain c))")
    case (Inl e)
    then show ?thesis
      by (auto simp: quic_loop_inner_def client_script_def send_signature_def intro!: says_silent_terr says_last)
  next
    case (Inr s)
    then show ?thesis
      unfolding quic_loop_inner_def client_script_def send_signature_def
      by (simp only: sum.case) (rule says_silent_terr, simp, rule says_frame, rule says_frame,
          rule certs [unfolded append_Nil2])
  qed
qed

lemma fin_read_frame: "result (read_frame l r) = Some (Inr (d, r')) \<Longrightarrow> fin r' = fin r"
  by (auto simp: read_frame_def ctrl_read_def result_tbind result_read_exact Let_def bind_eq_Some_conv
      split: if_splits option.splits sum.splits)

lemma fin_tunnel_certs:
  assumes "result (quic_tunnel_certs l q prov c w r) = Some (Inr (certs, r'))"
  shows "fin r' = fin r"
proof -
  have "result (quic_lead l q p c ka w r) = Some (Inr (x, r')) \<Longrightarrow> fin r' = fin r"
    "result (quic_follow l q p c ka w r) = Some (Inr (x, r')) \<Longrightarrow> fin r' = fin r" for p ka x
    by (auto simp: quic_lead_def quic_follow_def result_terr split: if_splits option.splits dest: fin_read_frame)
  with assms show ?thesis
    by (auto simp: quic_tunnel_certs_def parse_cert_chain_pem_def result_terr
        split: option.splits sum.splits prepare_result.splits)
qed

section \<open>A session comes up\<close>

text \<open>
  The frame the client waits for before it serves a challenge, and what it needs of its own side:
  signature and key authorization within the limits, an acceptor, a certificate request when it leads.
\<close>

definition challenge_key :: "prov_env option \<Rightarrow> string option" where
  "challenge_key prov =
     (case prov of
        None \<Rightarrow> None
      | Some p \<Rightarrow>
          (case prepare_answer p of
             Some (_, Inr (LeaderChallenge ka u i)) \<Rightarrow> Some ka
           | Some (_, Inr (FollowerChallenge ka i)) \<Rightarrow> Some ka
           | _ \<Rightarrow> None))"

definition client_ready :: "ctrl_libs \<Rightarrow> prov_env option \<Rightarrow> connection \<Rightarrow> byte list \<Rightarrow> bool" where
  "client_ready l prov c s \<longleftrightarrow>
     sign_recoverable (setup_libs l) (identity_keypair c) (as_bytes (conn_domain c)) = Inr s \<and>
     length (conn_domain c) \<le> MAX_CTRL_FRAME \<and> length s \<le> MAX_CTRL_FRAME \<and> csr_der c \<noteq> None \<and>
     (\<forall>n \<le> MAX_CTRL_FRAME. try_reserve l n) \<and>
     (case challenge_key prov of
        None \<Rightarrow> True
      | Some ka \<Rightarrow> alpn_acceptor l (conn_domain c) ka \<and> length ka \<le> MAX_CTRL_FRAME)"

text \<open>The transport does its part: writes go through and no challenge stream fails.\<close>

definition transport_works :: "quic_ctrl \<Rightarrow> bool" where
  "transport_works q \<longleftrightarrow>
     map_option snd (open_ctrl q) = Some (Inr ()) \<and> room (ctrl_out q) = None \<and> (\<forall>d. write_time q d \<noteq> None) \<and>
     (\<forall>(t, s) \<in> set (challenge_streams q). \<exists>n. s = Inr n)"

lemma write_frame_works:
  assumes "transport_works q" and "room w = None" and "length d \<le> MAX_CTRL_FRAME"
  shows "\<exists>w'. result (write_frame q w d) = Some (Inr w') \<and> room w' = None"
proof -
  obtain t where "write_time q d = Some t" using assms(1) by (auto simp: transport_works_def)
  then show ?thesis by (simp add: write_frame_def result_tbind ctrl_write_ok assms)
qed

lemma read_frame_works:
  assumes "contents r = frame d @ rest" and "length d \<le> MAX_CTRL_FRAME" and "try_reserve l (length d)"
  shows "\<exists>r'. result (read_frame l r) = Some (Inr (d, r')) \<and> contents r' = rest \<and> fin r' = fin r"
proof -
  obtain r' where "result (ctrl_read (try_reserve l) r :: (client_event, _) task) = Some (Inr (d, r'))"
    and "contents r' = rest" and "fin r' = fin r"
    using result_ctrl_read_frame [of r d rest "try_reserve l"] assms by blast
  then show ?thesis by (simp add: read_frame_def result_tbind)
qed

lemma serve_challenges_works:
  "\<forall>(t, s) \<in> set streams. \<exists>n. s = Inr n \<Longrightarrow>
   result (quic_serve_challenges_until tie ka streams pem) = map_option snd pem"
proof (induction tie ka streams pem rule: quic_serve_challenges_until.induct)
  case (2 tie ka t res streams pem)
  then obtain n where "res = Inr n" by auto
  with 2 show ?case
    by (cases "before tie t pem") (auto simp: elapse_def option.map_comp comp_def)
qed simp

lemma challenge_works:
  assumes "transport_works q" and "room w = None" and "cert_of pem = Some x"
    and "m = terr (quic_serve_challenges_until tie ka (challenge_streams q) pem) (\<lambda>cert_pem.
      terr (write_frame q w (as_bytes ''done'')) (\<lambda>_. tret (Inr (cert_pem, r))))"
  shows "result (with_challenges m) = Some (Inr (x, r))"
proof -
  have "map_option snd pem = Some (Inr x)" using assms(3) by (auto simp: cert_of_def split: option.splits sum.splits)
  moreover have "\<forall>(t, s) \<in> set (challenge_streams q). \<exists>n. s = Inr n"
    using assms(1) by (simp add: transport_works_def)
  ultimately have "result (quic_serve_challenges_until tie ka (challenge_streams q) pem) = Some (Inr x)"
    by (simp add: serve_challenges_works)
  moreover obtain w' where "result (write_frame q w (as_bytes ''done'')) = Some (Inr w')"
    using write_frame_works [OF assms(1,2), of "as_bytes ''done''"] by (auto simp: MAX_CTRL_FRAME_def)
  ultimately show ?thesis by (simp add: assms(4) result_terr)
qed

text \<open>The relay's answer to a challenge is one frame; otherwise there is none.\<close>

definition relay_reply :: "string option \<Rightarrow> byte list \<Rightarrow> byte list" where
  "relay_reply ka ack = (if ka = None then [] else frame ack)"

lemma quic_tunnel_certs_works:
  assumes "transport_works q" and "client_ready l prov c s" and "room w = None"
    and "tunnel_creds l prov c = Some acc" and "length ack \<le> MAX_CTRL_FRAME"
    and "contents r = relay_reply (challenge_key prov) ack @ rest"
  shows "\<exists>r'. result (quic_tunnel_certs l q prov c w r) = Some (Inr (tls_chain acc, r')) \<and>
    contents r' = rest \<and> fin r' = fin r"
proof -
  obtain w0 where empty: "result (write_frame q w []) = Some (Inr w0)"
    using write_frame_works [OF assms(1,3), of "[]"] by auto
  show ?thesis
  proof (cases "challenge_key prov")
    case None
    with assms(4,6) empty show ?thesis
      by (auto simp: relay_reply_def challenge_key_def tunnel_creds_def cert_source_def quic_tunnel_certs_def
          parse_cert_chain_pem_def terr_def result_tbind split: option.splits sum.splits prepare_result.splits)
  next
    case (Some ka)
    then obtain w1 where w1: "result (write_frame q w (as_bytes ka)) = Some (Inr w1)" "room w1 = None"
      using write_frame_works [OF assms(1,3), of "as_bytes ka"] assms(2) by (auto simp: client_ready_def)
    obtain r1 where r1: "result (read_frame l r) = Some (Inr (ack, r1))" "contents r1 = rest" "fin r1 = fin r"
      using read_frame_works [of r ack rest l] assms(2,5,6) Some by (auto simp: relay_reply_def client_ready_def)
    have "result (quic_lead l q p c ka w r) = Some (Inr (x, r1))"
      if "cert_of (finalized (finalize_answer p)) = Some x" for p x
      using assms(2) Some
      by (auto simp: client_ready_def quic_lead_def result_terr w1(1) r1(1) challenge_works [OF assms(1) w1(2) that refl]
          simp del: result_with_challenges)
    moreover have "result (quic_follow l q p c ka w r) = Some (Inr (x, r1))"
      if "cert_of (leader_cert (cert_changed p)) = Some x" for p x
      using assms(2) Some
      by (auto simp: client_ready_def quic_follow_def result_terr w1(1) r1(1) challenge_works [OF assms(1) w1(2) that refl]
          simp del: result_with_challenges)
    ultimately show ?thesis
      using Some assms(4) r1
      by (auto simp: challenge_key_def tunnel_creds_def cert_source_def quic_tunnel_certs_def
          parse_cert_chain_pem_def terr_def result_tbind
          split: option.splits sum.splits prepare_result.splits)
  qed
qed

lemma quic_comes_up:
  assumes "transport_works q" and "client_ready l prov c s" and "tunnel_creds l prov c = Some acc"
    and "length ack \<le> MAX_CTRL_FRAME" and "contents (ctrl_in q) = relay_reply (challenge_key prov) ack"
    and "fin (ctrl_in q) = Some d" and "d \<le> QUIC_ACCEPT_TIMEOUT" and "ends_well q"
  shows "happens (quic_loop_inner l q prov c) Up"
proof -
  obtain w1 where w1: "result (write_frame q (ctrl_out q) (as_bytes (conn_domain c))) = Some (Inr w1)" "room w1 = None"
    using write_frame_works [OF assms(1), of "ctrl_out q" "as_bytes (conn_domain c)"] assms(1,2)
    by (auto simp: client_ready_def transport_works_def)
  obtain w2 where w2: "result (write_frame q w1 s) = Some (Inr w2)" "room w2 = None"
    using write_frame_works [OF assms(1) w1(2), of s] assms(2) by (auto simp: client_ready_def)
  obtain r where r: "result (quic_tunnel_certs l q prov c w2 (ctrl_in q)) = Some (Inr (tls_chain acc, r))"
    "contents r = []" "fin r = Some d"
    using quic_tunnel_certs_works [OF assms(1,2) w2(2) assms(3,4), of "ctrl_in q" "[]"] assms(5,6) by auto
  have "result (open_control q) = Some (Inr ())"
    using assms(1) by (auto simp: transport_works_def open_control_def result_tbind)
  moreover have "result (send_signature l q c w1) = Some (Inr w2)"
    using assms(2) w2 by (simp add: send_signature_def client_ready_def)
  moreover have "items r = []" using r(2) by (simp add: contents_def)
  then have "result (await_accept q r) = Some (Inr [])"
    using r(2,3) assms(7,8)
    by (simp add: await_accept_def read_to_end_def result_tbind delay_of_def timeout_def result_def [of "Task _ _"])
  ultimately show ?thesis
    using w1 r by (auto simp: quic_loop_inner_def happens_terr quic_up_def)
qed
text \<open>
  C11. What a QUIC client says and when it carries traffic: on the control stream it never says anything
  but its domain, its signature and one key authorization, which is empty unless it takes part in a
  challenge, and \<open>done\<close> only once it has the certificate; and when the session counts as up, it has
  said all of it, the relay has finished the control stream, and every stream is forwarded behind
  the certificate and key that belong together, none before.
\<close>

theorem quic_up_gated:
  "prefix (said (trace (quic_loop_inner l q prov c))) (client_script l prov c) \<and>
   (happens (quic_loop_inner l q prov c) Up \<longrightarrow>
     ends_well q \<and> fin (ctrl_in q) \<noteq> None \<and>
     (\<exists>pre post acc. trace (quic_loop_inner l q prov c) = pre @ Up # post \<and>
       said pre = client_script l prov c \<and> tunnel_creds l prov c = Some acc \<and>
       (\<forall>e \<in> set pre. \<not> is_traffic e) \<and>
       (\<forall>e \<in> set post. e = DropForwards \<or> (\<exists>n. e = Forward acc n))))"
proof (intro conjI impI quic_loop_says)
  assume up: "happens (quic_loop_inner l q prov c) Up"
  obtain w w' certs r bs where w: "result (write_frame q (ctrl_out q) (as_bytes (conn_domain c))) = Some (Inr w)"
    and s: "result (send_signature l q c w) = Some (Inr w')"
    and t: "result (quic_tunnel_certs l q prov c w' (ctrl_in q)) = Some (Inr (certs, r))"
    and tr: "trace (quic_loop_inner l q prov c) =
      trace (write_frame q (ctrl_out q) (as_bytes (conn_domain c))) @ trace (send_signature l q c w) @
      trace (quic_tunnel_certs l q prov c w' (ctrl_in q)) @ trace (quic_up q (build_tls_acceptor
        (if prov = None then agent_keypair c else identity_keypair c) certs))"
    and a: "result (await_accept q r) = Some (Inr bs)"
    using up by (rule quic_up_course)
  let ?pre = "trace (write_frame q (ctrl_out q) (as_bytes (conn_domain c))) @ trace (send_signature l q c w) @
      trace (quic_tunnel_certs l q prov c w' (ctrl_in q))"
  have "said ?pre = client_script l prov c"
    using s quic_tunnel_certs_result [OF t]
    by (auto simp: send_signature_def client_script_def write_frame_says(2) [OF w] write_frame_says(2) split: sum.splits)
  moreover have "\<forall>e \<in> set ?pre. \<not> is_traffic e"
    using quiet_tunnel_certs quiet_signature quiet_simps(2) unfolding quiet_def by (metis Un_iff set_append)
  ultimately show "\<exists>pre post acc. trace (quic_loop_inner l q prov c) = pre @ Up # post \<and>
       said pre = client_script l prov c \<and> tunnel_creds l prov c = Some acc \<and>
       (\<forall>e \<in> set pre. \<not> is_traffic e) \<and>
       (\<forall>e \<in> set post. e = DropForwards \<or> (\<exists>n. e = Forward acc n))"
    using quic_tunnel_certs_result [OF t] trace_quic_up tr by (metis append.assoc)
  show "ends_well q" "fin (ctrl_in q) \<noteq> None"
    using await_accept_Inr [OF a] fin_tunnel_certs [OF t] by simp_all
qed
definition demo_leader :: prov_env where
  "demo_leader = \<lparr>prepare_answer = Some (5, Inr (LeaderChallenge ''ka'' ''u'' 0)),
     finalize_answer = Some (9, Inr ''pem''), cert_changed = None\<rparr>"

definition demo_ctrl_libs :: ctrl_libs where
  "demo_ctrl_libs = \<lparr>setup_libs = demo_client_libs, alpn_acceptor = \<lambda>_ _. True,
     pem_certs = \<lambda>_. Some [[3]], try_reserve = \<lambda>_. True\<rparr>"

definition demo_quic_ctrl :: quic_ctrl where
  "demo_quic_ctrl = \<lparr>open_ctrl = Some (1, Inr ()), ctrl_out = \<lparr>sent = [], room = None\<rparr>,
     write_time = \<lambda>_. Some 0, ctrl_in = instantly (frame (as_bytes ''ack'')), ends_well = True,
     challenge_streams = [(2, Inr 4)], done_first = True, tunnel_streams = [(7, Inr 8)], stop_called = Some 100\<rparr>"

lemma demo_signature:
  "sign_recoverable demo_client_libs demo_identity (as_bytes ''aaaaaaaa.x'') =
     Inr (as_bytes ''aaaaaaaa.x'' @ replicate 55 7)"
  by (simp add: sign_recoverable_def demo_client_libs_def demo_identity_def)

lemma demo_client_ready:
  "client_ready demo_ctrl_libs (Some demo_leader) demo_connection (as_bytes ''aaaaaaaa.x'' @ replicate 55 7)"
proof -
  have "csr_der demo_connection = Some [2]"
    by (simp add: demo_connection_def build_connection_def id_bytes_def demo_client_libs_def demo_identity_def
        demo_libs_def Let_def)
  then show ?thesis
    by (simp add: client_ready_def demo_ctrl_libs_def demo_connection_built demo_signature challenge_key_def
        demo_leader_def MAX_CTRL_FRAME_def)
qed

lemma demo_transport_works: "transport_works demo_quic_ctrl"
  by (simp add: transport_works_def demo_quic_ctrl_def)

lemma demo_creds:
  "tunnel_creds demo_ctrl_libs (Some demo_leader) c = Some \<lparr>tls_chain = [[3]], tls_key = identity_keypair c\<rparr>"
  by (simp add: tunnel_creds_def cert_source_def cert_of_def finalized_def demo_leader_def demo_ctrl_libs_def)

lemma demo_comes_up: "happens (quic_loop_inner demo_ctrl_libs demo_quic_ctrl (Some demo_leader) demo_connection) Up"
  by (rule quic_comes_up [OF demo_transport_works demo_client_ready demo_creds, where ack = "as_bytes ''ack''" and d = 0])
     (simp_all add: demo_quic_ctrl_def relay_reply_def challenge_key_def demo_leader_def MAX_CTRL_FRAME_def items_instantly)

theorem quic_up_gated_witness:
  "\<exists>pre post acc. trace (quic_loop_inner demo_ctrl_libs demo_quic_ctrl (Some demo_leader) demo_connection) =
       pre @ Up # post \<and> said pre = client_script demo_ctrl_libs (Some demo_leader) demo_connection \<and>
     tunnel_creds demo_ctrl_libs (Some demo_leader) demo_connection = Some acc"
  using quic_up_gated [of demo_ctrl_libs demo_quic_ctrl "Some demo_leader" demo_connection] demo_comes_up by blast

section \<open>Forwards\<close>

text \<open>
  The two steps that set a forward up are bounded: within forty seconds of its stream being
  accepted it copies bytes, or it has ended.
\<close>

lemma pipe_set_up_bounded:
  "(\<exists>t \<le> PIPE_HANDSHAKE_TIMEOUT + PIPE_CONNECT_TIMEOUT. (t, CopyStarts) \<in> set (effects (pipe tls target tcp copying))) \<or>
   (\<exists>t \<le> PIPE_HANDSHAKE_TIMEOUT + PIPE_CONNECT_TIMEOUT. finish (pipe tls target tcp copying) = Some t)"
proof -
  obtain t h where h: "outcome (timeout PIPE_HANDSHAKE_TIMEOUT (await tls) :: (pipe_event, _) task) = Some (t, h)"
    and t: "t \<le> PIPE_HANDSHAKE_TIMEOUT" using timeout_resolves by blast
  obtain u k where k: "outcome (timeout PIPE_CONNECT_TIMEOUT (await tcp) :: (pipe_event, _) task) = Some (u, k)"
    and u: "u \<le> PIPE_CONNECT_TIMEOUT" using timeout_resolves by blast
  have sum: "t + u \<le> PIPE_HANDSHAKE_TIMEOUT + PIPE_CONNECT_TIMEOUT" "t \<le> PIPE_HANDSHAKE_TIMEOUT + PIPE_CONNECT_TIMEOUT"
    using t u by simp_all
  show ?thesis
  proof (cases "(\<exists>x. h = Some (Inr x)) \<and> (\<exists>x. k = Some (Inr x))")
    case True
    then have "(t + u, CopyStarts) \<in> set (effects (pipe tls target tcp copying))"
      by (auto simp: pipe_def tbind_def [of "timeout PIPE_HANDSHAKE_TIMEOUT _"] h task_simps tthen_emit
          tbind_def [of "timeout PIPE_CONNECT_TIMEOUT _"] k)
    with sum(1) show ?thesis by blast
  next
    case False
    then have "finish (pipe tls target tcp copying) \<in> {Some t, Some (t + u)}"
      by (cases h; cases k) (auto simp: pipe_def finish_tbind h k split: sum.splits)
    with sum show ?thesis by auto
  qed
qed
section \<open>The session around it\<close>

text \<open>How the reconnect loop sees a run of \<open>quic_loop_inner\<close>.\<close>

definition quic_env_of :: "anyhow_view \<Rightarrow> unit client_task \<Rightarrow> quic_env \<Rightarrow> quic_env" where
  "quic_env_of v m e =
     e\<lparr>loop_result := (case result m of Some (Inl x) \<Rightarrow> Inl (from_error v x) | _ \<Rightarrow> Inr ()),
       ctrl_completed := happens m Up\<rparr>"

lemma quiet_no_Up: "quiet m \<Longrightarrow> filter ((=) Up) (trace m) = []"
  by (auto simp: quiet_def filter_empty_conv)

lemma up_once:
  "filter ((=) Up) (trace (quic_loop_inner l q prov c)) =
     (if happens (quic_loop_inner l q prov c) Up then [Up] else [])"
proof (cases "happens (quic_loop_inner l q prov c) Up")
  case True
  then obtain w w' certs where tr: "trace (quic_loop_inner l q prov c) =
      trace (write_frame q (ctrl_out q) (as_bytes (conn_domain c))) @ trace (send_signature l q c w) @
      trace (quic_tunnel_certs l q prov c w' (ctrl_in q)) @ trace (quic_up q (build_tls_acceptor
        (if prov = None then agent_keypair c else identity_keypair c) certs))"
    by (rule quic_up_course)
  obtain post where "trace (quic_up q (build_tls_acceptor
        (if prov = None then agent_keypair c else identity_keypair c) certs)) = Up # post"
    and "\<forall>e \<in> set post. e = DropForwards \<or> (\<exists>n. e = Forward (build_tls_acceptor
        (if prov = None then agent_keypair c else identity_keypair c) certs) n)"
    using trace_quic_up by blast
  moreover from this(2) have "filter ((=) Up) post = []" by (auto simp: filter_empty_conv)
  moreover have "filter ((=) Up) (trace (quic_tunnel_certs l q prov c w' (ctrl_in q))) = []"
    "filter ((=) Up) (trace (send_signature l q c w)) = []"
    "filter ((=) Up) (trace (write_frame q (ctrl_out q) (as_bytes (conn_domain c)))) = []"
    by (simp_all add: quiet_no_Up quiet_tunnel_certs)
  ultimately show ?thesis using True tr by simp
qed (auto simp: happens_trace filter_empty_conv)

text \<open>The session reports exactly what happened: as established once it came up, and then as lost.\<close>

lemma quic_session_reports:
  assumes "connect_ok e" and "\<not> stopped_after e"
  shows "fst (snd (quic_session tag addr (quic_env_of v (quic_loop_inner l q prov c) e) slot)) =
    concat (map (\<lambda>_. [Established tag addr TransportQuic, Lost tag addr TransportQuic
      (case result (quic_loop_inner l q prov c) of Some (Inl x) \<Rightarrow> print_error v x | _ \<Rightarrow> ''connection closed'')])
      (filter ((=) Up) (trace (quic_loop_inner l q prov c))))"
  using assms
  by (auto simp: quic_session_def quic_loop_def quic_env_of_def up_once from_error_def AttemptFailure_new_def Let_def
      split: option.splits sum.splits prod.splits)

end
