(* ===== verification/Client_H2.thy ===== *)
theory Client_H2
  imports Client_Session H2_Pool
begin

text \<open>
  The client's side of the control exchange over H2 (\<^verbatim>\<open>tunnel-client/src/client.rs\<close>, \<open>h2_ctrl_exchange\<close>
  and what it calls). Here the client is the server: the relay asks for the domain, the signature
  and the key authorization, opens challenge streams, and asks to be told when the challenge is
  over; or it delivers its rejection instead of the next request.
\<close>

section \<open>Requests\<close>

text \<open>
  A request as it arrives, with whether the response head and the response body can be sent.
\<close>

record h2_request =
  path :: string
  req_body :: "(string + byte list) source"
  head_sent :: bool
  data_sent :: bool
  stream_id :: nat

type_synonym h2_requests = "(string + h2_request) source"

definition check_reject :: "h2_request \<Rightarrow> unit client_task" where
  "check_reject req =
     (if path req \<noteq> CTRL_REJECT_PATH then tret (Inr ())
      else
        tbind (collect_h2_body ReleasedCapacity MAX_CTRL_FRAME (req_body req)) (\<lambda>b.
          let reason = (case b of Inr bs \<Rightarrow> from_utf8_lossy bs | Inl e \<Rightarrow> '''') in
          if head_sent req
          then tthen (emit (Responded CTRL_REJECT_PATH [])) (tret (Inl (RelayRejection reason)))
          else tret (Inl (RelayRejection reason))))"

text \<open>The next request, or \<open>closed\<close> if the relay hung up first, with the requests still to come.\<close>

definition accept_ctrl :: "h2_requests \<Rightarrow> string \<Rightarrow> (h2_request \<times> h2_requests) client_task" where
  "accept_ctrl h closed =
     (case items h of
        [] \<Rightarrow> await (map_option (\<lambda>d. (d, Inl (ClosedBefore closed))) (fin h))
      | (d, res) # rest \<Rightarrow>
          tthen (sleep d) (case res of
            Inl e \<Rightarrow> tret (Inl (ConnectionLost e))
          | Inr req \<Rightarrow> terr (check_reject req) (\<lambda>_. tret (Inr (req, Source rest (fin h))))))"

definition ensure_path :: "string \<Rightarrow> h2_request \<Rightarrow> unit client_task" where
  "ensure_path p req = tret (if path req = p then Inr () else Inl (UnexpectedPath (path req)))"

definition respond :: "h2_request \<Rightarrow> byte list \<Rightarrow> unit client_task" where
  "respond req body =
     (if head_sent req \<and> data_sent req then tthen (emit (Responded (path req) body)) (tret (Inr ()))
      else tret (Inl ResponseFailed))"

section \<open>Challenges\<close>

text \<open>A challenge stream is answered and handed to a responder.\<close>

definition accept_challenge :: "string \<Rightarrow> h2_request \<Rightarrow> unit client_task" where
  "accept_challenge ka req =
     (if head_sent req then tthen (emit (ServeChallenge ka (stream_id req))) (tret (Inr ()))
      else tret (Inl ResponseFailed))"

text \<open>
  Serves challenge streams until the relay asks for the end of the challenge; the result is that
  request, the requests still to come, and the time it took.
\<close>

fun h2_challenge_loop :: "string \<Rightarrow> duration \<Rightarrow> (duration \<times> (string + h2_request)) list \<Rightarrow> duration option \<Rightarrow>
    (h2_request \<times> h2_requests \<times> duration) client_task" where
  "h2_challenge_loop ka elapsed [] eof =
     await (map_option (\<lambda>d. (d, Inl (ClosedBefore ''connection closed during challenge''))) eof)"
| "h2_challenge_loop ka elapsed ((d, res) # rest) eof =
     tthen (sleep d) (case res of
       Inl e \<Rightarrow> tret (Inl (ConnectionLost e))
     | Inr req \<Rightarrow>
         terr (check_reject req) (\<lambda>_.
           if path req = ''/_ctrl/alpn''
           then terr (accept_challenge ka req) (\<lambda>_. h2_challenge_loop ka (elapsed + d) rest eof)
           else if path req = ''/_ctrl/done'' then tret (Inr (req, Source rest eof, elapsed + d))
           else tret (Inl (UnexpectedPath (path req)))))"

fun h2_serve_challenges_until :: "bool \<Rightarrow> string \<Rightarrow> (duration \<times> (string + h2_request)) list \<Rightarrow> duration option \<Rightarrow>
    (client_error + string) fut \<Rightarrow> string client_task" where
  "h2_serve_challenges_until tie ka [] eof pem =
     (case eof of
        None \<Rightarrow> await pem
      | Some d \<Rightarrow>
          if before tie d pem then await (Some (d, Inl (ClosedBefore ''connection closed while awaiting'')))
          else await pem)"
| "h2_serve_challenges_until tie ka ((d, res) # rest) eof pem =
     (if before tie d pem
      then tthen (sleep d) (case res of
          Inl e \<Rightarrow> tret (Inl (ConnectionLost e))
        | Inr req \<Rightarrow>
            terr (check_reject req) (\<lambda>_.
              if path req = ''/_ctrl/alpn''
              then terr (accept_challenge ka req) (\<lambda>_. h2_serve_challenges_until tie ka rest eof (elapse d pem))
              else h2_serve_challenges_until tie ka rest eof (elapse d pem)))
      else await pem)"

text \<open>The two loops one after the other; the certificate is waited for from the start of the first.\<close>

definition h2_hold_challenge :: "bool \<Rightarrow> string \<Rightarrow> h2_requests \<Rightarrow> (client_error + string) fut \<Rightarrow> string client_task" where
  "h2_hold_challenge tie ka h pem =
     terr (h2_challenge_loop ka 0 (items h) (fin h)) (\<lambda>(req, h, elapsed).
     terr (h2_serve_challenges_until tie ka (items h) (fin h) (elapse elapsed pem)) (\<lambda>cert_pem.
     if head_sent req then tthen (emit (Responded (path req) [])) (tret (Inr cert_pem))
     else tret (Inl ResponseFailed)))"

definition h2_lead :: "ctrl_libs \<Rightarrow> bool \<Rightarrow> prov_env \<Rightarrow> connection \<Rightarrow> string \<Rightarrow> h2_request \<Rightarrow> h2_requests \<Rightarrow> string client_task" where
  "h2_lead l tie p c ka req h =
     (if \<not> alpn_acceptor l (conn_domain c) ka then tret (Inl AlpnAcceptor)
      else
        terr (respond req (as_bytes ka)) (\<lambda>_.
        case csr_der c of
          None \<Rightarrow> tret (Inl MissingCsr)
        | Some csr \<Rightarrow>
            tthen (emit (SpawnFinalize (conn_domain c) ka csr))
              (with_challenges (h2_hold_challenge tie ka h (finalized (finalize_answer p))))))"

definition h2_follow :: "ctrl_libs \<Rightarrow> bool \<Rightarrow> prov_env \<Rightarrow> connection \<Rightarrow> string \<Rightarrow> h2_request \<Rightarrow> h2_requests \<Rightarrow> string client_task" where
  "h2_follow l tie p c ka req h =
     (if \<not> alpn_acceptor l (conn_domain c) ka then tret (Inl AlpnAcceptor)
      else
        terr (respond req (as_bytes ka)) (\<lambda>_.
        with_challenges (h2_hold_challenge tie ka h (leader_cert (cert_changed p)))))"

section \<open>The exchange\<close>

definition h2_key_auth :: "ctrl_libs \<Rightarrow> bool \<Rightarrow> prov_env option \<Rightarrow> connection \<Rightarrow> h2_request \<Rightarrow> h2_requests \<Rightarrow>
    byte list list client_task" where
  "h2_key_auth l tie prov c req h =
     (case prov of
        None \<Rightarrow> terr (respond req []) (\<lambda>_. tret (Inr [agent_cert c]))
      | Some p \<Rightarrow>
          terr (tbind (await (prepare_answer p)) (\<lambda>a. tret (case a of Inl e \<Rightarrow> Inl (Provisioning e) | Inr x \<Rightarrow> Inr x)))
            (\<lambda>prepared.
             terr (case prepared of
                 Cached pem \<Rightarrow> terr (respond req []) (\<lambda>_. tret (Inr pem))
               | LeaderChallenge ka chal i \<Rightarrow> h2_lead l tie p c ka req h
               | FollowerChallenge ka i \<Rightarrow> h2_follow l tie p c ka req h)
             (\<lambda>cert_pem. tret (parse_cert_chain_pem l cert_pem))))"

definition h2_ctrl_exchange :: "ctrl_libs \<Rightarrow> bool \<Rightarrow> prov_env option \<Rightarrow> connection \<Rightarrow> h2_requests \<Rightarrow>
    byte list list client_task" where
  "h2_ctrl_exchange l tie prov c h =
     terr (accept_ctrl h ''closed before /_ctrl/domain'') (\<lambda>(req, h).
     terr (ensure_path ''/_ctrl/domain'' req) (\<lambda>_.
     terr (respond req (as_bytes (conn_domain c))) (\<lambda>_.
     terr (accept_ctrl h ''closed before /_ctrl/sig'') (\<lambda>(req, h).
     terr (ensure_path ''/_ctrl/sig'' req) (\<lambda>_.
     case sign_recoverable (setup_libs l) (identity_keypair c) (as_bytes (conn_domain c)) of
       Inl e \<Rightarrow> tret (Inl (Opening (CannotSign e)))
     | Inr s \<Rightarrow>
         terr (respond req s) (\<lambda>_.
         terr (accept_ctrl h ''closed before /_ctrl/key_auth'') (\<lambda>(req, h).
         terr (ensure_path ''/_ctrl/key_auth'' req) (\<lambda>_.
         h2_key_auth l tie prov c req h))))))))"

text \<open>What the attempt of a pool member sees of it.\<close>

definition exchange_seen :: "anyhow_view \<Rightarrow> 'a client_task \<Rightarrow> (exchange_error + unit) fut" where
  "exchange_seen v m = map_option (apsnd (\<lambda>r. case r of
     Inl (RelayRejection reason) \<Rightarrow> Inl (RelayRejected reason)
   | Inl e \<Rightarrow> Inl (ExchangeFailed (from_error v e))
   | Inr _ \<Rightarrow> Inr ())) (outcome m)"

section \<open>What the client answers\<close>

text \<open>The answers to the relay's questions, the acknowledgement of a rejection apart.\<close>

fun answer_of :: "client_event \<Rightarrow> (string \<times> byte list) list" where
  "answer_of (Responded p body) = (if p = CTRL_REJECT_PATH then [] else [(p, body)])"
| "answer_of _ = []"

definition answers :: "client_event list \<Rightarrow> (string \<times> byte list) list" where
  "answers tr = concat (map answer_of tr)"

lemma answers_simps [simp]:
  "answers [] = []" "answers (e # tr) = answer_of e @ answers tr" "answers (tr @ tr') = answers tr @ answers tr'"
  by (simp_all add: answers_def)

definition done_answer :: "string option \<Rightarrow> (string \<times> byte list) list" where
  "done_answer pem = (if pem = None then [] else [(''/_ctrl/done'', [])])"

definition key_auth_answers :: "prov_env option \<Rightarrow> (string \<times> byte list) list" where
  "key_auth_answers prov =
     (case challenge_key prov of
        Some ka \<Rightarrow> (''/_ctrl/key_auth'', as_bytes ka) # done_answer (Option.bind prov cert_source)
      | None \<Rightarrow> [(''/_ctrl/key_auth'', [])])"

definition h2_answers :: "ctrl_libs \<Rightarrow> prov_env option \<Rightarrow> connection \<Rightarrow> (string \<times> byte list) list" where
  "h2_answers l prov c =
     (''/_ctrl/domain'', as_bytes (conn_domain c)) #
     (case sign_recoverable (setup_libs l) (identity_keypair c) (as_bytes (conn_domain c)) of
        Inl e \<Rightarrow> []
      | Inr s \<Rightarrow> (''/_ctrl/sig'', s) # key_auth_answers prov)"

lemma prefix_answers_terr:
  assumes "prefix (answers (trace m)) a"
    and "\<And>x. result m = Some (Inr x) \<Longrightarrow> answers (trace m) = a \<and> prefix (answers (trace (k x))) b"
  shows "prefix (answers (trace (terr m k))) (a @ b)"
proof (cases rule: terr_course [of m k, case_names stops continues])
  case stops
  with assms(1) show ?thesis by (simp add: prefix_prefix)
next
  case (continues x)
  with assms(2) [OF continues(1)] show ?thesis by simp
qed

lemma no_answer_terr:
  assumes "answers (trace m) = []" and "\<And>x. result m = Some (Inr x) \<Longrightarrow> prefix (answers (trace (k x))) b"
  shows "prefix (answers (trace (terr m k))) b"
  using prefix_answers_terr [of m "[]" k b] assms by simp

lemma answers_collect [simp]: "answers (trace (collect_h2_body ReleasedCapacity n body)) = []"
proof -
  have "answers (trace (collect_chunks ReleasedCapacity n buf cs e)) = []" for buf cs e
    by (induction ReleasedCapacity n buf cs e rule: collect_chunks.induct)
       (auto simp: trace_tbind split: sum.split)
  then show ?thesis by (simp add: collect_h2_body_def)
qed

lemma check_reject_silent [simp]: "answers (trace (check_reject req)) = []"
  by (auto simp: check_reject_def trace_tbind Let_def split: option.split)

lemma accept_ctrl_silent [simp]: "answers (trace (accept_ctrl h closed)) = []"
  by (auto simp: accept_ctrl_def trace_terr split: list.split sum.split option.split)

lemma ensure_path_simps [simp]:
  "trace (ensure_path p req) = []" "result (ensure_path p req) = Some (Inr u) \<longleftrightarrow> path req = p"
  by (simp_all add: ensure_path_def)

lemma respond_answers:
  "path req = p \<Longrightarrow> p \<noteq> CTRL_REJECT_PATH \<Longrightarrow> prefix (answers (trace (respond req body))) [(p, body)]"
  "path req = p \<Longrightarrow> p \<noteq> CTRL_REJECT_PATH \<Longrightarrow> result (respond req body) = Some (Inr u) \<Longrightarrow>
     answers (trace (respond req body)) = [(p, body)]"
  by (auto simp: respond_def split: if_splits)

lemma ctrl_paths [simp]:
  "''/_ctrl/domain'' \<noteq> CTRL_REJECT_PATH" "''/_ctrl/sig'' \<noteq> CTRL_REJECT_PATH"
  "''/_ctrl/key_auth'' \<noteq> CTRL_REJECT_PATH" "''/_ctrl/done'' \<noteq> CTRL_REJECT_PATH"
  "''/_ctrl/alpn'' \<noteq> CTRL_REJECT_PATH"
  by (simp_all add: CTRL_REJECT_PATH_def)

lemma accept_challenge_silent [simp]: "answers (trace (accept_challenge ka req)) = []"
  by (simp add: accept_challenge_def)

lemma terr_silent:
  assumes "answers (trace m) = []" and "\<And>x. answers (trace (k x)) = []"
  shows "answers (trace (terr m k)) = []"
  using no_answer_terr [of m k "[]"] assms by simp

lemma challenge_loop_silent:
  "answers (trace (h2_challenge_loop ka el rs eof)) = []"
  by (induction ka el rs eof rule: h2_challenge_loop.induct) (auto intro!: terr_silent split: sum.split)

lemma challenge_loop_done:
  "result (h2_challenge_loop ka el rs eof) = Some (Inr (req, h, t)) \<Longrightarrow> path req = ''/_ctrl/done''"
  by (induction ka el rs eof rule: h2_challenge_loop.induct)
     (auto simp: result_terr split: sum.splits if_splits)

lemma serve_until_silent:
  "answers (trace (h2_serve_challenges_until tie ka rs eof pem)) = []"
proof (induction tie ka rs eof pem rule: h2_serve_challenges_until.induct)
  case (2 tie ka d res rest eof pem)
  then show ?case by (cases "before tie d pem") (auto intro!: terr_silent split: sum.split)
qed (auto split: option.split)

lemma cert_of_elapse [simp]: "cert_of (elapse t pem) = cert_of pem"
  by (auto simp: cert_of_def elapse_def split: option.split)

lemma serve_until_cert:
  "result (h2_serve_challenges_until tie ka rs eof pem) = Some (Inr x) \<Longrightarrow> cert_of pem = Some x"
proof (induction tie ka rs eof pem rule: h2_serve_challenges_until.induct)
  case (1 tie ka eof pem)
  then show ?case by (auto simp: cert_of_def split: option.splits if_splits)
next
  case (2 tie ka d res rest eof pem)
  show ?case
  proof (cases "before tie d pem")
    case True
    with 2 show ?thesis by (auto simp: result_terr split: sum.splits if_splits)
  next
    case False
    with 2 show ?thesis by (auto simp: cert_of_def split: option.splits)
  qed
qed
lemma hold_challenge_answers:
  "prefix (answers (trace (with_challenges (h2_hold_challenge tie ka h pem)))) (done_answer (cert_of pem))"
  "result (h2_hold_challenge tie ka h pem) = Some (Inr x) \<Longrightarrow>
     answers (trace (with_challenges (h2_hold_challenge tie ka h pem))) = done_answer (Some x) \<and> cert_of pem = Some x"
proof -
  have "prefix (answers (trace (h2_hold_challenge tie ka h pem))) (done_answer (cert_of pem))"
    unfolding h2_hold_challenge_def
  proof (rule no_answer_terr [OF challenge_loop_silent], clarify)
    fix req h' t
    assume d: "result (h2_challenge_loop ka 0 (items h) (fin h)) = Some (Inr (req, h', t))"
    show "prefix (answers (trace (terr (h2_serve_challenges_until tie ka (items h') (fin h') (elapse t pem))
        (\<lambda>cert_pem. if head_sent req then tthen (emit (Responded (path req) [])) (tret (Inr cert_pem))
          else tret (Inl ResponseFailed))))) (done_answer (cert_of pem))"
      by (rule no_answer_terr [OF serve_until_silent])
         (auto simp: done_answer_def challenge_loop_done [OF d] dest: serve_until_cert)
  qed
  then show "prefix (answers (trace (with_challenges (h2_hold_challenge tie ka h pem)))) (done_answer (cert_of pem))"
    by (auto simp: trace_with_challenges)
  show "result (h2_hold_challenge tie ka h pem) = Some (Inr x) \<Longrightarrow>
     answers (trace (with_challenges (h2_hold_challenge tie ka h pem))) = done_answer (Some x) \<and> cert_of pem = Some x"
    by (auto simp: h2_hold_challenge_def trace_with_challenges result_terr trace_terr challenge_loop_silent
        serve_until_silent done_answer_def split: if_splits dest: challenge_loop_done serve_until_cert)
qed

text \<open>Leader and follower alike: the key authorization first, then the challenge.\<close>

lemma challenge_answers:
  assumes m: "m = (if \<not> alpn_acceptor l (conn_domain c) ka then tret (Inl AlpnAcceptor)
      else terr (respond req (as_bytes ka)) (\<lambda>_. k))"
    and "path req = ''/_ctrl/key_auth''" and "prefix (answers (trace k)) (done_answer pem)"
    and "\<And>x. result k = Some (Inr x) \<Longrightarrow> answers (trace k) = done_answer (Some x) \<and> pem = Some x"
  shows "prefix (answers (trace m)) ((''/_ctrl/key_auth'', as_bytes ka) # done_answer pem)"
    and "result m = Some (Inr x) \<Longrightarrow>
      answers (trace m) = (''/_ctrl/key_auth'', as_bytes ka) # done_answer (Some x) \<and> pem = Some x"
proof -
  have "prefix (answers (trace (terr (respond req (as_bytes ka)) (\<lambda>_. k))))
      ([(''/_ctrl/key_auth'', as_bytes ka)] @ done_answer pem)"
    by (rule prefix_answers_terr) (auto simp: respond_answers [OF assms(2)] assms(3))
  then show "prefix (answers (trace m)) ((''/_ctrl/key_auth'', as_bytes ka) # done_answer pem)"
    by (simp add: m)
  show "result m = Some (Inr x) \<Longrightarrow>
      answers (trace m) = (''/_ctrl/key_auth'', as_bytes ka) # done_answer (Some x) \<and> pem = Some x"
    using assms(4) by (auto simp: m result_terr trace_terr respond_answers(2) [OF assms(2)] split: if_splits)
qed

lemma h2_lead_answers:
  assumes "path req = ''/_ctrl/key_auth''"
  shows "prefix (answers (trace (h2_lead l tie p c ka req h)))
      ((''/_ctrl/key_auth'', as_bytes ka) # done_answer (cert_of (finalized (finalize_answer p))))"
    and "result (h2_lead l tie p c ka req h) = Some (Inr x) \<Longrightarrow>
      answers (trace (h2_lead l tie p c ka req h)) = (''/_ctrl/key_auth'', as_bytes ka) # done_answer (Some x) \<and>
      cert_of (finalized (finalize_answer p)) = Some x"
  by (rule challenge_answers [OF h2_lead_def assms];
      auto simp: hold_challenge_answers split: option.splits dest: hold_challenge_answers(2))+

lemma h2_follow_answers:
  assumes "path req = ''/_ctrl/key_auth''"
  shows "prefix (answers (trace (h2_follow l tie p c ka req h)))
      ((''/_ctrl/key_auth'', as_bytes ka) # done_answer (cert_of (leader_cert (cert_changed p))))"
    and "result (h2_follow l tie p c ka req h) = Some (Inr x) \<Longrightarrow>
      answers (trace (h2_follow l tie p c ka req h)) = (''/_ctrl/key_auth'', as_bytes ka) # done_answer (Some x) \<and>
      cert_of (leader_cert (cert_changed p)) = Some x"
  by (rule challenge_answers [OF h2_follow_def assms];
      auto simp: hold_challenge_answers dest: hold_challenge_answers(2))+

lemma h2_key_auth_prefix:
  assumes "path req = ''/_ctrl/key_auth''"
  shows "prefix (answers (trace (h2_key_auth l tie prov c req h))) (key_auth_answers prov)"
proof (cases prov)
  case None
  have "prefix (answers (trace (terr (respond req []) (\<lambda>_. tret r)))) [(''/_ctrl/key_auth'', [])]" for r :: "_ + 'a"
    using respond_answers(1) [OF assms, of "[]"] by (auto simp: trace_terr split: option.split sum.split)
  with None show ?thesis by (simp add: h2_key_auth_def key_auth_answers_def challenge_key_def)
next
  case (Some p)
  have parsed: "prefix (answers (trace m)) b \<Longrightarrow> prefix (answers (trace (terr m (\<lambda>x. tret (f x))))) b"
    for m b and f :: "string \<Rightarrow> _"
    by (auto simp: trace_terr split: option.split sum.split)
  show ?thesis
  proof (cases "prepare_answer p")
    case None
    then show ?thesis by (simp add: Some h2_key_auth_def trace_terr trace_tbind result_tbind)
  next
    case (Some ta)
    then show ?thesis
      using \<open>prov = Some p\<close> h2_lead_answers(1) [OF assms] h2_follow_answers(1) [OF assms]
        respond_answers(1) [OF assms, of "[]"]
      by (cases "snd ta"; cases "projr (snd ta)"; cases ta)
         (auto simp: h2_key_auth_def key_auth_answers_def challenge_key_def cert_source_def
           trace_terr [of "tbind _ _"] trace_tbind result_tbind intro!: parsed,
          auto simp: trace_terr split: option.split sum.split)
  qed
qed

lemma h2_key_auth_result:
  assumes "path req = ''/_ctrl/key_auth''" and r: "result (h2_key_auth l tie prov c req h) = Some (Inr certs)"
  shows "answers (trace (h2_key_auth l tie prov c req h)) = key_auth_answers prov \<and>
    tunnel_creds l prov c =
      Some (build_tls_acceptor (if prov = None then agent_keypair c else identity_keypair c) certs)"
proof (cases prov)
  case None
  with r show ?thesis
    by (auto simp: h2_key_auth_def key_auth_answers_def challenge_key_def tunnel_creds_def build_tls_acceptor_def
        result_terr trace_terr respond_answers(2) [OF assms(1)])
next
  case (Some p)
  with r obtain t y where y: "prepare_answer p = Some (t, y)"
    by (cases "prepare_answer p") (auto simp: h2_key_auth_def result_terr result_tbind)
  with r Some obtain x where x: "prepare_answer p = Some (t, Inr x)"
    by (cases y) (auto simp: h2_key_auth_def result_terr result_tbind)
  show ?thesis
    using r Some x
    by (cases x)
       (auto simp: h2_key_auth_def key_auth_answers_def challenge_key_def tunnel_creds_def build_tls_acceptor_def
        cert_source_def parse_cert_chain_pem_def result_terr trace_terr trace_tbind result_tbind
        respond_answers(2) [OF assms(1)] split: option.splits sum.splits
        dest!: h2_lead_answers(2) [OF assms(1)] h2_follow_answers(2) [OF assms(1)])
qed

lemmas h2_key_auth_answers = h2_key_auth_prefix h2_key_auth_result

text \<open>One question and its answer; the question comes before anything it takes to answer it.\<close>

lemma ask_then:
  assumes "\<And>req h. path req = p \<Longrightarrow> prefix (answers (trace (k req h))) b"
  shows "prefix (answers (trace (terr (accept_ctrl h closed) (\<lambda>(req, h). terr (ensure_path p req) (\<lambda>_. k req h))))) b"
  by (rule no_answer_terr) (auto intro!: no_answer_terr assms)

lemma answer_then:
  assumes "path req = p" and "p \<noteq> CTRL_REJECT_PATH" and "prefix (answers (trace k)) b"
  shows "prefix (answers (trace (terr (respond req body) (\<lambda>_. k)))) ((p, body) # b)"
proof -
  have "prefix (answers (trace (terr (respond req body) (\<lambda>_. k)))) ([(p, body)] @ b)"
    by (rule prefix_answers_terr) (auto simp: respond_answers [OF assms(1,2)] assms(3))
  then show ?thesis by simp
qed

lemma ask_result:
  assumes "result (terr (accept_ctrl h closed) (\<lambda>(req, h). terr (ensure_path p req) (\<lambda>_. k req h))) = Some (Inr x)"
  obtains req h' where "path req = p" and "result (k req h') = Some (Inr x)"
    and "answers (trace (terr (accept_ctrl h closed) (\<lambda>(req, h). terr (ensure_path p req) (\<lambda>_. k req h)))) =
      answers (trace (k req h'))"
proof -
  from assms obtain req h' where r: "result (accept_ctrl h closed) = Some (Inr (req, h'))" "path req = p"
      "result (k req h') = Some (Inr x)"
    by (auto simp: result_terr)
  then show thesis by (intro that [of req h']) (simp_all add: trace_terr ensure_path_def)
qed

lemma answer_result:
  assumes "result (terr (respond req body) (\<lambda>_. k)) = Some (Inr x)" and "path req = p" and "p \<noteq> CTRL_REJECT_PATH"
  shows "result k = Some (Inr x) \<and> answers (trace (terr (respond req body) (\<lambda>_. k))) = (p, body) # answers (trace k)"
  using assms by (auto simp: result_terr trace_terr respond_answers(2))

lemma h2_exchange_says:
  "prefix (answers (trace (h2_ctrl_exchange l tie prov c h))) (h2_answers l prov c)"
proof (cases "sign_recoverable (setup_libs l) (identity_keypair c) (as_bytes (conn_domain c))")
  case (Inl e)
  show ?thesis
    unfolding h2_ctrl_exchange_def h2_answers_def Inl sum.case
    by (rule ask_then, rule answer_then, assumption, simp) (rule ask_then, simp)
next
  case (Inr s)
  show ?thesis
    unfolding h2_ctrl_exchange_def h2_answers_def Inr sum.case
    by (rule ask_then, rule answer_then, assumption, simp, rule ask_then, rule answer_then, assumption, simp,
        rule ask_then, rule h2_key_auth_answers)
qed

lemma h2_exchange_result:
  assumes r: "result (h2_ctrl_exchange l tie prov c h) = Some (Inr certs)"
  shows "answers (trace (h2_ctrl_exchange l tie prov c h)) = h2_answers l prov c \<and>
    tunnel_creds l prov c =
      Some (build_tls_acceptor (if prov = None then agent_keypair c else identity_keypair c) certs)"
proof -
  from r obtain s where s: "sign_recoverable (setup_libs l) (identity_keypair c) (as_bytes (conn_domain c)) = Inr s"
    by (cases "sign_recoverable (setup_libs l) (identity_keypair c) (as_bytes (conn_domain c))")
       (auto simp: h2_ctrl_exchange_def result_terr)
  let ?ask3 = "\<lambda>h. terr (accept_ctrl h ''closed before /_ctrl/key_auth'') (\<lambda>(req, h).
      terr (ensure_path ''/_ctrl/key_auth'' req) (\<lambda>_. h2_key_auth l tie prov c req h))"
  let ?ask2 = "\<lambda>h. terr (accept_ctrl h ''closed before /_ctrl/sig'') (\<lambda>(req, h).
      terr (ensure_path ''/_ctrl/sig'' req) (\<lambda>_. terr (respond req s) (\<lambda>_. ?ask3 h)))"
  note ex = h2_ctrl_exchange_def [of l tie prov c h, unfolded s sum.case]
  from r obtain req1 h1 where 1: "path req1 = ''/_ctrl/domain''"
      "result (terr (respond req1 (as_bytes (conn_domain c))) (\<lambda>_. ?ask2 h1)) = Some (Inr certs)"
      "answers (trace (h2_ctrl_exchange l tie prov c h)) =
        answers (trace (terr (respond req1 (as_bytes (conn_domain c))) (\<lambda>_. ?ask2 h1)))"
    unfolding ex by (rule ask_result)
  note a1 = answer_result [OF 1(2,1)]
  have "result (?ask2 h1) = Some (Inr certs)" using a1 by simp
  then obtain req2 h2 where 2: "path req2 = ''/_ctrl/sig''"
      "result (terr (respond req2 s) (\<lambda>_. ?ask3 h2)) = Some (Inr certs)"
      "answers (trace (?ask2 h1)) = answers (trace (terr (respond req2 s) (\<lambda>_. ?ask3 h2)))"
    by (rule ask_result)
  note a2 = answer_result [OF 2(2,1)]
  have "result (?ask3 h2) = Some (Inr certs)" using a2 by simp
  then obtain req3 h3 where 3: "path req3 = ''/_ctrl/key_auth''"
      "result (h2_key_auth l tie prov c req3 h3) = Some (Inr certs)"
      "answers (trace (?ask3 h2)) = answers (trace (h2_key_auth l tie prov c req3 h3))"
    by (rule ask_result)
  note a3 = h2_key_auth_answers(2) [OF 3(1,2)]
  show ?thesis
    using 1(3) a1 2(3) a2 3(3) a3 by (simp add: h2_answers_def s)
qed

text \<open>
  C12. What an H2 client answers: whatever the relay asks and in whatever order, the client gives away
  its domain, its signature and one key authorization in this order, and tells the relay that the
  challenge is over only once it has the certificate; an exchange that succeeds has given all of
  these answers and yields the chain that belongs to the key the tunnel's TLS is terminated with.
\<close>

theorem h2_exchange_answers:
  "prefix (answers (trace (h2_ctrl_exchange l tie prov c h))) (h2_answers l prov c) \<and>
   (\<forall>certs. result (h2_ctrl_exchange l tie prov c h) = Some (Inr certs) \<longrightarrow>
     answers (trace (h2_ctrl_exchange l tie prov c h)) = h2_answers l prov c \<and>
     tunnel_creds l prov c =
       Some (build_tls_acceptor (if prov = None then agent_keypair c else identity_keypair c) certs))"
  using h2_exchange_says h2_exchange_result by blast
section \<open>A rejection is heard\<close>

text \<open>
  The relay sends ordinary requests and then its rejection. A step of the client \<open>hears\<close> it when,
  whenever it would still be waiting after the requests, the rejection ends it.
\<close>

definition plain :: "(duration \<times> (string + h2_request)) list \<Rightarrow> bool" where
  "plain reqs \<longleftrightarrow> (\<forall>(d, res) \<in> set reqs. \<forall>req. res = Inr req \<longrightarrow> path req \<noteq> CTRL_REJECT_PATH)"

definition hears :: "(duration \<times> (string + h2_request)) list \<Rightarrow> duration option \<Rightarrow> string \<Rightarrow> (h2_requests \<Rightarrow> 'a client_task) \<Rightarrow> bool" where
  "hears late eof reason m \<longleftrightarrow> (\<forall>reqs. plain reqs \<longrightarrow> result (m (Source reqs None)) = None \<longrightarrow>
     result (m (Source (reqs @ late) eof)) = Some (Inl (RelayRejection reason)))"

definition rejection_comes :: "(duration \<times> (string + h2_request)) list \<Rightarrow> string \<Rightarrow> bool" where
  "rejection_comes late reason \<longleftrightarrow> (\<exists>t rej rest b. late = (t, Inr rej) # rest \<and> path rej = CTRL_REJECT_PATH \<and>
     result (collect_h2_body ReleasedCapacity MAX_CTRL_FRAME (req_body rej)) = Some b \<and>
     reason = (case b of Inr bs \<Rightarrow> from_utf8_lossy bs | Inl e \<Rightarrow> ''''))"

lemma plain_simps [simp]:
  "plain []" "plain ((d, Inl e) # reqs) \<longleftrightarrow> plain reqs"
  "plain ((d, Inr req) # reqs) \<longleftrightarrow> path req \<noteq> CTRL_REJECT_PATH \<and> plain reqs"
  by (auto simp: plain_def)

lemma rejection_comesE:
  assumes "rejection_comes late reason"
  obtains t rej rest where "late = (t, Inr rej) # rest" and "result (check_reject rej) = Some (Inl (RelayRejection reason))"
  using assms by (auto simp: rejection_comes_def check_reject_def result_tbind Let_def)

lemma check_reject_plain [simp]: "path req \<noteq> CTRL_REJECT_PATH \<Longrightarrow> check_reject req = tret (Inr ())"
  by (simp add: check_reject_def)

lemma hears_accept:
  assumes "rejection_comes late reason" and "\<And>req. hears late eof reason (k req)"
  shows "hears late eof reason (\<lambda>h. terr (accept_ctrl h closed) (\<lambda>(req, h). k req h))"
  unfolding hears_def
proof (intro allI impI)
  fix reqs
  assume pl: "plain reqs" and none: "result (terr (accept_ctrl (Source reqs None) closed) (\<lambda>(req, h). k req h)) = None"
  show "result (terr (accept_ctrl (Source (reqs @ late) eof) closed) (\<lambda>(req, h). k req h)) = Some (Inl (RelayRejection reason))"
  proof (cases reqs)
    case Nil
    with assms(1) show ?thesis
      by (elim rejection_comesE) (simp add: accept_ctrl_def result_terr_eq)
  next
    case (Cons r reqs')
    obtain d res where r: "r = (d, res)" by (cases r)
    show ?thesis
    proof (cases res)
      case (Inr req)
      with Cons r pl none assms(2) [of req] show ?thesis
        by (simp add: accept_ctrl_def hears_def result_terr_eq)
    qed (use Cons r none in \<open>simp add: accept_ctrl_def result_terr_eq\<close>)
  qed
qed

lemma hears_after:
  assumes "result m \<noteq> None" and "\<And>x. result m = Some (Inr x) \<Longrightarrow> hears late eof reason (k x)"
  shows "hears late eof reason (\<lambda>h. terr m (\<lambda>x. k x h))"
  using assms by (auto simp: hears_def result_terr_eq split: sum.splits)

lemma hears_then:
  assumes "hears late eof reason m" and "\<And>x. result (k x) \<noteq> None"
  shows "hears late eof reason (\<lambda>h. terr (m h) k)"
  unfolding hears_def
proof (intro allI impI)
  fix reqs
  assume "plain reqs" and none: "result (terr (m (Source reqs None)) k) = None"
  moreover have "result (m (Source reqs None)) = None"
  proof (cases "result (m (Source reqs None))")
    case (Some r)
    with none assms(2) show ?thesis by (cases r) (simp_all add: result_terr_eq)
  qed
  ultimately show "result (terr (m (Source (reqs @ late) eof)) k) = Some (Inl (RelayRejection reason))"
    using assms(1) by (simp add: hears_def result_terr_eq)
qed

lemma hears_challenge_loop:
  assumes "rejection_comes late reason" and "\<And>req el. hears late eof reason (\<lambda>h. k req h el)"
  shows "hears late eof reason (\<lambda>h. terr (h2_challenge_loop ka el (items h) (fin h)) (\<lambda>(req, h, el). k req h el))"
proof -
  have "plain reqs \<Longrightarrow> result (terr (h2_challenge_loop ka el reqs None) (\<lambda>(req, h, el). k req h el)) = None \<Longrightarrow>
      result (terr (h2_challenge_loop ka el (reqs @ late) eof) (\<lambda>(req, h, el). k req h el)) =
        Some (Inl (RelayRejection reason))" for reqs
  proof (induction reqs arbitrary: el)
    case Nil
    with assms(1) show ?case by (elim rejection_comesE) (simp add: result_terr_eq)
  next
    case (Cons r reqs)
    obtain d res where r: "r = (d, res)" by (cases r)
    show ?case
    proof (cases res)
      case (Inr req)
      with Cons r assms(2) show ?thesis
        by (auto simp: result_terr_eq accept_challenge_def hears_def split: if_splits)
    qed (use Cons r in \<open>simp add: result_terr_eq\<close>)
  qed
  then show ?thesis by (simp add: hears_def)
qed

lemma hears_serve_until:
  assumes "rejection_comes late reason"
  shows "hears late eof reason (\<lambda>h. h2_serve_challenges_until tie ka (items h) (fin h) pem)"
proof -
  have "plain reqs \<Longrightarrow> result (h2_serve_challenges_until tie ka reqs None pem) = None \<Longrightarrow>
      result (h2_serve_challenges_until tie ka (reqs @ late) eof pem) = Some (Inl (RelayRejection reason))" for reqs
  proof (induction reqs arbitrary: pem)
    case Nil
    with assms show ?case by (elim rejection_comesE) (simp add: before_def result_terr_eq)
  next
    case (Cons r reqs)
    obtain d res where r: "r = (d, res)" by (cases r)
    show ?case
    proof (cases "before tie d pem")
      case True
      show ?thesis
      proof (cases res)
        case (Inr req)
        with Cons r True show ?thesis
          by (auto simp: result_terr_eq accept_challenge_def split: if_splits)
      qed (use Cons r True in simp)
    qed (use Cons r in \<open>auto simp: before_def\<close>)
  qed
  then show ?thesis by (simp add: hears_def)
qed

lemma hears_hold_challenge:
  assumes "rejection_comes late reason"
  shows "hears late eof reason (\<lambda>h. h2_hold_challenge tie ka h pem)"
  unfolding h2_hold_challenge_def
  by (intro hears_challenge_loop hears_then hears_serve_until assms) auto

lemma hears_simps:
  "hears late eof reason (\<lambda>h. with_challenges (m h)) \<longleftrightarrow> hears late eof reason m"
  "hears late eof reason (\<lambda>h. tthen (emit e) (m h)) \<longleftrightarrow> hears late eof reason m"
  "result n \<noteq> None \<Longrightarrow> hears late eof reason (\<lambda>h. n)"
  by (simp_all add: hears_def)

lemma hears_key_auth:
  assumes "rejection_comes late reason" and "\<And>p. prov = Some p \<Longrightarrow> prepare_answer p \<noteq> None"
  shows "hears late eof reason (h2_key_auth l tie prov c req)"
proof -
  have resp: "result (respond req b) \<noteq> None" for b by (simp add: respond_def)
  note hold = hears_hold_challenge [OF assms(1), of eof tie]
  have lead: "hears late eof reason (h2_lead l tie p c ka req)" for p ka
    unfolding h2_lead_def
    by (cases "alpn_acceptor l (conn_domain c) ka"; cases "csr_der c")
       (auto simp: hears_simps hold intro!: hears_after resp)
  have follow: "hears late eof reason (h2_follow l tie p c ka req)" for p ka
    unfolding h2_follow_def
    by (cases "alpn_acceptor l (conn_domain c) ka") (auto simp: hears_simps hold intro!: hears_after resp)
  have empty: "hears late eof reason (\<lambda>h. terr (respond req []) (\<lambda>_. tret r))" for r :: "_ + 'a"
    by (rule hears_after) (simp_all add: resp hears_simps)
  show ?thesis
  proof (cases prov)
    case None
    then show ?thesis unfolding h2_key_auth_def by (simp add: empty)
  next
    case (Some p)
    with assms(2) obtain t a where a: "prepare_answer p = Some (t, a)" by fastforce
    show ?thesis
      unfolding h2_key_auth_def Some option.case
    proof (rule hears_after)
      fix x
      show "hears late eof reason (\<lambda>h. terr (case x of
           Cached pem \<Rightarrow> terr (respond req []) (\<lambda>_. tret (Inr pem))
         | LeaderChallenge ka chal i \<Rightarrow> h2_lead l tie p c ka req h
         | FollowerChallenge ka i \<Rightarrow> h2_follow l tie p c ka req h) (\<lambda>pem. tret (parse_cert_chain_pem l pem)))"
        by (rule hears_then) (cases x; simp add: lead follow hears_simps result_terr_eq respond_def)+
    qed (simp add: a result_tbind)
  qed
qed

section \<open>An exchange succeeds\<close>

definition asks :: "h2_request \<Rightarrow> string \<Rightarrow> bool" where
  "asks req p \<longleftrightarrow> path req = p \<and> head_sent req \<and> data_sent req"

text \<open>The requests of a relay that lets the client in, challenge streams in any number among them.\<close>

definition challenge_requests :: "(duration \<times> (string + h2_request)) list \<Rightarrow> bool" where
  "challenge_requests rs \<longleftrightarrow> (\<forall>(d, res) \<in> set rs. \<exists>req. res = Inr req \<and> asks req ''/_ctrl/alpn'')"

definition relay_asks :: "bool \<Rightarrow> (duration \<times> (string + h2_request)) list \<Rightarrow> bool" where
  "relay_asks challenged rs \<longleftrightarrow> (\<exists>t1 q1 t2 q2 t3 q3 rest. rs = (t1, Inr q1) # (t2, Inr q2) # (t3, Inr q3) # rest \<and>
     asks q1 ''/_ctrl/domain'' \<and> asks q2 ''/_ctrl/sig'' \<and> asks q3 ''/_ctrl/key_auth'' \<and>
     (challenged \<longrightarrow> (\<exists>xs t4 q4 ys. rest = xs @ (t4, Inr q4) # ys \<and> asks q4 ''/_ctrl/done'' \<and>
        challenge_requests xs \<and> challenge_requests ys)))"

lemma challenge_requests_simps [simp]:
  "challenge_requests []"
  "challenge_requests ((d, res) # rs) \<longleftrightarrow> (\<exists>req. res = Inr req \<and> asks req ''/_ctrl/alpn'') \<and> challenge_requests rs"
  by (auto simp: challenge_requests_def)

lemma accept_works:
  "asks req p \<Longrightarrow> p \<noteq> CTRL_REJECT_PATH \<Longrightarrow>
   result (accept_ctrl (Source ((t, Inr req) # rs) eof) closed) = Some (Inr (req, Source rs eof))"
  "asks req p \<Longrightarrow> result (respond req body) = Some (Inr ())" "asks req p \<Longrightarrow> result (ensure_path p req) = Some (Inr ())"
  by (simp_all add: asks_def accept_ctrl_def respond_def ensure_path_def)

lemma challenge_loop_works:
  assumes "challenge_requests xs" and "asks req ''/_ctrl/done''"
  shows "\<exists>el'. result (h2_challenge_loop ka el (xs @ (t, Inr req) # ys) eof) = Some (Inr (req, Source ys eof, el'))"
  using assms(1)
proof (induction xs arbitrary: el)
  case Nil
  with assms(2) show ?case by (simp add: asks_def)
next
  case (Cons x xs)
  then obtain d q where "x = (d, Inr q)" "asks q ''/_ctrl/alpn''" by (cases x) auto
  with Cons show ?case by (simp add: asks_def accept_challenge_def result_terr_eq)
qed

lemma serve_until_works:
  "challenge_requests xs \<Longrightarrow> result (h2_serve_challenges_until tie ka xs None pem) = map_option snd pem"
proof (induction xs arbitrary: pem)
  case (Cons x xs)
  then obtain d q where x: "x = (d, Inr q)" "asks q ''/_ctrl/alpn''" by (cases x) auto
  show ?case
  proof (cases "before tie d pem")
    case True
    with Cons x show ?thesis
      by (simp add: asks_def accept_challenge_def result_terr_eq elapse_def option.map_comp comp_def)
  qed (simp add: x)
qed simp

lemma hold_challenge_works:
  assumes "challenge_requests xs" and "asks req ''/_ctrl/done''" and "challenge_requests ys" and "cert_of pem = Some x"
  shows "result (h2_hold_challenge tie ka (Source (xs @ (t, Inr req) # ys) None) pem) = Some (Inr x)"
proof -
  obtain el where "result (h2_challenge_loop ka 0 (xs @ (t, Inr req) # ys) None) = Some (Inr (req, Source ys None, el))"
    using challenge_loop_works [OF assms(1,2)] by blast
  moreover have "map_option snd pem = Some (Inr x)" using assms(4) by (auto simp: cert_of_def split: option.splits sum.splits)
  then have "map_option snd (elapse el pem) = Some (Inr x)" by (auto simp: elapse_def)
  ultimately show ?thesis
    using assms(2) serve_until_works [OF assms(3), of tie ka "elapse el pem"]
    by (auto simp: h2_hold_challenge_def result_terr_eq asks_def)
qed

lemma h2_exchange_works:
  assumes "client_ready l prov c s" and "tunnel_creds l prov c = Some acc"
    and "relay_asks (challenge_key prov \<noteq> None) rs"
  shows "result (h2_ctrl_exchange l tie prov c (Source rs None)) = Some (Inr (tls_chain acc))"
proof -
  from assms(3) obtain t1 q1 t2 q2 t3 q3 rest where
    rs: "rs = (t1, Inr q1) # (t2, Inr q2) # (t3, Inr q3) # rest"
    and q: "asks q1 ''/_ctrl/domain''" "asks q2 ''/_ctrl/sig''" "asks q3 ''/_ctrl/key_auth''"
    and ch: "challenge_key prov \<noteq> None \<Longrightarrow> \<exists>xs t4 q4 ys. rest = xs @ (t4, Inr q4) # ys \<and> asks q4 ''/_ctrl/done'' \<and>
        challenge_requests xs \<and> challenge_requests ys"
    unfolding relay_asks_def by blast
  have ka: "result (h2_key_auth l tie prov c q3 (Source rest None)) = Some (Inr (tls_chain acc))"
  proof (cases "challenge_key prov")
    case None
    with assms(2) show ?thesis
      by (auto simp: challenge_key_def tunnel_creds_def cert_source_def h2_key_auth_def parse_cert_chain_pem_def
          result_terr_eq result_tbind accept_works(2) [OF q(3)] split: option.splits sum.splits prepare_result.splits)
  next
    case (Some ka)
    then obtain xs t4 q4 ys where rest: "rest = xs @ (t4, Inr q4) # ys" "asks q4 ''/_ctrl/done''"
        "challenge_requests xs" "challenge_requests ys" using ch by auto
    note hold = hold_challenge_works [OF rest(3,2,4)]
    show ?thesis
      using Some assms(1,2)
      by (auto simp: rest(1) hold challenge_key_def tunnel_creds_def cert_source_def h2_key_auth_def parse_cert_chain_pem_def
          client_ready_def h2_lead_def h2_follow_def result_terr_eq result_tbind accept_works(2) [OF q(3)]
          split: option.splits sum.splits prepare_result.splits)
  qed
  have "sign_recoverable (setup_libs l) (identity_keypair c) (as_bytes (conn_domain c)) = Inr s"
    using assms(1) by (simp add: client_ready_def)
  with ka q show ?thesis
    by (simp add: h2_ctrl_exchange_def rs result_terr_eq accept_works)
qed

definition demo_request :: "string \<Rightarrow> duration \<times> (string + h2_request)" where
  "demo_request p = (1, Inr \<lparr>path = p, req_body = instantly [Inr (as_bytes ''no'')], head_sent = True, data_sent = True,
     stream_id = 5\<rparr>)"

definition demo_requests :: "(duration \<times> (string + h2_request)) list" where
  "demo_requests = map demo_request [''/_ctrl/domain'', ''/_ctrl/sig'', ''/_ctrl/key_auth'', ''/_ctrl/alpn'', ''/_ctrl/done'']"

lemma demo_relay_asks: "relay_asks True demo_requests"
  unfolding relay_asks_def demo_requests_def demo_request_def asks_def
  by (auto intro!: exI [of _ "[demo_request ''/_ctrl/alpn'']"] simp: demo_request_def asks_def)

theorem h2_exchange_answers_witness:
  "answers (trace (h2_ctrl_exchange demo_ctrl_libs True (Some demo_leader) demo_connection (Source demo_requests None))) =
     h2_answers demo_ctrl_libs (Some demo_leader) demo_connection"
proof -
  have "result (h2_ctrl_exchange demo_ctrl_libs True (Some demo_leader) demo_connection (Source demo_requests None)) =
      Some (Inr [[3]])"
    using h2_exchange_works [OF demo_client_ready demo_creds] demo_relay_asks
    by (simp add: challenge_key_def demo_leader_def)
  then show ?thesis using h2_exchange_answers by blast
qed


end
