(* ===== verification/Tunnel_Handshake.thy ===== *)
theory Tunnel_Handshake
  imports Client_H2 H2_Listener Quic_Listener
begin

text \<open>
  The two ends of a tunnel together: \<^verbatim>\<open>tunnel-client/src/client.rs\<close> on one side,
  \<^verbatim>\<open>tunnel-server/src/quic.rs\<close> and \<^verbatim>\<open>tunnel-server/src/h2_listener.rs\<close> on the other. Nothing is modelled
  here: the theorems compose the client's control exchange with the relay's, what one writes being
  what the other reads, and show that an honest client's tunnel comes up and that the relay has
  registered exactly that client. The last section is the case in which it does not.
\<close>

section \<open>Messages that come in time\<close>

section \<open>Time on the control stream\<close>

lemma delay_of_append: "delay_of (xs @ ys) = delay_of xs + delay_of ys"
  by (simp add: delay_of_def)

lemma ctrl_read_timed:
  assumes "items r = xs @ ys" and "map snd xs = frame d" and "length d \<le> MAX_CTRL_FRAME" and "alloc (length d)"
  shows "outcome (ctrl_read alloc r) = Some (delay_of xs, Inr (d, Source ys (fin r)))"
proof -
  let ?n = "u32_to_be_bytes (of_nat (length d))"
  have len: "length xs = 4 + length d"
    using arg_cong [OF assms(2), of length] by (simp add: frame_def)
  have heads: "map snd (take 4 xs) = ?n" "map snd (drop 4 xs) = d"
    using arg_cong [OF assms(2), of "take 4"] arg_cong [OF assms(2), of "drop 4"]
    by (simp_all add: frame_def take_map drop_map)
  have "outcome (read_exact 4 r :: ('a, _) task) =
      Some (delay_of (take 4 xs), Some (?n, Source (drop 4 xs @ ys) (fin r)))"
    using assms(1) len heads(1) by (simp add: read_exact_def)
  moreover have "outcome (read_exact (length d) (Source (drop 4 xs @ ys) (fin r)) :: ('a, _) task) =
      Some (delay_of (drop 4 xs), Some (d, Source ys (fin r)))"
    using len heads(2) by (simp add: read_exact_def)
  moreover have "delay_of xs = delay_of (take 4 xs) + delay_of (drop 4 xs)"
    by (simp add: delay_of_append [symmetric])
  ultimately show ?thesis
    using assms(3,4) by (simp add: ctrl_read_def outcome_tbind unat_len_u32)
qed

section \<open>The relay's side of QUIC\<close>

text \<open>
  The relay accepts an agent in time: the contract accepts its messages, which arrive before the
  exchange is cut off.
\<close>

lemma quic_auth_timed:
  assumes "items r = xs1 @ xs2 @ ys" and "map snd xs1 = frame d" and "map snd xs2 = frame s"
    and "length d \<le> MAX_CTRL_FRAME" and "length s \<le> MAX_CTRL_FRAME" and "\<forall>n \<le> MAX_CTRL_FRAME. alloc n"
    and "\<And>n. txt_lookup ctx n = Some (td n, dns n)"
    and "auth_verdict l (domain_suffixes ctx) tok dns d s = Accept i"
  shows "\<exists>t. outcome (quic_auth_exchange l alloc ctx tok r) = Some (t, Some (i, Source ys (fin r))) \<and>
    t \<le> delay_of xs1 + delay_of xs2 + td (txt_name (txt_host (str_of_bytes d)))"
proof -
  have r1: "outcome (ctrl_read alloc r :: (relay_event, _) task) =
      Some (delay_of xs1, Inr (d, Source (xs2 @ ys) (fin r)))"
    by (rule ctrl_read_timed) (use assms in auto)
  have r2: "outcome (ctrl_read alloc (Source (xs2 @ ys) (fin r)) :: (relay_event, _) task) =
      Some (delay_of xs2, Inr (s, Source ys (fin r)))"
    using ctrl_read_timed [of "Source (xs2 @ ys) (fin r)" xs2 ys s alloc] assms by simp
  show ?thesis
    using assms(8)
    by (auto simp: auth_verdict_def quic_auth_exchange_def outcome_tbind [OF r1] outcome_tbind [OF r2]
        quic_txt_check_def assms(7) Let_def tthen_emit from_utf8_def
        split: option.splits if_splits sum.splits)
qed

text \<open>An agent whose messages come in time: what remains is the part after authentication.\<close>

record quic_arrival =
  domain_part :: "(duration \<times> byte) list"
  sig_part :: "(duration \<times> byte) list"
  key_part :: "(duration \<times> byte) list"

definition arrives :: "quic_arrival \<Rightarrow> byte list \<Rightarrow> byte list \<Rightarrow> byte list \<Rightarrow> bool" where
  "arrives x d s ka \<longleftrightarrow> map snd (domain_part x) = frame d \<and> map snd (sig_part x) = frame s \<and>
     map snd (key_part x) = frame ka \<and>
     length d \<le> MAX_CTRL_FRAME \<and> length s \<le> MAX_CTRL_FRAME \<and> length ka \<le> MAX_CTRL_FRAME"

definition arrival :: "quic_arrival \<Rightarrow> (duration \<times> byte) list" where
  "arrival x = domain_part x @ sig_part x @ key_part x"

definition quic_admitted :: "libs \<Rightarrow> listener_ctx \<Rightarrow> quic_peer \<Rightarrow> (string \<Rightarrow> string + byte list list list) \<Rightarrow> quic_arrival \<Rightarrow>
    byte list \<Rightarrow> byte list \<Rightarrow> string \<Rightarrow> bool" where
  "quic_admitted l ctx p dns x d s i \<longleftrightarrow>
     (\<exists>t0 cert certs tok a td. quic_handshake p = Some (t0, Inr ()) \<and> quic_identity p = Some (cert # certs) \<and>
       check_cert l ctx cert = Inr tok \<and> accept_bi p = Some (a, Inr ()) \<and>
       (\<forall>n. txt_lookup ctx n = Some (td n, dns n)) \<and>
       auth_verdict l (domain_suffixes ctx) tok dns d s = Accept i \<and>
       a + delay_of (domain_part x) + delay_of (sig_part x) + td (txt_name (txt_host (str_of_bytes d))) \<le> AUTH_EXCHANGE_TIMEOUT \<and>
       delay_of (key_part x) \<le> KEY_AUTH_TIMEOUT)"

lemma quic_exchange_in_time:
  assumes "quic_admitted l ctx p dns x d s i" and "arrives x d s ka" and "\<forall>n \<le> MAX_CTRL_FRAME. alloc n"
    and "ctrl_recv p = Source (arrival x @ ys) f"
  obtains t0 cert certs tok where "quic_handshake p = Some (t0, Inr ())" and "quic_identity p = Some (cert # certs)"
    and "check_cert l ctx cert = Inr tok"
    and "result (timeout AUTH_EXCHANGE_TIMEOUT (tbind (await (accept_bi p)) (\<lambda>a. case a of Inl e \<Rightarrow> tret None
      | Inr _ \<Rightarrow> quic_auth_exchange l alloc ctx tok (ctrl_recv p)))) = Some (Some (Some (i, Source (key_part x @ ys) f)))"
proof -
  from assms(1) obtain t0 cert certs tok a td where h: "quic_handshake p = Some (t0, Inr ())"
      "quic_identity p = Some (cert # certs)" "check_cert l ctx cert = Inr tok" "accept_bi p = Some (a, Inr ())"
      "\<And>n. txt_lookup ctx n = Some (td n, dns n)" "auth_verdict l (domain_suffixes ctx) tok dns d s = Accept i"
    and le: "a + delay_of (domain_part x) + delay_of (sig_part x) + td (txt_name (txt_host (str_of_bytes d))) \<le> AUTH_EXCHANGE_TIMEOUT"
    unfolding quic_admitted_def by blast
  obtain t where o: "outcome (quic_auth_exchange l alloc ctx tok (ctrl_recv p)) = Some (t, Some (i, Source (key_part x @ ys) f))"
    and t: "t \<le> delay_of (domain_part x) + delay_of (sig_part x) + td (txt_name (txt_host (str_of_bytes d)))"
    using quic_auth_timed [of "ctrl_recv p" "domain_part x" "sig_part x" "key_part x @ ys" d s alloc ctx td dns l tok i]
      assms(2,3,4) h(5,6) by (auto simp: arrives_def arrival_def)
  let ?m = "tbind (await (accept_bi p)) (\<lambda>a. case a of Inl e \<Rightarrow> tret None
      | Inr _ \<Rightarrow> quic_auth_exchange l alloc ctx tok (ctrl_recv p))"
  have m: "outcome ?m = Some (a + t, Some (i, Source (key_part x @ ys) f))"
    using o by (simp add: h(4))
  moreover have "a + t \<le> AUTH_EXCHANGE_TIMEOUT" using t le by simp
  ultimately have "outcome (timeout AUTH_EXCHANGE_TIMEOUT ?m) = Some (a + t, Some (Some (i, Source (key_part x @ ys) f)))"
    by (rule timeout_prompt)
  then show thesis by (intro that [OF h(1-3)]) (simp add: result_def)
qed

lemma quic_handler_serves:
  assumes "quic_admitted l ctx p dns x d s i" and "arrives x d s ka" and "\<forall>n \<le> MAX_CTRL_FRAME. alloc n"
    and "ctrl_recv p = Source (arrival x @ ys) f"
  shows "table_events (handle_quic_connection l alloc ctx p) = table_events (quic_serve alloc p i (Source (key_part x @ ys) f))"
    and "result (handle_quic_connection l alloc ctx p) = result (quic_serve alloc p i (Source (key_part x @ ys) f))"
    and "happens (handle_quic_connection l alloc ctx p) (CtrlSent bs) \<longleftrightarrow>
      happens (quic_serve alloc p i (Source (key_part x @ ys) f)) (CtrlSent bs)"
proof -
  obtain t0 cert certs tok where h: "quic_handshake p = Some (t0, Inr ())" "quic_identity p = Some (cert # certs)"
    "check_cert l ctx cert = Inr tok"
    and r: "result (timeout AUTH_EXCHANGE_TIMEOUT (tbind (await (accept_bi p)) (\<lambda>a. case a of Inl e \<Rightarrow> tret None
      | Inr _ \<Rightarrow> quic_auth_exchange l alloc ctx tok (ctrl_recv p)))) = Some (Some (Some (i, Source (key_part x @ ys) f)))"
    by (rule quic_exchange_in_time [OF assms])
  have "\<not> happens (timeout AUTH_EXCHANGE_TIMEOUT (tbind (await (accept_bi p)) (\<lambda>a. case a of Inl e \<Rightarrow> tret None
      | Inr _ \<Rightarrow> quic_auth_exchange l alloc ctx tok (ctrl_recv p)))) (CtrlSent bs)"
    by (rule not_happens_timeout) (auto simp: happens_tbind split: sum.split)
  with h r show "happens (handle_quic_connection l alloc ctx p) (CtrlSent bs) \<longleftrightarrow>
      happens (quic_serve alloc p i (Source (key_part x @ ys) f)) (CtrlSent bs)"
    by (simp add: handle_quic_connection_def happens_tbind)
  from h r show "table_events (handle_quic_connection l alloc ctx p) = table_events (quic_serve alloc p i (Source (key_part x @ ys) f))"
    "result (handle_quic_connection l alloc ctx p) = result (quic_serve alloc p i (Source (key_part x @ ys) f))"
    by (simp_all add: handle_quic_connection_def table_events_tbind result_tbind table_events_quic_exchange)
qed

lemma key_auth_arrives:
  assumes "quic_admitted l ctx p dns x d s i" and "arrives x d s ka" and "\<forall>n \<le> MAX_CTRL_FRAME. alloc n"
  shows "result (timeout KEY_AUTH_TIMEOUT (ctrl_read alloc (Source (key_part x @ ys) f)) :: (relay_event, _) task) =
    Some (Some (Inr (ka, Source ys f)))"
proof -
  have "outcome (ctrl_read alloc (Source (key_part x @ ys) f) :: (relay_event, _) task) =
      Some (delay_of (key_part x), Inr (ka, Source ys f))"
    using ctrl_read_timed [of "Source (key_part x @ ys) f" "key_part x" ys ka alloc] assms(2,3)
    by (auto simp: arrives_def)
  moreover have "delay_of (key_part x) \<le> KEY_AUTH_TIMEOUT" using assms(1) by (auto simp: quic_admitted_def)
  ultimately show ?thesis by (simp add: result_def timeout_prompt)
qed

text \<open>Without a challenge the relay registers the agent at once and never writes to the control stream.\<close>

lemma quic_serve_plain:
  assumes "quic_admitted l ctx p dns x d s i" and "arrives x d s []" and "\<forall>n \<le> MAX_CTRL_FRAME. alloc n"
  shows "table_events (quic_serve alloc p i (Source (key_part x @ ys) f)) = [Register i]"
    "result (quic_serve alloc p i (Source (key_part x @ ys) f)) = Some (Some ())"
    "\<not> happens (quic_serve alloc p i (Source (key_part x @ ys) f)) (CtrlSent bs)"
  using key_auth_arrives [OF assms]
  by (simp_all add: quic_serve_def table_events_tbind result_tbind happens_tbind ttry_def)

text \<open>With one, it writes its acknowledgement as soon as it has the key authorization.\<close>

lemma quic_serve_challenge:
  assumes "quic_admitted l ctx p dns x d s i" and "arrives x d s ka" and "\<forall>n \<le> MAX_CTRL_FRAME. alloc n"
    and "ka \<noteq> []" and "ctrl_send p = \<lparr>sent = [], room = None\<rparr>" and "ack_time p \<noteq> None"
  shows "happens (quic_serve alloc p i (Source (key_part x @ ys) f)) (PendingInsert i)"
    "happens (quic_serve alloc p i (Source (key_part x @ ys) f)) (CtrlSent (frame (as_bytes ''ack'')))"
    "map snd ys = frame (as_bytes ''done'') \<Longrightarrow>
      table_events (quic_serve alloc p i (Source (key_part x @ ys) f)) = [PendingInsert i, PendingRemove i, Register i] \<and>
      result (quic_serve alloc p i (Source (key_part x @ ys) f)) = Some (Some ())"
proof -
  obtain ta where ta: "ack_time p = Some ta" using assms(6) by blast
  have ack: "ctrl_write (ctrl_send p) (as_bytes ''ack'') =
      (\<lparr>sent = frame (as_bytes ''ack''), room = None\<rparr>, Inr ())"
    by (simp add: assms(5) ctrl_write_ok MAX_CTRL_FRAME_def)
  note simps = quic_serve_def quic_acme_wait_def ta ack key_auth_arrives [OF assms(1-3)] assms(4)
    table_events_tbind result_tbind happens_tbind ttry_def
  show "happens (quic_serve alloc p i (Source (key_part x @ ys) f)) (PendingInsert i)"
    "happens (quic_serve alloc p i (Source (key_part x @ ys) f)) (CtrlSent (frame (as_bytes ''ack'')))"
    by (simp_all add: simps)
  assume ys: "map snd ys = frame (as_bytes ''done'')"
  have "outcome (ctrl_read alloc (Source ys f) :: (relay_event, _) task) =
      Some (delay_of ys, Inr (as_bytes ''done'', Source [] f))"
    using ctrl_read_timed [of "Source ys f" ys "[]" "as_bytes ''done''" alloc] ys assms(3)
    by (simp add: MAX_CTRL_FRAME_def)
  then have "result (ctrl_read alloc (Source ys f) :: (relay_event, _) task) = Some (Inr (as_bytes ''done'', Source [] f))"
    by (simp add: result_def)
  then show "table_events (quic_serve alloc p i (Source (key_part x @ ys) f)) = [PendingInsert i, PendingRemove i, Register i] \<and>
      result (quic_serve alloc p i (Source (key_part x @ ys) f)) = Some (Some ())"
    by (simp add: simps)
qed

section \<open>An honest client and its relay\<close>

text \<open>
  The client derived its domain from its own key, with libraries that do what they document; the
  relay allows its sfx, and DNS publishes the marker of the deployment it brings, if it does.
\<close>

definition honest :: "client_libs \<Rightarrow> string \<Rightarrow> connection \<Rightarrow> bool" where
  "honest l sfx c \<longleftrightarrow> recovers l \<and> hex_digits l \<and> from_utf8 (as_bytes (conn_domain c)) = Some (conn_domain c) \<and>
     (\<exists>agent identity ext st csr. algorithm identity = EcdsaP256 \<and>
       build_connection l agent identity sfx ext st csr = Inr c)"

definition relay_allows :: "libs \<Rightarrow> listener_ctx \<Rightarrow> (string \<Rightarrow> string + byte list list list) \<Rightarrow> byte list option \<Rightarrow> string \<Rightarrow> string \<Rightarrow> bool" where
  "relay_allows l ctx dns tok sfx domain \<longleftrightarrow>
     (domain_suffixes ctx = [] \<or> sfx \<in> set (domain_suffixes ctx)) \<and>
     (case tok of
        None \<Rightarrow> True
      | Some src \<Rightarrow> \<exists>recs. dns (txt_name (txt_host domain)) = Inr recs \<and>
          as_bytes (compute_txt_expected l src (txt_host domain)) \<in> set (concat recs))"

text \<open>The connection reaches the relay, its certificate is accepted, and its messages come in time.\<close>

definition quic_reaches :: "libs \<Rightarrow> listener_ctx \<Rightarrow> quic_peer \<Rightarrow> (string \<Rightarrow> string + byte list list list) \<Rightarrow> byte list option \<Rightarrow>
    quic_arrival \<Rightarrow> string \<Rightarrow> bool" where
  "quic_reaches l ctx p dns tok x domain \<longleftrightarrow>
     (\<exists>t0 cert certs a td. quic_handshake p = Some (t0, Inr ()) \<and> quic_identity p = Some (cert # certs) \<and>
       check_cert l ctx cert = Inr tok \<and> accept_bi p = Some (a, Inr ()) \<and>
       (\<forall>n. txt_lookup ctx n = Some (td n, dns n)) \<and>
       a + delay_of (domain_part x) + delay_of (sig_part x) + td (txt_name (txt_host domain)) \<le> AUTH_EXCHANGE_TIMEOUT \<and>
       delay_of (key_part x) \<le> KEY_AUTH_TIMEOUT)"

lemma honest_admitted:
  assumes "honest (setup_libs l) sfx c" and "client_ready l prov c s"
    and "relay_allows (relay_libs (setup_libs l)) ctx dns tok sfx (conn_domain c)"
    and "quic_reaches (relay_libs (setup_libs l)) ctx p dns tok x (conn_domain c)"
  shows "quic_admitted (relay_libs (setup_libs l)) ctx p dns x (as_bytes (conn_domain c)) s (client_id c)"
proof -
  have "auth_verdict (relay_libs (setup_libs l)) (domain_suffixes ctx) tok dns (as_bytes (conn_domain c)) s =
      Accept (client_id c)"
    using assms(1-3) honest_verdict by (auto simp: honest_def client_ready_def relay_allows_def)
  with assms(4) show ?thesis unfolding quic_admitted_def quic_reaches_def by fastforce
qed

definition key_bytes :: "string option \<Rightarrow> byte list" where
  "key_bytes ka = (case ka of None \<Rightarrow> [] | Some k \<Rightarrow> as_bytes k)"

text \<open>Without an answer of the relay, the client has said everything up to its key authorization.\<close>

lemma client_says_first:
  assumes "transport_works q" and "client_ready l prov c s" and "challenge_key prov = Some ka"
  shows "said (trace (quic_loop_inner l (q\<lparr>ctrl_in := Source [] None\<rparr>) prov c)) =
    frame (as_bytes (conn_domain c)) @ frame s @ frame (as_bytes ka)"
proof -
  let ?q = "q\<lparr>ctrl_in := Source [] None\<rparr>"
  have q: "transport_works ?q" using assms(1) by (simp add: transport_works_def)
  obtain w1 where w1: "result (write_frame ?q (ctrl_out ?q) (as_bytes (conn_domain c))) = Some (Inr w1)" "room w1 = None"
    using write_frame_works [OF q, of "ctrl_out ?q" "as_bytes (conn_domain c)"] q assms(2)
    unfolding client_ready_def transport_works_def by auto
  obtain w2 where w2: "result (write_frame ?q w1 s) = Some (Inr w2)" "room w2 = None"
    using write_frame_works [OF q w1(2), of s] assms(2) by (auto simp: client_ready_def)
  obtain w3 where w3: "result (write_frame ?q w2 (as_bytes ka)) = Some (Inr w3)"
    using write_frame_works [OF q w2(2), of "as_bytes ka"] assms(2,3) by (auto simp: client_ready_def)
  have silent: "result (read_frame l (Source [] None)) = None"
    by (simp add: read_frame_def ctrl_read_def read_exact_def result_tbind)
  have acc: "alpn_acceptor l (conn_domain c) ka" using assms(2,3) by (simp add: client_ready_def)
  have "said (trace (quic_tunnel_certs l ?q prov c w2 (Source [] None))) = frame (as_bytes ka)"
    "result (quic_tunnel_certs l ?q prov c w2 (Source [] None)) = None"
    using assms(3) acc
    by (auto simp: challenge_key_def quic_tunnel_certs_def quic_lead_def quic_follow_def trace_terr trace_tbind
        result_terr_eq result_tbind w3 silent write_frame_says(2) [OF w3]
        split: option.splits sum.splits prepare_result.splits)
  moreover have "result (open_control ?q) = Some (Inr ())"
    using q by (auto simp: transport_works_def open_control_def result_tbind)
  moreover have "result (send_signature l ?q c w1) = Some (Inr w2)" "trace (send_signature l ?q c w1) = [Wrote (frame s)]"
    using assms(2) w2 write_frame_says(2) [OF w2(1)] by (simp_all add: send_signature_def client_ready_def)
  ultimately show ?thesis
    using w1 write_frame_says(2) [OF w1(1)] by (simp add: quic_loop_inner_def trace_terr)
qed

lemma client_script_split:
  assumes "client_ready l prov c s" and "tunnel_creds l prov c = Some acc"
  shows "client_script l prov c = frame (as_bytes (conn_domain c)) @ frame s @ frame (key_bytes (challenge_key prov)) @
    (if challenge_key prov = None then [] else frame (as_bytes ''done''))"
  using assms
  by (auto simp: client_ready_def client_script_def key_auth_script_def challenge_key_def key_bytes_def tunnel_creds_def
      cert_source_def challenge_script_def done_script_def
      split: option.splits sum.splits prepare_result.splits)

lemma quic_comes_up_says:
  assumes "transport_works q" and "client_ready l prov c s" and "tunnel_creds l prov c = Some acc"
    and "length ack \<le> MAX_CTRL_FRAME" and "contents (ctrl_in q) = relay_reply (challenge_key prov) ack"
    and "fin (ctrl_in q) = Some d" and "d \<le> QUIC_ACCEPT_TIMEOUT" and "ends_well q"
  shows "said (trace (quic_loop_inner l q prov c)) = client_script l prov c"
proof -
  obtain w w' certs r bs where w: "result (write_frame q (ctrl_out q) (as_bytes (conn_domain c))) = Some (Inr w)"
    and s: "result (send_signature l q c w) = Some (Inr w')"
    and t: "result (quic_tunnel_certs l q prov c w' (ctrl_in q)) = Some (Inr (certs, r))"
    and tr: "trace (quic_loop_inner l q prov c) =
      trace (write_frame q (ctrl_out q) (as_bytes (conn_domain c))) @ trace (send_signature l q c w) @
      trace (quic_tunnel_certs l q prov c w' (ctrl_in q)) @ trace (quic_up q (build_tls_acceptor
        (if prov = None then agent_keypair c else identity_keypair c) certs))"
    using quic_comes_up [OF assms] by (rule quic_up_course)
  have "prefix (client_script l prov c) (said (trace (quic_loop_inner l q prov c)))"
    using s quic_tunnel_certs_result [OF t]
    by (auto simp: tr send_signature_def client_script_def write_frame_says(2) [OF w] write_frame_says(2) split: sum.splits)
  with quic_loop_says [of l q prov c] show ?thesis by (rule prefix_order.antisym)
qed


definition demo_sig :: "byte list" where
  "demo_sig = as_bytes ''aaaaaaaa.x'' @ replicate 55 7"

definition demo_arrival :: quic_arrival where
  "demo_arrival = \<lparr>domain_part = map (Pair 0) (frame (as_bytes ''aaaaaaaa.x'')), sig_part = map (Pair 0) (frame demo_sig),
     key_part = map (Pair 0) (frame (as_bytes ''ka''))\<rparr>"

lemma delay_of_now [simp]: "delay_of (map (Pair 0) bs) = 0"
  by (induction bs) (auto simp: delay_of_def)

lemma snd_pair_now [simp]: "snd \<circ> Pair t = id"
  by (simp add: comp_def id_def)

lemma demo_honest: "honest demo_client_libs ''x'' demo_connection"
proof -
  have "from_utf8 (as_bytes ''aaaaaaaa.x'') = Some ''aaaaaaaa.x''" by code_simp
  moreover have "algorithm demo_identity = EcdsaP256" by (simp add: demo_identity_def)
  ultimately show ?thesis unfolding honest_def using demo_libs_laws demo_connection_built(1,3) by metis
qed

lemma demo_allowed: "relay_allows (relay_libs demo_client_libs) demo_ctx (\<lambda>_. Inl '''') None ''x'' ''aaaaaaaa.x''"
  by (simp add: relay_allows_def demo_ctx_def)

lemma demo_reaches:
  assumes "delay_of (domain_part x) = 0" and "delay_of (sig_part x) = 0" and "delay_of (key_part x) = 0"
  shows "quic_reaches (relay_libs demo_client_libs) demo_ctx demo_quic_peer (\<lambda>_. Inl '''') None x ''aaaaaaaa.x''"
  unfolding quic_reaches_def using assms
  by (intro exI [of _ 0] exI [of _ "[0]"] exI [of _ "[]"] exI [of _ "\<lambda>_. 3"])
     (simp add: demo_quic_peer_def demo_ctx_def check_cert_def AUTH_EXCHANGE_TIMEOUT_def from_secs_def)


section \<open>The same over H2\<close>

text \<open>Each question is answered as soon as it is asked, before the next one.\<close>

lemma respond_then:
  assumes "asks req p" and "p \<noteq> CTRL_REJECT_PATH"
  shows "answers (trace (terr (respond req body) k)) = (p, body) # answers (trace (k ()))"
proof -
  have "result (respond req body) = Some (Inr ())" "answers (trace (respond req body)) = [(p, body)]"
    using assms respond_answers(2) [of req p body] by (simp_all add: asks_def respond_def)
  then show ?thesis by (simp add: trace_terr)
qed

lemma answers_ask:
  assumes "asks req p" and "p \<noteq> CTRL_REJECT_PATH"
  shows "answers (trace (terr (accept_ctrl (Source ((t, Inr req) # rs) eof) closed) (\<lambda>(req, h).
      terr (ensure_path p req) (\<lambda>_. terr (respond req body) (\<lambda>_. k h))))) =
    (p, body) # answers (trace (k (Source rs eof)))"
proof -
  have "terr (ensure_path p req) m = m ()" for m :: "unit \<Rightarrow> 'a client_task"
    using assms(1) by (simp add: asks_def ensure_path_def terr_def)
  then show ?thesis
    using accept_works(1) [OF assms] by (simp add: trace_terr [of "accept_ctrl h cl" for h cl] respond_then [OF assms])
qed

lemma h2_key_auth_promptly:
  assumes req: "asks req ''/_ctrl/key_auth''" and ready: "client_ready l prov c s" and creds: "tunnel_creds l prov c = Some acc"
  shows "answers (trace (h2_key_auth l tie prov c req (Source [] None))) = take 1 (key_auth_answers prov)"
proof (cases prov)
  case None
  then show ?thesis
    by (simp add: h2_key_auth_def respond_then [OF req] key_auth_answers_def challenge_key_def)
next
  case (Some p)
  with creds obtain t x where p: "prepare_answer p = Some (t, Inr x)"
    by (auto simp: tunnel_creds_def cert_source_def split: option.splits sum.splits)
  have idle: "answers (trace (with_challenges (h2_hold_challenge tie ka (Source [] None) pem))) = []" for ka pem
    by (simp add: trace_with_challenges h2_hold_challenge_def trace_terr)
  have parsed: "answers (trace (terr m (\<lambda>pem. tret (f pem)))) = answers (trace m)" for m :: "string client_task" and f
    by (auto simp: trace_terr split: option.split sum.split)
  have prepared: "answers (trace (h2_key_auth l tie (Some p) c req h)) = answers (trace (terr (case x of
        Cached pem \<Rightarrow> terr (respond req []) (\<lambda>_. tret (Inr pem))
      | LeaderChallenge ka chal i \<Rightarrow> h2_lead l tie p c ka req h
      | FollowerChallenge ka i \<Rightarrow> h2_follow l tie p c ka req h) (\<lambda>pem. tret (parse_cert_chain_pem l pem))))" for h
    by (simp add: h2_key_auth_def p trace_terr [of "tbind m k" for m k] trace_tbind result_tbind)
  show ?thesis
  proof (cases x)
    case (Cached pem)
    with Some p show ?thesis
      by (simp add: prepared parsed respond_then [OF req] key_auth_answers_def challenge_key_def)
  next
    case (LeaderChallenge ka u i)
    with Some p ready show ?thesis
      by (simp add: prepared parsed respond_then [OF req] h2_lead_def idle key_auth_answers_def challenge_key_def client_ready_def
          split: option.split)
  next
    case (FollowerChallenge ka i)
    with Some p ready show ?thesis
      by (simp add: prepared parsed respond_then [OF req] h2_follow_def idle key_auth_answers_def challenge_key_def client_ready_def)
  qed
qed

lemma h2_answers_promptly:
  assumes "client_ready l prov c s" and "tunnel_creds l prov c = Some acc" and "relay_asks b rs" and "k \<le> 3"
  shows "answers (trace (h2_ctrl_exchange l tie prov c (Source (take k rs) None))) = take k (h2_answers l prov c)"
proof -
  from assms(3) obtain t1 q1 t2 q2 t3 q3 rest where
    rs: "rs = (t1, Inr q1) # (t2, Inr q2) # (t3, Inr q3) # rest"
    and q: "asks q1 ''/_ctrl/domain''" "asks q2 ''/_ctrl/sig''" "asks q3 ''/_ctrl/key_auth''"
    unfolding relay_asks_def by blast
  have s: "sign_recoverable (setup_libs l) (identity_keypair c) (as_bytes (conn_domain c)) = Inr s"
    using assms(1) by (simp add: client_ready_def)
  have none: "answers (trace (terr (accept_ctrl (Source [] None) closed) m)) = []" for closed and m :: "_ \<Rightarrow> 'x client_task"
    by (simp add: accept_ctrl_def trace_terr)
  have ka: "answers (trace (terr (accept_ctrl (Source [(t3, Inr q3)] None) closed) (\<lambda>(req, h).
      terr (ensure_path ''/_ctrl/key_auth'' req) (\<lambda>_. h2_key_auth l tie prov c req h)))) = take 1 (key_auth_answers prov)" for closed
    using accept_works(1) [OF q(3)] h2_key_auth_promptly [OF q(3) assms(1,2)] q(3)
    by (simp add: trace_terr asks_def ensure_path_def)
  consider "k = 0" | "k = 1" | "k = 2" | "k = 3" using assms(4) by linarith
  then show ?thesis
    by cases (simp_all add: h2_ctrl_exchange_def rs answers_ask [OF q(1)] answers_ask [OF q(2)] s none ka h2_answers_def numeral_eq_Suc)
qed

definition h2_reaches :: "libs \<Rightarrow> listener_ctx \<Rightarrow> h2_peer \<Rightarrow> (string \<Rightarrow> string + byte list list list) \<Rightarrow> byte list option \<Rightarrow> bool" where
  "h2_reaches l ctx p dns tok \<longleftrightarrow>
     (\<exists>t0 cert certs t1 td t2 t3. tls_accept p = Some (t0, Inr (Some (cert # certs))) \<and> t0 \<le> TLS_HANDSHAKE_TIMEOUT \<and>
       check_cert l ctx cert = Inr tok \<and> h2_handshake p = Some (t1, Inr ()) \<and> t1 \<le> H2_HANDSHAKE_TIMEOUT \<and>
       can_reject p \<and> (\<forall>n. txt_lookup ctx n = Some (td n, dns n)) \<and>
       finish (h2_auth_exchange l ctx p tok) = Some t2 \<and> t2 \<le> AUTH_EXCHANGE_TIMEOUT \<and>
       finish (h2_read_key_auth p) = Some t3 \<and> t3 \<le> KEY_AUTH_TIMEOUT)"

lemma h2_handler_registers:
  assumes "h2_reaches l ctx p dns tok" and "auth_verdict l (domain_suffixes ctx) tok dns d s = Accept i"
    and "serves p ''/_ctrl/domain'' d" and "serves p ''/_ctrl/sig'' s" and "serves p ''/_ctrl/key_auth'' ka"
    and "ka \<noteq> [] \<Longrightarrow> serves p ''/_ctrl/done'' b"
  shows "table_events (handle_h2_connection l ctx p) =
      (if ka = [] then [] else [PendingInsert i, PendingRemove i]) @ [Register i]"
    and "result (handle_h2_connection l ctx p) = Some (Some ())"
proof -
  from assms(1) obtain t0 cert certs t1 td t2 t3 where
    h: "tls_accept p = Some (t0, Inr (Some (cert # certs)))" "t0 \<le> TLS_HANDSHAKE_TIMEOUT"
      "check_cert l ctx cert = Inr tok" "h2_handshake p = Some (t1, Inr ())" "t1 \<le> H2_HANDSHAKE_TIMEOUT"
    and rej: "can_reject p" and dns: "\<And>n. txt_lookup ctx n = Some (td n, dns n)"
    and fin: "finish (h2_auth_exchange l ctx p tok) = Some t2" "t2 \<le> AUTH_EXCHANGE_TIMEOUT"
      "finish (h2_read_key_auth p) = Some t3" "t3 \<le> KEY_AUTH_TIMEOUT"
    unfolding h2_reaches_def by blast
  have "result (h2_auth_exchange l ctx p tok) = Some (Some i)"
    using h2_auth_exchange_verdict [OF assms(3,4) dns rej, of l tok] assms(2) by simp
  note auth = result_timeout_finish [OF fin(1,2) this]
  have tls: "result (timeout TLS_HANDSHAKE_TIMEOUT (await (tls_accept p)) :: (relay_event, _) task) =
      Some (Some (Inr (Some (cert # certs))))"
    by (rule result_timeout_finish [OF _ h(2)]) (simp_all add: h(1) finish_def)
  have h2: "result (timeout H2_HANDSHAKE_TIMEOUT (await (h2_handshake p)) :: (relay_event, _) task) = Some (Some (Inr ()))"
    by (rule result_timeout_finish [OF _ h(5)]) (simp_all add: h(4) finish_def)
  have "result (h2_read_key_auth p) = Some (Some ka)"
    using result_h2_fetch [OF assms(5)] by (simp add: h2_read_key_auth_def)
  note key = result_timeout_finish [OF fin(3,4) this]
  have "table_events (timeout AUTH_EXCHANGE_TIMEOUT (h2_auth_exchange l ctx p tok)) = []"
    "table_events (timeout KEY_AUTH_TIMEOUT (h2_read_key_auth p)) = []"
    by (rule table_events_none, rule not_happens_timeout, auto simp: h2_read_key_auth_def elim: table_event.elims)+
  with h(3) auth key tls h2 assms(6)
  show "table_events (handle_h2_connection l ctx p) =
      (if ka = [] then [] else [PendingInsert i, PendingRemove i]) @ [Register i]"
    "result (handle_h2_connection l ctx p) = Some (Some ())"
    by (auto simp: handle_h2_connection_def h2_serve_def h2_acme_wait_def serves_def table_events_tbind result_tbind)
qed


definition demo_agent :: h2_peer where
  "demo_agent = \<lparr>tls_accept = Some (0, Inr (Some [[0]])), h2_handshake = Some (0, Inr ()),
     answer = (\<lambda>path. Inr (Some (0, Inr (demo_body (case map_of (h2_answers demo_ctrl_libs (Some demo_leader) demo_connection) path of
       Some body \<Rightarrow> body | None \<Rightarrow> []))))),
     reject_body = Inr (), conn_end = None\<rparr>"

lemma demo_h2_answers:
  "h2_answers demo_ctrl_libs (Some demo_leader) demo_connection =
     [(''/_ctrl/domain'', as_bytes ''aaaaaaaa.x''), (''/_ctrl/sig'', demo_sig), (''/_ctrl/key_auth'', as_bytes ''ka''), (''/_ctrl/done'', [])]"
proof -
  have "setup_libs demo_ctrl_libs = demo_client_libs" by (simp add: demo_ctrl_libs_def)
  then show ?thesis
    by (simp add: h2_answers_def demo_connection_built demo_signature demo_sig_def key_auth_answers_def challenge_key_def
        demo_leader_def done_answer_def cert_source_def cert_of_def finalized_def)
qed

lemma demo_agent_serves:
  assumes "map_of (h2_answers demo_ctrl_libs (Some demo_leader) demo_connection) pth = Some body" and "length body \<le> MAX_CTRL_FRAME"
  shows "serves demo_agent pth body" "outcome (h2_fetch demo_agent pth) = Some (0, Some body)"
proof -
  show "serves demo_agent pth body"
    unfolding serves_def using assms
    by (intro exI [of _ 0] exI [of _ "demo_body body"] exI [of _ "[body]"]) (simp add: demo_agent_def demo_body_def contents_def)
  have "outcome (collect_h2_body Released MAX_CTRL_FRAME (demo_body body)) = Some (0, Inr body)"
    using assms(2) by (simp add: collect_h2_body_def demo_body_def tthen_emit tbind_def tret_def task_simps)
  with assms(1) show "outcome (h2_fetch demo_agent pth) = Some (0, Some body)"
    by (simp add: h2_fetch_def h2_get_def ttry_def tbind_def demo_agent_def)
qed

lemma demo_sig_length: "length demo_sig \<le> MAX_CTRL_FRAME"
  by (simp add: demo_sig_def MAX_CTRL_FRAME_def)

lemma demo_h2_reaches: "h2_reaches (relay_libs demo_client_libs) demo_ctx demo_agent (\<lambda>_. Inl '''') None"
proof -
  have m: "length (as_bytes ''aaaaaaaa.x'') \<le> MAX_CTRL_FRAME" "length (as_bytes ''ka'') \<le> MAX_CTRL_FRAME"
    by (simp_all add: MAX_CTRL_FRAME_def)
  note fetch = demo_agent_serves(2) [unfolded demo_h2_answers]
  have "outcome (h2_read_key_auth demo_agent) = Some (0, Some (as_bytes ''ka''))"
    unfolding h2_read_key_auth_def by (rule fetch) (use m in simp_all)
  then have key: "finish (h2_read_key_auth demo_agent) = Some 0" by (simp add: finish_def)
  have v: "auth_verdict (relay_libs demo_client_libs) [''x''] None (\<lambda>_. Inl '''') (as_bytes ''aaaaaaaa.x'') demo_sig = Accept ''aaaaaaaa''"
    using honest_verdict [OF demo_libs_laws demo_connection_built(1), where sfxs = "[''x'']" and tok = None and dns = "\<lambda>_. Inl ''''" and s = demo_sig]
      demo_honest demo_signature
    by (simp add: demo_identity_def demo_connection_built demo_sig_def honest_def)
  have "finish (h2_auth_exchange (relay_libs demo_client_libs) demo_ctx demo_agent None) = Some 0"
    using v fetch [of "''/_ctrl/domain''" "as_bytes ''aaaaaaaa.x''"] fetch [of "''/_ctrl/sig''" demo_sig] m(1) demo_sig_length
    by (auto simp: finish_def h2_auth_exchange_def ttry_def tbind_def auth_verdict_def h2_txt_check_def demo_ctx_def
        split: option.splits if_splits)
  with key show ?thesis
    by (auto simp: h2_reaches_def demo_agent_def check_cert_def demo_ctx_def can_reject_def)
qed


section \<open>An order with nothing left to validate\<close>

text \<open>
  C14. When every authorization of the order is already valid, the key authorization the client
  holds is empty. The relay takes the empty frame for an agent without a challenge: it registers
  the client at once and never writes an acknowledgement. The client reads one before anything
  else, so on the stream the relay leaves, whether it ends or not, it never carries traffic: the
  relay routes to a tunnel that is not up.
\<close>

theorem quic_empty_key_auth_fails:
  assumes "honest (setup_libs l) sfx c" and "client_ready l prov c s" and "challenge_key prov = Some []"
    and "relay_allows (relay_libs (setup_libs l)) ctx dns tok sfx (conn_domain c)"
    and "quic_reaches (relay_libs (setup_libs l)) ctx p dns tok x (conn_domain c)"
    and "arrives x (as_bytes (conn_domain c)) s (key_bytes (challenge_key prov))"
    and "\<forall>n \<le> MAX_CTRL_FRAME. alloc n" and "ctrl_recv p = Source (arrival x @ ys) f"
    and "contents (ctrl_in q) = []"
  shows "table_events (handle_quic_connection (relay_libs (setup_libs l)) alloc ctx p) = [Register (client_id c)] \<and>
    (\<forall>bs. \<not> happens (handle_quic_connection (relay_libs (setup_libs l)) alloc ctx p) (CtrlSent bs)) \<and>
    \<not> happens (quic_loop_inner l q prov c) Up"
proof -
  have adm: "quic_admitted (relay_libs (setup_libs l)) ctx p dns x (as_bytes (conn_domain c)) s (client_id c)"
    by (rule honest_admitted [OF assms(1,2,4,5)])
  have arr: "arrives x (as_bytes (conn_domain c)) s []" using assms(3,6) by (simp add: key_bytes_def as_bytes_def)
  have "\<not> happens (quic_loop_inner l q prov c) Up"
  proof
    assume "happens (quic_loop_inner l q prov c) Up"
    then obtain w' certs r where t: "result (quic_tunnel_certs l q prov c w' (ctrl_in q)) = Some (Inr (certs, r))"
      by (rule quic_up_course)
    have "result (read_frame l (ctrl_in q)) \<noteq> Some (Inr z)" for z
      using assms(9) by (cases "ctrl_in q"; cases "fin (ctrl_in q)")
        (auto simp: contents_def read_frame_def ctrl_read_def read_exact_def result_tbind)
    with t assms(3) show False
      by (auto simp: challenge_key_def quic_tunnel_certs_def quic_lead_def quic_follow_def result_terr_eq result_tbind
          split: option.splits sum.splits prepare_result.splits if_splits)
  qed
  then show ?thesis
    using quic_handler_serves [OF adm arr assms(7,8)]
      quic_serve_plain [OF adm arr assms(7)] by simp
qed

definition demo_valid_order :: prov_env where
  "demo_valid_order = \<lparr>prepare_answer = Some (5, Inr (LeaderChallenge '''' '''' 0)),
     finalize_answer = Some (9, Inr ''pem''), cert_changed = None\<rparr>"

definition demo_empty_arrival :: quic_arrival where
  "demo_empty_arrival = demo_arrival\<lparr>key_part := map (Pair 0) (frame [])\<rparr>"

theorem quic_empty_key_auth_fails_witness:
  "table_events (handle_quic_connection (relay_libs demo_client_libs) (\<lambda>_. True) demo_ctx
     (demo_quic_peer\<lparr>ctrl_recv := Source (arrival demo_empty_arrival) None\<rparr>)) = [Register ''aaaaaaaa''] \<and>
   \<not> happens (quic_loop_inner demo_ctrl_libs (demo_quic_ctrl\<lparr>ctrl_in := instantly []\<rparr>) (Some demo_valid_order)
     demo_connection) Up"
proof -
  have key: "challenge_key (Some demo_valid_order) = Some ''''" by (simp add: challenge_key_def demo_valid_order_def)
  have lib: "setup_libs demo_ctrl_libs = demo_client_libs" by (simp add: demo_ctrl_libs_def)
  have ready: "client_ready demo_ctrl_libs (Some demo_valid_order) demo_connection demo_sig"
    using demo_client_ready by (simp add: client_ready_def key demo_sig_def demo_ctrl_libs_def as_bytes_def)
  have arr: "arrives demo_empty_arrival (as_bytes (conn_domain demo_connection)) demo_sig
      (key_bytes (challenge_key (Some demo_valid_order)))"
    by (simp add: arrives_def demo_arrival_def demo_empty_arrival_def demo_sig_def key key_bytes_def as_bytes_def
        demo_connection_built MAX_CTRL_FRAME_def)
  have reach: "quic_reaches (relay_libs demo_client_libs) demo_ctx
      (demo_quic_peer\<lparr>ctrl_recv := Source (arrival demo_empty_arrival) None\<rparr>) (\<lambda>_. Inl '''') None demo_empty_arrival ''aaaaaaaa.x''"
    using demo_reaches [of demo_empty_arrival]
    by (simp add: demo_empty_arrival_def demo_arrival_def quic_reaches_def)
  show ?thesis
    using quic_empty_key_auth_fails [OF _ ready key _ _ arr, where sfx = "''x''" and ctx = demo_ctx and ys = "[]" and f = None
        and p = "demo_quic_peer\<lparr>ctrl_recv := Source (arrival demo_empty_arrival) None\<rparr>" and dns = "\<lambda>_. Inl ''''" and tok = None
        and alloc = "\<lambda>_. True" and q = "demo_quic_ctrl\<lparr>ctrl_in := instantly []\<rparr>"] demo_honest demo_allowed reach
    by (simp add: lib demo_connection_built)
qed

text \<open>
  The H2 client is left waiting in the same way: it waits to be asked for the end of a challenge the
  relay does not know of, and takes the first stream of a visitor for a breach of the protocol.
\<close>

lemma h2_empty_key_auth_waits:
  assumes "client_ready l prov c s" and "challenge_key prov = Some []"
    and "asks q1 ''/_ctrl/domain''" and "asks q2 ''/_ctrl/sig''" and "asks q3 ''/_ctrl/key_auth''"
  shows "result (h2_ctrl_exchange l tie prov c (Source [(t1, Inr q1), (t2, Inr q2), (t3, Inr q3)] None)) = None"
    and "path v \<notin> {CTRL_REJECT_PATH, ''/_ctrl/alpn'', ''/_ctrl/done''} \<Longrightarrow> result (h2_ctrl_exchange l tie prov c
      (Source [(t1, Inr q1), (t2, Inr q2), (t3, Inr q3), (t4, Inr v)] None)) = Some (Inl (UnexpectedPath (path v)))"
proof -
  have s: "sign_recoverable (setup_libs l) (identity_keypair c) (as_bytes (conn_domain c)) = Inr s"
    using assms(1) by (simp add: client_ready_def)
  have reach: "result (h2_ctrl_exchange l tie prov c (Source ((t1, Inr q1) # (t2, Inr q2) # (t3, Inr q3) # rest) None)) =
      result (h2_key_auth l tie prov c q3 (Source rest None))" for rest
    using assms(3-5) by (simp add: h2_ctrl_exchange_def s result_terr_eq accept_works)
  have ka: "result (h2_key_auth l tie prov c q3 (Source rest None)) = map_option Inl e"
    if "\<And>pem. result (h2_hold_challenge tie [] (Source rest None) pem) = map_option Inl e" for rest e
    using assms(1,2) that
    by (auto simp: challenge_key_def h2_key_auth_def client_ready_def h2_lead_def h2_follow_def result_terr_eq result_tbind
        accept_works(2) [OF assms(5)] split: option.splits sum.splits prepare_result.splits)
  show "result (h2_ctrl_exchange l tie prov c (Source [(t1, Inr q1), (t2, Inr q2), (t3, Inr q3)] None)) = None"
    unfolding reach using ka [of "[]" None] by (simp add: h2_hold_challenge_def result_terr_eq)
  show "result (h2_ctrl_exchange l tie prov c
      (Source [(t1, Inr q1), (t2, Inr q2), (t3, Inr q3), (t4, Inr v)] None)) = Some (Inl (UnexpectedPath (path v)))"
    if "path v \<notin> {CTRL_REJECT_PATH, ''/_ctrl/alpn'', ''/_ctrl/done''}"
    unfolding reach using that ka [of "[(t4, Inr v)]" "Some (UnexpectedPath (path v))"]
    by (simp add: h2_hold_challenge_def result_terr_eq)
qed

end
