(* ===== verification/Client_Connect.thy ===== *)
theory Client_Connect
  imports Client_Session
begin

text \<open>
  Reaching a relay (\<^verbatim>\<open>tunnel-client/src/client.rs\<close>: \<open>ca_roots_client_config\<close>, \<open>TlsMode\<close>, \<open>ClientTls\<close>,
  \<open>connect_within\<close>, \<open>connect_quic\<close>, \<open>connect_h2\<close>): the TLS configuration of a connection, which mode an address
  is given, and one bounded attempt over each transport. Resolution, sockets and the TLS and H2
  handshakes are the fields of \<open>connect_env\<close>; what the handshakes promise is \<open>tls_checks\<close>.
\<close>

section \<open>Client TLS\<close>

type_synonym cert = "byte list"

text \<open>How a relay's certificate is judged: against trusted roots, or not at all (\<open>NoVerify\<close>).\<close>

datatype verifier = TrustRoots "cert list" | NoVerify

record rustls_config =
  server_verifier :: verifier
  client_chain :: "cert list"
  client_key :: tunnel_key

record quic_transport =
  bidi_streams :: nat
  keep_alive :: duration
  idle_timeout :: duration

record tls_mode_config =
  mode_tls :: rustls_config
  mode_quic :: quic_transport

record client_tls_config =
  named_mode :: tls_mode_config
  ip_mode :: tls_mode_config

text \<open>The bundled roots, whether a root store takes a certificate, and whether QUIC takes a configuration.\<close>

record trust_libs =
  webpki_roots :: "cert list"
  staging_roots_pem :: string
  root_added :: "cert \<Rightarrow> bool"
  quic_suitable :: bool

definition ca_roots_client_config :: "trust_libs \<Rightarrow> ctrl_libs \<Rightarrow> cert list \<Rightarrow> tunnel_key \<Rightarrow> bool \<Rightarrow>
    client_error + rustls_config" where
  "ca_roots_client_config tr l chain k acme_staging =
     (if acme_staging then
        (case parse_cert_chain_pem l (staging_roots_pem tr) of
           Inl e \<Rightarrow> Inl e
         | Inr cs \<Rightarrow> Inr \<lparr>server_verifier = TrustRoots (webpki_roots tr @ filter (root_added tr) cs),
             client_chain = chain, client_key = k\<rparr>)
      else Inr \<lparr>server_verifier = TrustRoots (webpki_roots tr), client_chain = chain, client_key = k\<rparr>)"

datatype client_tls_error = RootsFailed client_error | IdleTimeoutBounds | QuicUnsuitable

definition TlsMode_new :: "trust_libs \<Rightarrow> rustls_config \<Rightarrow> client_tls_error + tls_mode_config" where
  "TlsMode_new tr tls =
     (if 2 ^ 62 \<le> as_millis QUIC_MAX_IDLE_TIMEOUT then Inl IdleTimeoutBounds
      else if \<not> quic_suitable tr then Inl QuicUnsuitable
      else Inr \<lparr>mode_tls = tls, mode_quic = \<lparr>bidi_streams = 1000, keep_alive = QUIC_KEEP_ALIVE_INTERVAL,
        idle_timeout = QUIC_MAX_IDLE_TIMEOUT\<rparr>\<rparr>)"

definition ClientTls_new :: "trust_libs \<Rightarrow> ctrl_libs \<Rightarrow> cert \<Rightarrow> tunnel_key \<Rightarrow> bool \<Rightarrow> client_tls_error + client_tls_config" where
  "ClientTls_new tr l c k acme_staging =
     (case ca_roots_client_config tr l [c] k acme_staging of
        Inl e \<Rightarrow> Inl (RootsFailed e)
      | Inr named \<Rightarrow>
          (case TlsMode_new tr named of
             Inl e \<Rightarrow> Inl e
           | Inr named \<Rightarrow>
               (case TlsMode_new tr \<lparr>server_verifier = NoVerify, client_chain = [c], client_key = k\<rparr> of
                  Inl e \<Rightarrow> Inl e
                | Inr ip \<Rightarrow> Inr \<lparr>named_mode = named, ip_mode = ip\<rparr>)))"

definition mode_for :: "(string \<Rightarrow> bool) \<Rightarrow> client_tls_config \<Rightarrow> string \<Rightarrow> tls_mode_config \<times> string" where
  "mode_for parse_ip tls addr =
     (case for_addr parse_ip addr of
        (Named, sni) \<Rightarrow> (named_mode tls, sni)
      | (BareIp, sni) \<Rightarrow> (ip_mode tls, sni))"

section \<open>Connecting\<close>


text \<open>
  The network, as an attempt sees it: name resolution, sockets, and the handshakes, which yield the
  chain the relay presented.
\<close>

record connect_env =
  lookup_host :: "string \<Rightarrow> (string + string list) fut"
  connect_with :: "tls_mode_config \<Rightarrow> string \<Rightarrow> string \<Rightarrow> string + (string + cert list) fut"
  tcp_connect :: "string \<Rightarrow> (string + unit) fut"
  set_nodelay :: "string + unit"
  server_name :: "string \<Rightarrow> string option"
  tls_connect :: "rustls_config \<Rightarrow> string \<Rightarrow> (string + cert list) fut"
  h2_accept :: "u32 \<Rightarrow> u32 \<Rightarrow> (string + unit) fut"

datatype connect_error =
    NetFailed string
  | Unresolved string
  | InvalidServerName string
  | ConnectTimedOut string duration

definition net :: "(string + 'a) fut \<Rightarrow> ('e, connect_error + 'a) task" where
  "net f = tbind (await f) (\<lambda>r. tret (map_sum NetFailed id r))"

definition connect_within :: "duration \<Rightarrow> string \<Rightarrow> ('e, connect_error + 'a) task \<Rightarrow> ('e, connect_error + 'a) task" where
  "connect_within d addr m =
     tbind (timeout d m) (\<lambda>r. tret (case r of Some r \<Rightarrow> r | None \<Rightarrow> Inl (ConnectTimedOut addr d)))"

definition connect_quic :: "connect_env \<Rightarrow> (string \<Rightarrow> bool) \<Rightarrow> string \<Rightarrow> client_tls_config \<Rightarrow> ('e, connect_error + cert list) task" where
  "connect_quic e parse_ip addr tls =
     (case mode_for parse_ip tls addr of
        (mode, sni) \<Rightarrow>
          terr (net (lookup_host e addr)) (\<lambda>addrs.
            case addrs of
              [] \<Rightarrow> tret (Inl (Unresolved addr))
            | socket_addr # _ \<Rightarrow>
                (case connect_with e mode socket_addr sni of
                   Inl err \<Rightarrow> tret (Inl (NetFailed err))
                 | Inr connecting \<Rightarrow> net connecting)))"

definition connect_h2 :: "connect_env \<Rightarrow> (string \<Rightarrow> bool) \<Rightarrow> string \<Rightarrow> client_tls_config \<Rightarrow> ('e, connect_error + cert list) task" where
  "connect_h2 e parse_ip addr tls =
     (case mode_for parse_ip tls addr of
        (mode, sni) \<Rightarrow>
          terr (net (tcp_connect e addr)) (\<lambda>_.
          terr (tret (map_sum NetFailed id (set_nodelay e))) (\<lambda>_.
          case server_name e sni of
            None \<Rightarrow> tret (Inl (InvalidServerName sni))
          | Some name \<Rightarrow>
              terr (net (tls_connect e (mode_tls mode) name)) (\<lambda>chain.
              terr (net (h2_accept e H2_DATA_STREAM_WINDOW H2_DATA_CONN_WINDOW)) (\<lambda>_. tret (Inr chain))))))"

section \<open>A named relay is authenticated\<close>

lemma result_net: "result (net f) = map_option (map_sum NetFailed id \<circ> snd) f"
  by (cases f) (auto simp: net_def result_tbind)

lemma result_net_ok [simp]: "result (net (Some (t, Inr x))) = Some (Inr x)"
  by (simp add: result_net)

lemma net_Inr: "result (net f) = Some (Inr x) \<longleftrightarrow> (\<exists>t. f = Some (t, Inr x))"
  by (cases f; cases "snd (the f)") (auto simp: result_net)

lemma connect_within_Inr:
  assumes "result (connect_within d addr m) = Some (Inr x)"
  shows "result m = Some (Inr x)"
proof -
  from assms obtain r where "result (timeout d m) = Some r" "Inr x = (case r of Some r \<Rightarrow> r | None \<Rightarrow> Inl (ConnectTimedOut addr d))"
    by (cases "result (timeout d m)") (auto simp: connect_within_def result_tbind)
  then show ?thesis by (cases r) (auto dest: result_timeout_Some)
qed

definition trusted_roots :: "trust_libs \<Rightarrow> ctrl_libs \<Rightarrow> bool \<Rightarrow> cert list" where
  "trusted_roots tr l staging = webpki_roots tr @
     (if staging then filter (root_added tr) (case pem_certs l (staging_roots_pem tr) of Some cs \<Rightarrow> cs | None \<Rightarrow> []) else [])"

lemma ClientTls_new_modes:
  assumes "ClientTls_new tr l c k st = Inr tls"
  shows "server_verifier (mode_tls (named_mode tls)) = TrustRoots (trusted_roots tr l st)"
    and "server_verifier (mode_tls (ip_mode tls)) = NoVerify"
    and "client_chain (mode_tls (named_mode tls)) = [c] \<and> client_key (mode_tls (named_mode tls)) = k"
    and "client_chain (mode_tls (ip_mode tls)) = [c] \<and> client_key (mode_tls (ip_mode tls)) = k"
  using assms
  by (auto simp: ClientTls_new_def ca_roots_client_config_def TlsMode_new_def parse_cert_chain_pem_def trusted_roots_def
      split: sum.splits if_splits option.splits)

lemma connect_quic_Inr:
  assumes "mode_for parse_ip tls addr = (mode, sni)" and "result (connect_quic e parse_ip addr tls :: ('e, _) task) = Some (Inr chain)"
  shows "\<exists>a t. connect_with e mode a sni = Inr (Some (t, Inr chain))"
proof -
  obtain addrs t where "lookup_host e addr = Some (t, Inr addrs)"
    using assms by (auto simp: connect_quic_def result_terr net_Inr)
  with assms show ?thesis
    by (cases addrs) (auto simp: connect_quic_def result_terr_eq net_Inr split: sum.splits)
qed

text \<open>
  What the TLS libraries document: a handshake that completes with trusted roots was given a chain
  that is \<open>vouched\<close> for under them, for the name asked for.
\<close>

definition tls_checks :: "(cert list \<Rightarrow> string \<Rightarrow> cert list \<Rightarrow> bool) \<Rightarrow> connect_env \<Rightarrow> bool" where
  "tls_checks vouched e \<longleftrightarrow>
     (\<forall>cfg name t chain roots. tls_connect e cfg name = Some (t, Inr chain) \<longrightarrow>
        server_verifier cfg = TrustRoots roots \<longrightarrow> vouched roots name chain) \<and>
     (\<forall>mode a name t chain roots. connect_with e mode a name = Inr (Some (t, Inr chain)) \<longrightarrow>
        server_verifier (mode_tls mode) = TrustRoots roots \<longrightarrow> vouched roots name chain) \<and>
     (\<forall>s name. server_name e s = Some name \<longrightarrow> name = s)"

text \<open>
  C13. Whichever transport it uses, a client that reaches a relay given by name has checked the
  relay's certificate: the connection it comes back with presented a chain that is valid for
  exactly that name under the bundled roots, those of the staging CA among them only when the
  client runs in staging mode. And an attempt never outlasts its budget.
\<close>

theorem named_relay_authenticated:
  assumes "tls_checks vouched e" and "ClientTls_new tr l c k st = Inr tls"
    and "server_name_from_addr parse_ip addr = Some host"
    and "m = connect_quic e parse_ip addr tls \<or> m = connect_h2 e parse_ip addr tls"
  shows "(\<forall>chain. result (connect_within d addr m) = Some (Inr chain) \<longrightarrow>
      vouched (trusted_roots tr l st) host chain) \<and>
    (\<exists>t \<le> d. finish (connect_within d addr m) = Some t)"
proof -
  note roots = ClientTls_new_modes(1) [OF assms(2)]
  have mode: "mode_for parse_ip tls addr = (named_mode tls, host)"
    using assms(3) by (simp add: mode_for_def for_addr_def)
  have "vouched (trusted_roots tr l st) host chain" if r: "result m = Some (Inr chain)" for chain
    using assms(4)
  proof
    assume "m = connect_quic e parse_ip addr tls"
    with r obtain a t where "connect_with e (named_mode tls) a host = Inr (Some (t, Inr chain))"
      using connect_quic_Inr [OF mode] by blast
    with assms(1) roots show ?thesis unfolding tls_checks_def by blast
  next
    assume "m = connect_h2 e parse_ip addr tls"
    with r obtain t name where "tls_connect e (mode_tls (named_mode tls)) name = Some (t, Inr chain)" "server_name e host = Some name"
      by (auto simp: connect_h2_def mode result_terr net_Inr split: option.splits)
    with assms(1) roots show ?thesis unfolding tls_checks_def by metis
  qed
  then have "\<forall>chain. result (connect_within d addr m) = Some (Inr chain) \<longrightarrow> vouched (trusted_roots tr l st) host chain"
    by (blast dest: connect_within_Inr)
  moreover have "\<exists>t \<le> d. finish (connect_within d addr m) = Some t"
    using finish_timeout [of d m] by (auto simp: connect_within_def finish_tbind_tret)
  ultimately show ?thesis by blast
qed

definition demo_trust :: trust_libs where
  "demo_trust = \<lparr>webpki_roots = [[1]], staging_roots_pem = ''stg'', root_added = \<lambda>_. True, quic_suitable = True\<rparr>"

text \<open>A network in which a relay presents the roots its visitor trusts.\<close>

definition demo_net :: connect_env where
  "demo_net = \<lparr>lookup_host = \<lambda>_. Some (1, Inr [''10.0.0.1:4433'']),
     connect_with = \<lambda>mode _ _. Inr (Some (2, Inr (case server_verifier (mode_tls mode) of TrustRoots rs \<Rightarrow> rs | NoVerify \<Rightarrow> []))),
     tcp_connect = \<lambda>_. Some (1, Inr ()), set_nodelay = Inr (), server_name = Some,
     tls_connect = \<lambda>cfg _. Some (2, Inr (case server_verifier cfg of TrustRoots rs \<Rightarrow> rs | NoVerify \<Rightarrow> [])),
     h2_accept = \<lambda>_ _. Some (1, Inr ())\<rparr>"

definition demo_client_tls :: client_tls_config where
  "demo_client_tls = projr (ClientTls_new demo_trust demo_ctrl_libs [5] demo_identity False)"

lemma demo_client_tls_new: "ClientTls_new demo_trust demo_ctrl_libs [5] demo_identity False = Inr demo_client_tls"
  by (simp add: demo_client_tls_def ClientTls_new_def ca_roots_client_config_def TlsMode_new_def demo_trust_def
      QUIC_MAX_IDLE_TIMEOUT_def H2_PING_INTERVAL_def H2_PING_TIMEOUT_def from_secs_def as_secs_def as_millis_def)

theorem named_relay_authenticated_witness:
  "result (connect_within 9 ''r:1'' (connect_h2 demo_net (\<lambda>_. False) ''r:1'' demo_client_tls :: (unit, _) task)) = Some (Inr [[1]]) \<and>
   [[1]] = trusted_roots demo_trust demo_ctrl_libs False"
proof -
  let ?m = "connect_h2 demo_net (\<lambda>_. False) ''r:1'' demo_client_tls :: (unit, connect_error + cert list) task"
  have host: "server_name_from_addr (\<lambda>_. False) ''r:1'' = Some ''r''" by code_simp
  have checks: "tls_checks (\<lambda>roots name chain. chain = roots) demo_net" by (simp add: tls_checks_def demo_net_def)
  have "outcome ?m = Some (4, Inr [[1]])"
    using host ClientTls_new_modes(1) [OF demo_client_tls_new]
    by (simp add: connect_h2_def mode_for_def for_addr_def demo_net_def net_def outcome_terr trusted_roots_def demo_trust_def)
  then have r: "result (connect_within 9 ''r:1'' ?m) = Some (Inr [[1]])"
    by (simp add: connect_within_def timeout_in_time outcome_tbind result_def)
  with named_relay_authenticated [OF checks demo_client_tls_new host, of ?m 9] show ?thesis by simp
qed

end
