(* ===== verification/Agent_Listeners.thy ===== *)
theory Agent_Listeners
  imports Admission Quic_Listener H2_Listener
begin

text \<open>
  The accept loops for agents (\<^verbatim>\<open>tunnel-server/src/quic.rs\<close>: \<open>run_quic_listener\<close>,
  \<^verbatim>\<open>tunnel-server/src/h2_listener.rs\<close>: \<open>run_h2_listener\<close>). A
  loop runs over the connections in the order in which they arrive; the handlers it spawns run
  beside it and give their permits back when they say so. What is shown is that the two
  agent listeners cannot be held shut: a connection is turned away only when the whole budget was
  spent on others a short time ago.
\<close>

definition ACCEPT_ERROR_BACKOFF :: duration where "ACCEPT_ERROR_BACKOFF = from_millis 100"

section \<open>The permits of a loop\<close>

text \<open>\<open>due\<close> holds the instants at which the permits that are out come back.\<close>

record accept_loop =
  gate :: admission
  due :: "instant list"

definition accept_start :: "string \<Rightarrow> accept_loop" where
  "accept_start p = \<lparr>gate = Admission_new p, due = []\<rparr>"

definition settle :: "instant \<Rightarrow> accept_loop \<Rightarrow> accept_loop" where
  "settle now s =
     s\<lparr>gate := (release ^^ length (filter (\<lambda>d. d \<le> now) (due s))) (gate s),
       due := filter (\<lambda>d. now < d) (due s)\<rparr>"

text \<open>One connection, whose handler would hold its permit for \<open>hold\<close>, if it ever gave it back.\<close>

definition accept_conn :: "instant \<Rightarrow> duration option \<Rightarrow> accept_loop \<Rightarrow> accept_loop \<times> bool" where
  "accept_conn now hold s =
     (let s = settle now s in
      case try_admit now (gate s) of
        (g, Permit) \<Rightarrow>
          (s\<lparr>gate := g, due := (case hold of Some d \<Rightarrow> (now + d) # due s | None \<Rightarrow> due s)\<rparr>, True)
      | (g, _) \<Rightarrow> (s\<lparr>gate := g\<rparr>, False))"

datatype 'p accept_event = Spawned instant 'p | TurnedAway instant 'p | AcceptFailed instant string

section \<open>The loops\<close>

fun run_quic_listener :: "libs \<Rightarrow> (nat \<Rightarrow> bool) \<Rightarrow> listener_ctx \<Rightarrow> instant \<Rightarrow> accept_loop \<Rightarrow>
    (instant \<times> quic_peer) list \<Rightarrow> quic_peer accept_event list" where
  "run_quic_listener l alloc ctx free s [] = []"
| "run_quic_listener l alloc ctx free s ((t, peer) # rest) =
     (let now = max free t in
      case accept_conn now (released_at (handle_quic_connection l alloc ctx peer)) s of
        (s, True) \<Rightarrow> Spawned now peer # run_quic_listener l alloc ctx now s rest
      | (s, False) \<Rightarrow> TurnedAway now peer # run_quic_listener l alloc ctx now s rest)"

fun run_h2_listener :: "libs \<Rightarrow> listener_ctx \<Rightarrow> instant \<Rightarrow> accept_loop \<Rightarrow>
    (instant \<times> (string + h2_peer)) list \<Rightarrow> h2_peer accept_event list" where
  "run_h2_listener l ctx free s [] = []"
| "run_h2_listener l ctx free s ((t, got) # rest) =
     (let now = max free t in
      case got of
        Inl e \<Rightarrow> AcceptFailed now e # run_h2_listener l ctx (now + ACCEPT_ERROR_BACKOFF) s rest
      | Inr peer \<Rightarrow>
          (case accept_conn now (released_at (handle_h2_connection l ctx peer)) s of
             (s, True) \<Rightarrow> Spawned now peer # run_h2_listener l ctx now s rest
           | (s, False) \<Rightarrow> TurnedAway now peer # run_h2_listener l ctx now s rest))"

section \<open>What both agent listeners do\<close>

fun accept_run :: "('p \<Rightarrow> duration option) \<Rightarrow> instant \<Rightarrow> accept_loop \<Rightarrow> (instant \<times> (string + 'p)) list \<Rightarrow>
    'p accept_event list" where
  "accept_run hold free s [] = []"
| "accept_run hold free s ((t, Inl e) # rest) =
     AcceptFailed (max free t) e # accept_run hold (max free t + ACCEPT_ERROR_BACKOFF) s rest"
| "accept_run hold free s ((t, Inr p) # rest) =
     (case accept_conn (max free t) (hold p) s of
        (s, True) \<Rightarrow> Spawned (max free t) p # accept_run hold (max free t) s rest
      | (s, False) \<Rightarrow> TurnedAway (max free t) p # accept_run hold (max free t) s rest)"

lemma run_quic_listener_accept_run:
  "run_quic_listener l alloc ctx free s conns =
     accept_run (\<lambda>p. released_at (handle_quic_connection l alloc ctx p)) free s (map (apsnd Inr) conns)"
  by (induction l alloc ctx free s conns rule: run_quic_listener.induct) (auto simp: Let_def split: prod.split bool.split)

lemma run_h2_listener_accept_run:
  "run_h2_listener l ctx free s conns =
     accept_run (\<lambda>p. released_at (handle_h2_connection l ctx p)) free s conns"
  by (induction l ctx free s conns rule: run_h2_listener.induct) (auto simp: Let_def split: prod.split bool.split sum.split)

text \<open>A connection let in less than \<open>w\<close> before \<open>now\<close>.\<close>

fun recent :: "duration \<Rightarrow> instant \<Rightarrow> 'p accept_event \<Rightarrow> bool" where
  "recent w now (Spawned t p) \<longleftrightarrow> now < t + w"
| "recent w now _ \<longleftrightarrow> False"

definition loop_inv :: "duration \<Rightarrow> 'p accept_event list \<Rightarrow> accept_loop \<Rightarrow> bool" where
  "loop_inv w past s \<longleftrightarrow> permits (gate s) + length (due s) = MAX_UNAUTHENTICATED_CONNS \<and>
     (\<forall>now. length (filter (\<lambda>d. now < d) (due s)) \<le> length (filter (recent w now) past))"

lemma permits_release: "permits ((release ^^ n) a) = permits a + n"
  by (induction n) (simp_all add: release_def)

lemma loop_inv_settle:
  assumes "loop_inv w past s"
  shows "loop_inv w past (settle now s)"
proof -
  have "length (filter (\<lambda>d. d \<le> now) (due s)) + length (filter (\<lambda>d. now < d) (due s)) = length (due s)"
    using sum_length_filter_compl [of "\<lambda>d. d \<le> now" "due s"] by (simp add: not_le)
  moreover have fewer: "length (filter (\<lambda>d. now < d \<and> n < d) ds) \<le> length (filter (\<lambda>d. n < d) ds)" for n ds
    by (induction ds) auto
  have "length (filter (\<lambda>d. now < d \<and> n < d) (due s)) \<le> length (filter (recent w n) past)" for n
    using assms fewer [of n "due s"] le_trans unfolding loop_inv_def by blast
  ultimately show ?thesis
    using assms by (simp add: loop_inv_def settle_def permits_release)
qed

text \<open>An admitted connection is one more recent one; a refused one finds the budget spent on recent ones.\<close>

lemma loop_inv_accept:
  assumes "loop_inv w past s" and "hold = Some h" and "h \<le> w" and "accept_conn now hold s = (s', b)"
  shows "b \<Longrightarrow> loop_inv w (past @ [Spawned now p]) s'"
    and "\<not> b \<Longrightarrow> loop_inv w past s' \<and> MAX_UNAUTHENTICATED_CONNS \<le> length (filter (recent w now) past)"
proof -
  let ?s = "settle now s"
  have inv: "loop_inv w past ?s" by (rule loop_inv_settle [OF assms(1)])
  have all: "filter (\<lambda>d. now < d) (due ?s) = due ?s" by (simp add: settle_def)
  show "loop_inv w (past @ [Spawned now p]) s'" if b
    using that inv assms(2-4)
    by (auto simp: accept_conn_def loop_inv_def try_admit_def Let_def le_SucI split: if_splits option.splits)
  show "loop_inv w past s' \<and> MAX_UNAUTHENTICATED_CONNS \<le> length (filter (recent w now) past)" if "\<not> b"
  proof -
    have "permits (gate ?s) = 0" "due s' = due ?s" "permits (gate s') = 0"
      using that assms(4) by (auto simp: accept_conn_def try_admit_def Let_def split: if_splits option.splits)
    moreover have "length (due ?s) \<le> length (filter (recent w now) past)"
      using inv all unfolding loop_inv_def by metis
    ultimately show ?thesis using inv by (simp add: loop_inv_def)
  qed
qed

lemma accept_run_window:
  assumes "\<And>t p. (t, Inr p) \<in> set conns \<Longrightarrow> \<exists>h \<le> w. hold p = Some h" and "loop_inv w past s"
    and "accept_run hold free s conns = pre @ TurnedAway now p # post"
  shows "MAX_UNAUTHENTICATED_CONNS \<le> length (filter (recent w now) (past @ pre))"
  using assms
proof (induction hold free s conns arbitrary: past pre rule: accept_run.induct)
  case (2 hold free s t e rest)
  then obtain pre' where "pre = AcceptFailed (max free t) e # pre'" by (cases pre) auto
  with 2 show ?case by fastforce
next
  case (3 hold free s t q rest)
  let ?now = "max free t"
  obtain h where h: "hold q = Some h" "h \<le> w" using 3(3) [of t q] by auto
  obtain s' b where a: "accept_conn ?now (hold q) s = (s', b)" by fastforce
  have rest: "\<exists>h \<le> w. hold p = Some h" if "(t, Inr p) \<in> set rest" for t p using 3(3) [of t p] that by simp
  note step = loop_inv_accept [OF 3(4) h a]
  show ?case
  proof (cases b)
    case True
    then obtain pre' where p: "pre = Spawned ?now q # pre'" and r: "accept_run hold ?now s' rest = pre' @ TurnedAway now p # post"
      using 3(5) a by (cases pre) auto
    have "MAX_UNAUTHENTICATED_CONNS \<le> length (filter (recent w now) ((past @ [Spawned ?now q]) @ pre'))"
      by (rule 3(1) [of s' True, OF _ _ rest step(1) [OF True] r]) (use a True in auto)
    then show ?thesis by (simp add: p)
  next
    case False
    show ?thesis
    proof (cases pre)
      case Nil
      with 3(5) a False have "now = ?now" by simp
      with step(2) [OF False] Nil show ?thesis by simp
    next
      case (Cons x pre')
      with 3(5) a False have x: "x = TurnedAway ?now q" and r: "accept_run hold ?now s' rest = pre' @ TurnedAway now p # post"
        by auto
      have "MAX_UNAUTHENTICATED_CONNS \<le> length (filter (recent w now) (past @ pre'))"
        by (rule 3(2) [of s' False, OF _ _ rest _ r]) (use a False step(2) in auto)
      then show ?thesis by (simp add: Cons x)
    qed
  qed
qed simp

lemma loop_inv_start: "loop_inv w [] (accept_start p)"
  by (simp add: loop_inv_def accept_start_def Admission_new_def)

section \<open>The agent listeners cannot be held shut\<close>

text \<open>
  C18. The H2 listener turns a connection away only if it let 512 others in during the last fifty
  seconds: whatever its peers do, and however many of them stall, a budget spent on them is back
  within that time, and a failing \<open>accept\<close> never costs one.
\<close>

theorem h2_listener_admits:
  assumes "run_h2_listener l ctx start (accept_start ''H2'') conns = pre @ TurnedAway now p # post"
  shows "MAX_UNAUTHENTICATED_CONNS \<le> length (filter (recent (from_secs 50) now) pre)"
proof -
  have "\<exists>h \<le> from_secs 50. released_at (handle_h2_connection l ctx q) = Some h" for q
    using released_h2 [of l ctx q]
    by (simp add: TLS_HANDSHAKE_TIMEOUT_def H2_HANDSHAKE_TIMEOUT_def AUTH_EXCHANGE_TIMEOUT_def from_secs_def)
  then show ?thesis
    using accept_run_window [OF _ loop_inv_start assms [unfolded run_h2_listener_accept_run], of "from_secs 50"] by simp
qed

text \<open>
  The QUIC listener likewise: a connection is turned away only if 512 others were let in during the
  time a handshake may take and the thirty seconds of the exchange.
\<close>

theorem quic_listener_admits:
  assumes "\<forall>(t, peer) \<in> set conns. \<exists>h r. quic_handshake peer = Some (h, r) \<and> h \<le> d"
    and "run_quic_listener l alloc ctx start (accept_start ''QUIC'') conns = pre @ TurnedAway now p # post"
  shows "MAX_UNAUTHENTICATED_CONNS \<le> length (filter (recent (d + AUTH_EXCHANGE_TIMEOUT) now) pre)"
proof -
  have "\<exists>h \<le> d + AUTH_EXCHANGE_TIMEOUT. released_at (handle_quic_connection l alloc ctx q) = Some h"
    if mem: "(t, Inr q) \<in> set (map (apsnd Inr) conns)" for t q
  proof -
    obtain h r where h: "quic_handshake q = Some (h, r)" "h \<le> d" using assms(1) mem by auto
    obtain t' where "t' \<le> h + AUTH_EXCHANGE_TIMEOUT" "released_at (handle_quic_connection l alloc ctx q) = Some t'"
      using released_quic [OF h(1), of l alloc ctx] by blast
    with h(2) show ?thesis by (intro exI [of _ t']) simp
  qed
  then show ?thesis
    using accept_run_window [OF _ loop_inv_start assms(2) [unfolded run_quic_listener_accept_run], of "d + AUTH_EXCHANGE_TIMEOUT"]
    by (metis append_Nil)
qed

text \<open>A flood of peers that stall spends the budget; the next one is turned away.\<close>

lemma settle_later: "\<forall>d \<in> set (due s). now < d \<Longrightarrow> settle now s = s"
proof -
  assume "\<forall>d \<in> set (due s). now < d"
  then have "filter (\<lambda>d. d \<le> now) (due s) = []" "filter (\<lambda>d. now < d) (due s) = due s"
    by (auto simp: filter_empty_conv filter_id_conv)
  then show ?thesis by (simp add: settle_def)
qed

lemma flood_spends:
  assumes "hold p = Some h" and "0 < h" and "permits (gate s) = n" and "\<forall>d \<in> set (due s). t < d" and "free \<le> t"
  shows "accept_run hold free s (replicate n (t, Inr p) @ [(t, Inr p)]) = replicate n (Spawned t p) @ [TurnedAway t p]"
  using assms
proof (induction n arbitrary: s free)
  case 0
  then show ?case
    by (simp add: accept_conn_def settle_later try_admit_def max_def split: option.split)
next
  case (Suc n)
  let ?s = "s\<lparr>gate := gate s\<lparr>permits := n\<rparr>, due := (t + h) # due s\<rparr>"
  have "accept_run hold t ?s (replicate n (t, Inr p) @ [(t, Inr p)]) = replicate n (Spawned t p) @ [TurnedAway t p]"
    by (rule Suc.IH) (use Suc.prems in auto)
  with Suc.prems show ?case
    by (simp add: accept_conn_def settle_later try_admit_def max_def Let_def)
qed

definition stalled_h2 :: h2_peer where
  "stalled_h2 = demo_h2_peer\<lparr>tls_accept := None\<rparr>"

definition failing_quic :: quic_peer where
  "failing_quic = demo_quic_peer\<lparr>quic_handshake := Some (1, Inl ''e'')\<rparr>"

theorem h2_listener_admits_witness:
  "MAX_UNAUTHENTICATED_CONNS \<le> length (filter (recent (from_secs 50) 7)
     (replicate MAX_UNAUTHENTICATED_CONNS (Spawned 7 stalled_h2)))"
proof -
  have "released_at (handle_h2_connection demo_libs demo_h2_ctx stalled_h2) = Some TLS_HANDSHAKE_TIMEOUT"
    by (simp add: handle_h2_connection_def stalled_h2_def released_tbind timeout_def happens_def)
  then have "run_h2_listener demo_libs demo_h2_ctx 0 (accept_start ''H2'')
      (replicate MAX_UNAUTHENTICATED_CONNS (7, Inr stalled_h2) @ [(7, Inr stalled_h2)]) =
    replicate MAX_UNAUTHENTICATED_CONNS (Spawned 7 stalled_h2) @ TurnedAway 7 stalled_h2 # []"
    unfolding run_h2_listener_accept_run
    by (rule flood_spends) (simp_all add: TLS_HANDSHAKE_TIMEOUT_def from_secs_def accept_start_def Admission_new_def)
  then show ?thesis by (rule h2_listener_admits)
qed

theorem quic_listener_admits_witness:
  "MAX_UNAUTHENTICATED_CONNS \<le> length (filter (recent (1 + AUTH_EXCHANGE_TIMEOUT) 7)
     (replicate MAX_UNAUTHENTICATED_CONNS (Spawned 7 failing_quic)))"
proof -
  have "released_at (handle_quic_connection demo_libs (\<lambda>_. True) demo_ctx failing_quic) = Some 1"
    by (simp add: handle_quic_connection_def failing_quic_def released_tbind)
  then have "run_quic_listener demo_libs (\<lambda>_. True) demo_ctx 0 (accept_start ''QUIC'')
      (replicate MAX_UNAUTHENTICATED_CONNS (7, failing_quic) @ [(7, failing_quic)]) =
    replicate MAX_UNAUTHENTICATED_CONNS (Spawned 7 failing_quic) @ TurnedAway 7 failing_quic # []"
    unfolding run_quic_listener_accept_run map_append map_replicate apsnd_conv list.map
    by (rule flood_spends) (simp_all add: accept_start_def Admission_new_def)
  then show ?thesis by (rule quic_listener_admits [rotated]) (auto simp: failing_quic_def)
qed

end
