(* ===== verification/Command_Line.thy ===== *)
theory Command_Line
  imports Client_Setup Relay_Run
begin

text \<open>
  The two programs (\<^verbatim>\<open>client/src/main.rs\<close>, \<^verbatim>\<open>relay/src/main.rs\<close>): how the client's command line becomes a
  client, with the keys and the certificate it keeps on disk, how it is stopped, and how the relay's
  becomes a configuration and a shutdown signal. Parsing the arguments and the messages logged
  are left out; key pairs are those of the certificate library.
\<close>

section \<open>The client's start\<close>

record client_args =
  server_arg :: "string list"
  local_arg :: string
  secondary_local_arg :: "string option"
  domain_suffix_arg :: string
  primary_key_arg :: string
  force_h2_arg :: bool
  pool_size_arg :: nat
  acme_email_arg :: "string option"
  acme_creds_arg :: string
  acme_staging_arg :: bool
  primary_ext_arg :: "string option"
  cert_pem_arg :: string
  secondary_key_arg :: "string option"
  secondary_ext_arg :: "string option"

text \<open>The files of the client, and what reading and writing them may do.\<close>

type_synonym client_files = "string \<rightharpoonup> byte list"

record client_disk =
  can_read :: "string \<Rightarrow> bool"
  can_write :: "string \<Rightarrow> bool"

text \<open>Key pairs (\<open>'k\<close>) as the certificate library has them; \<open>fresh_pair\<close> is what generating one gives.\<close>

record 'k pair_libs = "'k key_loader" +
  raw_public :: "'k \<Rightarrow> byte list"
  pair_sign :: "'k \<Rightarrow> byte list \<Rightarrow> string + byte list"
  serialize_pair :: "'k \<Rightarrow> byte list"

datatype cli_error = FileError string | KeyGeneration | BadKey string | BadHex string | NotText string | SetupFailed setup_error

definition RcgenKey :: "'k pair_libs \<Rightarrow> 'k \<times> key_algorithm \<Rightarrow> tunnel_key" where
  "RcgenKey kl ka = \<lparr>algorithm = snd ka, public_key_raw = raw_public kl (fst ka),
     key_sign = \<lambda>m. map_sum ((@) ''rcgen sign failed: '') id (pair_sign kl (fst ka) m)\<rparr>"

definition cli_load_or_generate_keypair :: "'k pair_libs \<Rightarrow> client_disk \<Rightarrow> 'k option \<Rightarrow> string \<Rightarrow> client_files \<Rightarrow>
    client_files \<times> (cli_error + byte list)" where
  "cli_load_or_generate_keypair kl k fresh_pair path fs =
     (case fs path of
        Some der \<Rightarrow> (fs, if can_read k path then Inr der else Inl (FileError path))
      | None \<Rightarrow>
          (case fresh_pair of
             None \<Rightarrow> (fs, Inl KeyGeneration)
           | Some pair \<Rightarrow>
               if can_write k path
               then (fs(path \<mapsto> serialize_pair kl pair), Inr (serialize_pair kl pair))
               else (fs, Inl (FileError path))))"

definition load_cert_pem :: "client_disk \<Rightarrow> string \<Rightarrow> client_files \<Rightarrow> cli_error + string option" where
  "load_cert_pem k path fs =
     (case fs path of
        Some bs \<Rightarrow>
          if \<not> can_read k path then Inl (FileError path)
          else (case from_utf8 bs of Some pem \<Rightarrow> Inr (Some pem) | None \<Rightarrow> Inl (NotText path))
      | None \<Rightarrow> Inr None)"

text \<open>The callback for a fresh certificate: a failed write is logged, nothing else.\<close>

definition on_cert_issued :: "client_disk \<Rightarrow> string \<Rightarrow> string \<Rightarrow> client_files \<Rightarrow> client_files" where
  "on_cert_issued k path pem fs = (if can_write k path then fs(path \<mapsto> as_bytes pem) else fs)"

definition load_identity :: "'k pair_libs \<Rightarrow> byte list \<Rightarrow> cli_error + tunnel_key" where
  "load_identity kl der = (case from_pkcs8_der (key_loader.truncate kl) der of Inl e \<Rightarrow> Inl (BadKey e) | Inr ka \<Rightarrow> Inr (RcgenKey kl ka))"

definition decode_ext :: "(string \<Rightarrow> byte list option) \<Rightarrow> string option \<Rightarrow> cli_error + byte list option" where
  "decode_ext hex_decode h =
     (case h of
        None \<Rightarrow> Inr None
      | Some s \<Rightarrow> (case hex_decode s of None \<Rightarrow> Inl (BadHex s) | Some bs \<Rightarrow> Inr (Some bs)))"

text \<open>\<open>main\<close> up to the client: keys, extensions, the saved certificate, and the client itself.\<close>

definition cli_config :: "client_args \<Rightarrow> tunnel_key \<Rightarrow> byte list option \<Rightarrow> tunnel_key option \<Rightarrow> byte list option \<Rightarrow> string option \<Rightarrow> tunnel_config" where
  "cli_config a prim ext sec sec_ext pem =
     \<lparr>server_addrs = server_arg a, local_addr = local_arg a, secondary_local_addr = secondary_local_arg a,
      domain_suffix = domain_suffix_arg a, force_h2 = force_h2_arg a, cfg_pool_size = pool_size_arg a,
      cfg_acme_email = acme_email_arg a, cfg_acme_creds_path = acme_creds_arg a, cfg_acme_staging = acme_staging_arg a,
      cfg_cert_pem = pem, primary_identity = \<lparr>keypair = prim, cert_extension = ext\<rparr>,
      reconnect = ReconnectPolicy_default, keepalive = H2KeepAlive_default,
      self_signed_identity = map_option (\<lambda>k. \<lparr>keypair = k, cert_extension = sec_ext\<rparr>) sec\<rparr>"

definition cli_build :: "'k pair_libs \<Rightarrow> client_disk \<Rightarrow> client_libs \<Rightarrow> (string \<Rightarrow> byte list option) \<Rightarrow> client_args \<Rightarrow>
    byte list \<Rightarrow> byte list option \<Rightarrow> client_files \<Rightarrow> cli_error + client" where
  "cli_build kl k l hex_decode a primary_der secondary_der fs =
     (case load_identity kl primary_der of
        Inl e \<Rightarrow> Inl e
      | Inr prim \<Rightarrow>
     (case (case secondary_der of None \<Rightarrow> Inr None | Some der \<Rightarrow> map_sum id Some (load_identity kl der)) of
        Inl e \<Rightarrow> Inl e
      | Inr sec \<Rightarrow>
     (case decode_ext hex_decode (primary_ext_arg a) of
        Inl e \<Rightarrow> Inl e
      | Inr ext \<Rightarrow>
     (case decode_ext hex_decode (secondary_ext_arg a) of
        Inl e \<Rightarrow> Inl e
      | Inr sec_ext \<Rightarrow>
     (case load_cert_pem k (cert_pem_arg a) fs of
        Inl e \<Rightarrow> Inl e
      | Inr pem \<Rightarrow>
     map_sum SetupFailed id (TunnelClient_new l (cli_config a prim ext sec sec_ext pem)))))))"

definition cli_setup :: "'k pair_libs \<Rightarrow> client_disk \<Rightarrow> client_libs \<Rightarrow> (string \<Rightarrow> byte list option) \<Rightarrow> client_args \<Rightarrow>
    'k option \<Rightarrow> 'k option \<Rightarrow> client_files \<Rightarrow> client_files \<times> (cli_error + client)" where
  "cli_setup kl k l hex_decode a fresh1 fresh2 fs =
     (case cli_load_or_generate_keypair kl k fresh1 (primary_key_arg a) fs of
        (fs, Inl e) \<Rightarrow> (fs, Inl e)
      | (fs, Inr primary_der) \<Rightarrow>
          (case secondary_key_arg a of
             None \<Rightarrow> (fs, cli_build kl k l hex_decode a primary_der None fs)
           | Some path \<Rightarrow>
               (case cli_load_or_generate_keypair kl k fresh2 path fs of
                  (fs, Inl e) \<Rightarrow> (fs, Inl e)
                | (fs, Inr der) \<Rightarrow> (fs, cli_build kl k l hex_decode a primary_der (Some der) fs))))"

section \<open>A restart\<close>

lemma cli_key_loaded:
  assumes "cli_load_or_generate_keypair kl k fresh path fs = (fs', Inr der)"
  shows "fs' path = Some der" and "fs p = Some x \<Longrightarrow> fs' p = Some x"
  using assms by (auto simp: cli_load_or_generate_keypair_def split: option.splits if_splits)

lemma cli_key_kept:
  "fs path = Some der \<Longrightarrow> can_read k path \<Longrightarrow> cli_load_or_generate_keypair kl k fresh path fs = (fs, Inr der)"
  by (simp add: cli_load_or_generate_keypair_def)

text \<open>The certificate is the only thing a later start may find changed.\<close>

definition with_pem :: "string option \<Rightarrow> client \<Rightarrow> client" where
  "with_pem pem c = c\<lparr>config := (config c)\<lparr>cfg_cert_pem := pem\<rparr>\<rparr>"

lemma TunnelClient_new_with_pem:
  assumes "TunnelClient_new l (cli_config a prim ext sec sec_ext pem) = Inr c"
  shows "TunnelClient_new l (cli_config a prim ext sec sec_ext pem') = Inr (with_pem pem' c)"
  using assms
  by (auto simp: TunnelClient_new_def cli_config_def with_pem_def Let_def split: if_splits sum.splits option.splits)

lemma map_sum_SetupFailed: "map_sum SetupFailed id r = Inr c \<longleftrightarrow> r = Inr c"
  by (cases r) auto

lemma cli_build_seeded:
  assumes "cli_build kl k l hex a der sec fs = Inr c" and "load_cert_pem k (cert_pem_arg a) fs' = Inr pem"
  shows "cli_build kl k l hex a der sec fs' = Inr (with_pem pem c)"
  using assms by (auto simp: cli_build_def map_sum_SetupFailed intro: TunnelClient_new_with_pem split: sum.splits)

text \<open>
  Whatever the first start found on disk, the next one, run with the same arguments after a
  certificate was issued, finds the keys it generated and builds the same connections.
\<close>

lemma restart_keeps_identity:
  assumes "cli_setup kl k l hex a f1 f2 fs = (fs', Inr c)"
    and "can_read k (primary_key_arg a)" and "\<forall>p. secondary_key_arg a = Some p \<longrightarrow> can_read k p"
    and "can_read k (cert_pem_arg a)" and "can_write k (cert_pem_arg a)"
    and "cert_pem_arg a \<noteq> primary_key_arg a" and "secondary_key_arg a \<noteq> Some (cert_pem_arg a)"
    and "from_utf8 (as_bytes pem) = Some pem"
  shows "cli_setup kl k l hex a g1 g2 (on_cert_issued k (cert_pem_arg a) pem fs') =
    (on_cert_issued k (cert_pem_arg a) pem fs', Inr (with_pem (Some pem) c))"
proof -
  let ?fs = "on_cert_issued k (cert_pem_arg a) pem fs'"
  have pem: "load_cert_pem k (cert_pem_arg a) ?fs = Inr (Some pem)"
    using assms(4,5,8) by (simp add: load_cert_pem_def on_cert_issued_def)
  have other: "?fs p = fs' p" if "p \<noteq> cert_pem_arg a" for p using that by (simp add: on_cert_issued_def)
  obtain fs1 der where k1: "cli_load_or_generate_keypair kl k f1 (primary_key_arg a) fs = (fs1, Inr der)"
    using assms(1) by (auto simp: cli_setup_def split: prod.splits sum.splits)
  show ?thesis
  proof (cases "secondary_key_arg a")
    case None
    with assms(1) k1 have b: "cli_build kl k l hex a der None fs1 = Inr c" and "fs' = fs1" by (auto simp: cli_setup_def)
    then have "?fs (primary_key_arg a) = Some der" using cli_key_loaded(1) [OF k1] other assms(6) by auto
    with cli_build_seeded [OF b pem] None assms(2) show ?thesis by (simp add: cli_setup_def cli_key_kept)
  next
    case (Some path)
    then obtain der' where k2: "cli_load_or_generate_keypair kl k f2 path fs1 = (fs', Inr der')"
      and b: "cli_build kl k l hex a der (Some der') fs' = Inr c"
      using assms(1) k1 by (auto simp: cli_setup_def split: prod.splits sum.splits)
    have "?fs (primary_key_arg a) = Some der" "?fs path = Some der'"
      using cli_key_loaded(1) [OF k1] cli_key_loaded [OF k2] other assms(6,7) Some by auto
    with cli_build_seeded [OF b pem] Some assms(2,3) show ?thesis by (simp add: cli_setup_def cli_key_kept)
  qed
qed

text \<open>The start of \<open>run\<close>: the certificate the client was configured with goes to the provisioner.\<close>

definition run_provisioner :: "cert_libs \<Rightarrow> int \<Rightarrow> instant \<Rightarrow> instant \<Rightarrow> client \<Rightarrow> provisioner" where
  "run_provisioner x wall now later c =
     (case cfg_cert_pem (config c) of
        Some pem \<Rightarrow>
          fst (seed x wall now later (conn_domain (primary c)) (public_key_raw (identity_keypair (primary c))) pem CertProvisioner_new)
      | None \<Rightarrow> CertProvisioner_new)"


section \<open>Running and stopping the client\<close>

definition SHUTDOWN_TIMEOUT :: duration where "SHUTDOWN_TIMEOUT = from_secs 5"

datatype tunnel_end = TunnelOk | TunnelErr string | TunnelJoinError string

datatype cli_event = StopRequested | TunnelAborted

text \<open>
  The final \<open>select!\<close>: \<open>ended\<close> is the tunnel left to itself, \<open>wound_down\<close> what it does once told to
  stop; a tie may go either way.
\<close>

definition cli_wait :: "unit fut \<Rightarrow> bool \<Rightarrow> tunnel_end fut \<Rightarrow> tunnel_end fut \<Rightarrow> (cli_event, string + unit) task" where
  "cli_wait ctrl_c tunnel_first ended wound_down =
     (let stop = (\<lambda>u. tthen (sleep u) (tthen (emit StopRequested)
             (tbind (timeout SHUTDOWN_TIMEOUT (await wound_down)) (\<lambda>r.
                if r = None then tthen (emit TunnelAborted) (tret (Inr ())) else tret (Inr ())))));
          over = tbind (await ended) (\<lambda>r. tret (case r of
               TunnelOk \<Rightarrow> Inr ()
             | TunnelErr e \<Rightarrow> Inl e
             | TunnelJoinError e \<Rightarrow> Inl (''tunnel task join error: '' @ e))) in
      case (ended, ctrl_c) of
        (Some (t, r), Some (u, _)) \<Rightarrow> if t < u \<or> t = u \<and> tunnel_first then over else stop u
      | (_, None) \<Rightarrow> over
      | (None, Some (u, _)) \<Rightarrow> stop u)"

text \<open>Ctrl-C ends the process within five seconds, and with an error only if the tunnel had ended with one before.\<close>

lemma cli_wait_exits:
  assumes "ctrl_c = Some (u, ())"
  shows "\<exists>t r. outcome (cli_wait ctrl_c tie ended wound_down) = Some (t, r) \<and> t \<le> u + SHUTDOWN_TIMEOUT \<and>
    (r \<noteq> Inr () \<longrightarrow> (\<exists>s e. ended = Some (s, e) \<and> s \<le> u \<and> e \<noteq> TunnelOk))"
proof -
  obtain v r where v: "outcome (timeout SHUTDOWN_TIMEOUT (await wound_down) :: (cli_event, _) task) = Some (v, r)" "v \<le> SHUTDOWN_TIMEOUT"
    using timeout_resolves by blast
  have "outcome (tbind (timeout SHUTDOWN_TIMEOUT (await wound_down)) (\<lambda>r.
      if r = None then tthen (emit TunnelAborted) (tret (Inr ())) else tret (Inr ()))) = Some (v, Inr () :: string + unit)"
    by (simp add: outcome_tbind [OF v(1)] tthen_emit)
  then have stop: "outcome (tthen (sleep u) (tthen (emit StopRequested) (tbind (timeout SHUTDOWN_TIMEOUT (await wound_down)) (\<lambda>r.
      if r = None then tthen (emit TunnelAborted) (tret (Inr ())) else tret (Inr ()))))) = Some (u + v, Inr () :: string + unit)"
    by (simp add: tthen_sleep tthen_emit task_simps)
  show ?thesis
  proof (cases ended)
    case None
    with assms stop v(2) show ?thesis by (simp add: cli_wait_def Let_def)
  next
    case (Some se)
    then show ?thesis
      using assms stop v(2) by (cases se) (auto simp: cli_wait_def Let_def split: tunnel_end.split)
  qed
qed

definition demo_pairs :: "nat pair_libs" where
  "demo_pairs = \<lparr>try_from_der = \<lambda>der. Some (length der), is_compatible = \<lambda>_ a. a = EcdsaP256, seed_to_pkcs8 = id,
     from_pkcs8_with = \<lambda>_ _. None, raw_public = \<lambda>_. replicate 55 7, pair_sign = \<lambda>_ _. Inr [],
     serialize_pair = \<lambda>n. replicate n 0\<rparr>"

definition demo_client_disk :: client_disk where
  "demo_client_disk = \<lparr>can_read = \<lambda>_. True, can_write = \<lambda>_. True\<rparr>"

definition demo_client_args :: client_args where
  "demo_client_args = \<lparr>server_arg = [''r:1''], local_arg = ''l:1'', secondary_local_arg = None, domain_suffix_arg = ''x'',
     primary_key_arg = ''client.key'', force_h2_arg = False, pool_size_arg = 4, acme_email_arg = None,
     acme_creds_arg = ''creds'', acme_staging_arg = False, primary_ext_arg = None, cert_pem_arg = ''cert.pem'',
     secondary_key_arg = None, secondary_ext_arg = None\<rparr>"

definition demo_cli_client :: client where
  "demo_cli_client = \<lparr>config = cli_config demo_client_args demo_identity None None None None,
     primary = demo_connection, secondary = None\<rparr>"

lemma demo_first_start:
  "cli_setup demo_pairs demo_client_disk demo_client_libs (\<lambda>_. None) demo_client_args (Some 3) None Map.empty =
     ([''client.key'' \<mapsto> replicate 3 0], Inr demo_cli_client)"
proof -
  have args: "primary_ext_arg demo_client_args = None" "secondary_ext_arg demo_client_args = None"
    "cert_pem_arg demo_client_args = ''cert.pem''" by (simp_all add: demo_client_args_def)
  have key: "load_identity demo_pairs (replicate 3 0) = Inr demo_identity"
    by (simp add: load_identity_def from_pkcs8_der_def demo_pairs_def key_loader.defs RcgenKey_def demo_identity_def)
  have new: "TunnelClient_new demo_client_libs (cli_config demo_client_args demo_identity None None None None) = Inr demo_cli_client"
    using demo_connection_built(1)
    by (simp add: TunnelClient_new_def cli_config_def demo_client_args_def demo_cli_client_def demo_identity_def policy_validate_def
        ReconnectPolicy_default_def H2KeepAlive_validate_def H2KeepAlive_default_def H2_PING_INTERVAL_def H2_PING_TIMEOUT_def from_secs_def)
  have "cli_build demo_pairs demo_client_disk demo_client_libs (\<lambda>_. None) demo_client_args (replicate 3 0) None
      [''client.key'' \<mapsto> replicate 3 0] = Inr demo_cli_client"
    using key new args by (simp add: cli_build_def decode_ext_def load_cert_pem_def)
  then show ?thesis
    by (simp add: cli_setup_def cli_load_or_generate_keypair_def)
       (simp add: demo_client_args_def demo_client_disk_def demo_pairs_def)
qed

definition demo_leaf_libs :: cert_libs where
  "demo_leaf_libs = \<lparr>first_cert = (\<lambda>pem. Some (as_bytes pem)),
     parse_leaf = (\<lambda>der. Some \<lparr>not_before = 0, not_after = 900, dns_names = [''aaaaaaaa.x''], spki = replicate 55 7\<rparr>),
     sec1_point = (\<lambda>_. None)\<rparr>"


section \<open>The relay's command line\<close>

record relay_args =
  bind_addr_arg :: string
  api_port_arg :: "16 word"
  pub_port_arg :: "16 word"
  suffixes_arg :: "string list"
  tls_cert_arg :: "string option"
  tls_key_arg :: "string option"
  relay_acme_domain_arg :: "string option"
  relay_acme_email_arg :: "string option"
  relay_creds_arg :: string
  relay_staging_arg :: bool
  directory_url_arg :: "string option"
  root_ca_arg :: "string option"
  renew_days_arg :: u32

definition relay_config :: "relay_args \<Rightarrow> server_config" where
  "relay_config a =
     \<lparr>bind_addr = bind_addr_arg a, api_port = api_port_arg a, pub_port = pub_port_arg a,
      cfg_domain_suffixes = suffixes_arg a, cfg_cert_path = tls_cert_arg a, cfg_key_path = tls_key_arg a,
      acme_domain = relay_acme_domain_arg a, acme_email = relay_acme_email_arg a, acme_creds_path = relay_creds_arg a,
      acme_staging = relay_staging_arg a, acme_directory_url = directory_url_arg a, acme_root_ca_path = root_ca_arg a,
      acme_renew_days_before_expiry = renew_days_arg a\<rparr>"

text \<open>The first of the two signals, or Ctrl-C alone where no handler for the other can be had.\<close>

definition shutdown_signal :: "string + unit fut \<Rightarrow> unit fut \<Rightarrow> unit fut" where
  "shutdown_signal term_handler ctrl_c =
     (case term_handler of
        Inl e \<Rightarrow> ctrl_c
      | Inr term \<Rightarrow>
          (case (term, ctrl_c) of
             (Some (t, _), Some (u, _)) \<Rightarrow> Some (min t u, ())
           | (Some (t, _), None) \<Rightarrow> Some (t, ())
           | (None, _) \<Rightarrow> ctrl_c))"

definition relay_main :: "cert_libs \<Rightarrow> key_libs \<Rightarrow> disk \<Rightarrow> ca \<Rightarrow> string \<times> string \<Rightarrow> files \<Rightarrow> int \<Rightarrow> relay_args \<Rightarrow>
    string + unit fut \<Rightarrow> unit fut \<Rightarrow> relay_env \<Rightarrow> (run_event, run_error + unit) task" where
  "relay_main x l k c le fs wall a term_handler ctrl_c e =
     relay_run_until x l k c le fs wall (relay_config a) (e\<lparr>shutdown := shutdown_signal term_handler ctrl_c\<rparr>)"

text \<open>
  A signal stops the relay: once it serves, the first SIGINT or SIGTERM makes it return
  successfully at most two seconds later, whether or not the agents acknowledge the close.
\<close>

theorem relay_main_stops:
  assumes "pub_bind e" "quic_config e" "quic_endpoint e" "tcp_bind e" "public_ends e = None"
    and "outcome (determine_cert x l k c le fs wall (relay_config a)) = Some (s, Inr paths)"
    and "ctrl_c = Some (u, ()) \<or> term_handler = Inr (Some (u, ()))"
  shows "\<exists>t \<le> s + u + SHUTDOWN_FLUSH. outcome (relay_main x l k c le fs wall a term_handler ctrl_c e) = Some (t, Inr ())"
proof -
  have "\<exists>v \<le> u. shutdown_signal term_handler ctrl_c = Some (v, ())"
    using assms(7) by (auto simp: shutdown_signal_def split: sum.split option.split)
  then obtain v where v: "shutdown_signal term_handler ctrl_c = Some (v, ())" "v \<le> u" by blast
  from shutdown_stops [where e = "e\<lparr>shutdown := shutdown_signal term_handler ctrl_c\<rparr>" and u = v, OF _ _ _ _ assms(6)] assms(1-5) v
  obtain t where "t \<le> s + v + SHUTDOWN_FLUSH" "outcome (relay_main x l k c le fs wall a term_handler ctrl_c e) = Some (t, Inr ())"
    by (auto simp: relay_main_def relay_run_until_def)
  with v(2) show ?thesis by (intro exI [of _ t]) simp
qed

definition demo_relay_args :: relay_args where
  "demo_relay_args = \<lparr>bind_addr_arg = ''0.0.0.0'', api_port_arg = 4433, pub_port_arg = 443, suffixes_arg = [], tls_cert_arg = None,
     tls_key_arg = None, relay_acme_domain_arg = None, relay_acme_email_arg = None, relay_creds_arg = ''c'',
     relay_staging_arg = False, directory_url_arg = None, root_ca_arg = None, renew_days_arg = 30\<rparr>"

theorem relay_main_stops_witness:
  "\<exists>t \<le> 0 + 5 + SHUTDOWN_FLUSH. outcome (relay_main demo_cert_libs demo_key_libs demo_disk demo_ca ('''', '''') Map.empty 100
     demo_relay_args (Inr (Some (5, ()))) None demo_relay) = Some (t, Inr ())"
proof -
  have "outcome (determine_cert demo_cert_libs demo_key_libs demo_disk demo_ca ('''', '''') Map.empty 100
      (relay_config demo_relay_args)) = Some (0, Inr None)"
    by (simp add: determine_cert_def relay_config_def demo_relay_args_def)
  from relay_main_stops [OF _ _ _ _ _ this, where e = demo_relay and u = 5 and ctrl_c = None and term_handler = "Inr (Some (5, ()))"]
  show ?thesis by (simp add: demo_relay_def)
qed

end
