(* ===== verification/Key_Adapters.thy ===== *)
theory Key_Adapters
  imports Client_Setup
begin

text \<open>
  The encodings and adapters of a client's keys (\<^verbatim>\<open>tunnel-client/src/key.rs\<close>): the PKCS#8 form of a seed, the
  public-key information, and the views of a \<open>TunnelKey\<close> the certificate and the TLS library take.
  What is written is an ASN.1 value; turning it into bytes (\<open>construct_der\<close>) is the ASN.1 library's.
\<close>

section \<open>Encodings\<close>

datatype asn1 =
    Sequence "asn1 list"
  | ObjectId "nat list"
  | Small byte
  | Octets "byte list"
  | BitVec "byte list" nat

definition ed25519_seed_to_pkcs8 :: "(asn1 \<Rightarrow> byte list) \<Rightarrow> byte list \<Rightarrow> byte list" where
  "ed25519_seed_to_pkcs8 construct_der seed =
     construct_der (Sequence [Small 0, Sequence [ObjectId (spki_oid Ed25519)],
       Octets (construct_der (Octets seed))])"

definition spki_value :: "key_algorithm \<Rightarrow> byte list \<Rightarrow> asn1" where
  "spki_value alg raw =
     Sequence [Sequence (ObjectId (spki_oid alg) # (case spki_curve_oid alg of Some c \<Rightarrow> [ObjectId c] | None \<Rightarrow> [])),
       BitVec raw (length raw * 8)]"

definition build_spki :: "(asn1 \<Rightarrow> byte list) \<Rightarrow> key_algorithm \<Rightarrow> byte list \<Rightarrow> byte list" where
  "build_spki construct_der alg raw_public_key = construct_der (spki_value alg raw_public_key)"

text \<open>The loader of seeds with the encoding the code uses.\<close>

definition seed_loader :: "(asn1 \<Rightarrow> byte list) \<Rightarrow> 'k key_loader \<Rightarrow> 'k key_loader" where
  "seed_loader construct_der l = l\<lparr>seed_to_pkcs8 := ed25519_seed_to_pkcs8 construct_der\<rparr>"

section \<open>Views of a key\<close>

datatype sig_algorithm = PKCS_ED25519 | PKCS_ECDSA_P256_SHA256

datatype rustls_sig_alg = RustlsED25519 | RustlsECDSA

definition rcgen_sig_alg :: "key_algorithm \<Rightarrow> sig_algorithm" where
  "rcgen_sig_alg a = (case a of Ed25519 \<Rightarrow> PKCS_ED25519 | EcdsaP256 \<Rightarrow> PKCS_ECDSA_P256_SHA256)"

definition rustls_alg :: "key_algorithm \<Rightarrow> rustls_sig_alg" where
  "rustls_alg a = (case a of Ed25519 \<Rightarrow> RustlsED25519 | EcdsaP256 \<Rightarrow> RustlsECDSA)"

datatype rcgen_error = RingUnspecified

record rcgen_remote_key =
  rcgen_inner :: tunnel_key
  rcgen_raw_pub :: "byte list"

definition RcgenRemoteKey_new :: "tunnel_key \<Rightarrow> rcgen_remote_key" where
  "RcgenRemoteKey_new k = \<lparr>rcgen_inner = k, rcgen_raw_pub = public_key_raw k\<rparr>"

definition rcgen_der_bytes :: "rcgen_remote_key \<Rightarrow> byte list" where
  "rcgen_der_bytes r = rcgen_raw_pub r"

definition rcgen_algorithm :: "rcgen_remote_key \<Rightarrow> sig_algorithm" where
  "rcgen_algorithm r = rcgen_sig_alg (algorithm (rcgen_inner r))"

definition rcgen_sign :: "rcgen_remote_key \<Rightarrow> byte list \<Rightarrow> rcgen_error + byte list" where
  "rcgen_sign r msg = map_sum (\<lambda>_. RingUnspecified) id (key_sign (rcgen_inner r) msg)"

record rustls_remote_key =
  rustls_inner :: tunnel_key
  rustls_spki :: "byte list"

record rustls_remote_signer =
  signer_inner :: tunnel_key
  signer_scheme :: signature_scheme

definition RustlsRemoteKey_new :: "(asn1 \<Rightarrow> byte list) \<Rightarrow> tunnel_key \<Rightarrow> rustls_remote_key" where
  "RustlsRemoteKey_new construct_der k =
     \<lparr>rustls_inner = k, rustls_spki = build_spki construct_der (algorithm k) (public_key_raw k)\<rparr>"

definition rustls_choose_scheme :: "rustls_remote_key \<Rightarrow> signature_scheme list \<Rightarrow> rustls_remote_signer option" where
  "rustls_choose_scheme r offered =
     map_option (\<lambda>scheme. \<lparr>signer_inner = rustls_inner r, signer_scheme = scheme\<rparr>) (choose_scheme (rustls_inner r) offered)"

definition rustls_public_key :: "rustls_remote_key \<Rightarrow> byte list option" where
  "rustls_public_key r = Some (rustls_spki r)"

definition rustls_algorithm :: "rustls_remote_key \<Rightarrow> rustls_sig_alg" where
  "rustls_algorithm r = rustls_alg (algorithm (rustls_inner r))"

definition rustls_sign :: "rustls_remote_signer \<Rightarrow> byte list \<Rightarrow> string + byte list" where
  "rustls_sign s msg = map_sum ((@) ''tunnel key sign failed: '') id (key_sign (signer_inner s) msg)"

section \<open>What the views agree on\<close>

lemma map_sum_Inr: "map_sum f id r = Inr x \<longleftrightarrow> r = Inr x"
  by (cases r) auto

lemma spki_value_inj: "spki_value a raw = spki_value b raw' \<longleftrightarrow> a = b \<and> raw = raw'"
  by (cases a; cases b) (auto simp: spki_value_def spki_oid_def spki_curve_oid_def)

text \<open>Where the encoding is faithful, the public-key information tells algorithm and key apart.\<close>

lemma build_spki_inj:
  assumes "inj construct_der"
  shows "build_spki construct_der a raw = build_spki construct_der b raw' \<longleftrightarrow> a = b \<and> raw = raw'"
  using assms by (simp add: build_spki_def inj_eq spki_value_inj)

lemma seed_to_pkcs8_inj:
  assumes "inj construct_der"
  shows "ed25519_seed_to_pkcs8 construct_der s = ed25519_seed_to_pkcs8 construct_der s' \<longleftrightarrow> s = s'"
  using assms by (simp add: ed25519_seed_to_pkcs8_def inj_eq)

text \<open>
  A key signs the same message the same way for certificates and for TLS, and TLS is only offered the
  scheme, the algorithm and the public key that belong to it.
\<close>

lemma remote_views_agree:
  assumes "rustls_choose_scheme (RustlsRemoteKey_new construct_der k) offered = Some signer"
  shows "signer_scheme signer = rustls_scheme (algorithm k)" and "rustls_scheme (algorithm k) \<in> set offered"
    and "rustls_sign signer msg = Inr s \<longleftrightarrow> key_sign k msg = Inr s"
    and "rcgen_sign (RcgenRemoteKey_new k) msg = Inr s \<longleftrightarrow> key_sign k msg = Inr s"
  using assms
  by (auto simp: rustls_choose_scheme_def choose_scheme_def RustlsRemoteKey_new_def rustls_sign_def rcgen_sign_def
      RcgenRemoteKey_new_def Let_def map_sum_Inr split: if_splits)

end
