(* ===== verification/Tls_Helpers.thy ===== *)
theory Tls_Helpers
  imports Client_Setup
begin

text \<open>
  The TLS helpers of the common crate (\<^verbatim>\<open>tunnel-common/src/lib.rs\<close>): the two halves of a stream as one (\<open>IO\<close>), the
  self-signed certificate, the acceptor of a TLS-ALPN-01 challenge, and the certificate verifiers. Key
  generation, signing of certificates and the verification of handshake signatures are parameters.
\<close>

section \<open>Two halves as one stream\<close>

record ('r, 'w) io =
  io_r :: 'r
  io_w :: 'w

definition IO_new :: "'r \<Rightarrow> 'w \<Rightarrow> ('r, 'w) io" where
  "IO_new r w = \<lparr>io_r = r, io_w = w\<rparr>"

definition io_read :: "('r \<Rightarrow> nat \<Rightarrow> 'r \<times> 'a) \<Rightarrow> ('r, 'w) io \<Rightarrow> nat \<Rightarrow> ('r, 'w) io \<times> 'a" where
  "io_read read s n = (case read (io_r s) n of (r, x) \<Rightarrow> (s\<lparr>io_r := r\<rparr>, x))"

definition io_write :: "('w \<Rightarrow> 'b \<Rightarrow> 'w \<times> 'a) \<Rightarrow> ('r, 'w) io \<Rightarrow> 'b \<Rightarrow> ('r, 'w) io \<times> 'a" where
  "io_write write s b = (case write (io_w s) b of (w, x) \<Rightarrow> (s\<lparr>io_w := w\<rparr>, x))"

definition io_flush :: "('w \<Rightarrow> 'a) \<Rightarrow> ('r, 'w) io \<Rightarrow> 'a" where
  "io_flush flush s = flush (io_w s)"

definition io_shutdown :: "('w \<Rightarrow> 'w \<times> 'a) \<Rightarrow> ('r, 'w) io \<Rightarrow> ('r, 'w) io \<times> 'a" where
  "io_shutdown shut s = (case shut (io_w s) of (w, x) \<Rightarrow> (s\<lparr>io_w := w\<rparr>, x))"

text \<open>The halves do not touch each other: reads and writes commute.\<close>

lemma io_read_write:
  "io_read read (fst (io_write write s b)) n =
     (fst (io_write write (fst (io_read read s n)) b), snd (io_read read s n))"
  "snd (io_write write (fst (io_read read s n)) b) = snd (io_write write s b)"
  by (simp_all add: io_read_def io_write_def split: prod.split)

section \<open>Certificates\<close>

record custom_extension =
  ext_oid :: "nat list"
  ext_content :: "byte list"
  ext_critical :: bool

record cert_params =
  subject_alt_names :: "string list"
  custom_extensions :: "custom_extension list"

text \<open>Key pairs (\<open>'k\<close>); \<open>self_sign\<close> also fails for names that no certificate can carry.\<close>

record 'k cert_gen =
  fresh_key :: "'k option"
  self_sign :: "cert_params \<Rightarrow> 'k \<Rightarrow> byte list option"
  any_supported_type :: "'k \<Rightarrow> bool"

definition common_cert :: "'k cert_gen \<Rightarrow> string \<Rightarrow> (byte list \<times> 'k) option" where
  "common_cert g name =
     (case fresh_key g of
        None \<Rightarrow> None
      | Some k \<Rightarrow>
          map_option (\<lambda>der. (der, k)) (self_sign g \<lparr>subject_alt_names = [name], custom_extensions = []\<rparr> k))"

definition ACME_IDENTIFIER_OID :: "nat list" where
  "ACME_IDENTIFIER_OID = [1, 3, 6, 1, 5, 5, 7, 1, 31]"

definition acme_extension :: "libs \<Rightarrow> string \<Rightarrow> custom_extension" where
  "acme_extension l key_authorization =
     \<lparr>ext_oid = ACME_IDENTIFIER_OID, ext_content = [0x04, 0x20] @ sha256 l (as_bytes key_authorization),
      ext_critical = True\<rparr>"

record 'k alpn_acceptor_config =
  resolved_cert :: "byte list list \<times> 'k"
  alpn_protocols :: "byte list list"

datatype alpn_error = KeyGenerationFailed | SelfSignFailed | UnsupportedKeyType

definition build_alpn_acceptor :: "libs \<Rightarrow> 'k cert_gen \<Rightarrow> string \<Rightarrow> string \<Rightarrow> alpn_error + 'k alpn_acceptor_config" where
  "build_alpn_acceptor l g domain key_authorization =
     (case fresh_key g of
        None \<Rightarrow> Inl KeyGenerationFailed
      | Some k \<Rightarrow>
          (case self_sign g \<lparr>subject_alt_names = [domain], custom_extensions = [acme_extension l key_authorization]\<rparr> k of
             None \<Rightarrow> Inl SelfSignFailed
           | Some der \<Rightarrow>
               if \<not> any_supported_type g k then Inl UnsupportedKeyType
               else Inr \<lparr>resolved_cert = ([der], k), alpn_protocols = [as_bytes ''acme-tls/1'']\<rparr>))"

text \<open>Every hello is answered with the challenge's certificate (\<open>AlpnCertResolver\<close>).\<close>

definition alpn_resolve :: "'k alpn_acceptor_config \<Rightarrow> 'h \<Rightarrow> (byte list list \<times> 'k) option" where
  "alpn_resolve a client_hello = Some (resolved_cert a)"

text \<open>
  What a validator asks for (RFC 8737): the protocol it offered, a certificate for the domain alone,
  and in its critical extension the digest of the key authorization as an octet string.
\<close>

definition answers_challenge :: "libs \<Rightarrow> string \<Rightarrow> string \<Rightarrow> cert_params \<Rightarrow> bool" where
  "answers_challenge l domain ka p \<longleftrightarrow> subject_alt_names p = [domain] \<and>
     (\<exists>e. custom_extensions p = [e] \<and> ext_oid e = ACME_IDENTIFIER_OID \<and> ext_critical e \<and>
        (\<exists>body. ext_content e = 0x04 # of_nat (length body) # body \<and> body = sha256 l (as_bytes ka)))"

lemma alpn_acceptor_answers:
  assumes "build_alpn_acceptor l g domain ka = Inr a" and "\<And>bs. length (sha256 l bs) = 32"
  shows "\<exists>p k der. answers_challenge l domain ka p \<and> self_sign g p k = Some der \<and>
    alpn_resolve a hello = Some ([der], k) \<and> alpn_protocols a = [as_bytes ''acme-tls/1'']"
proof -
  let ?p = "\<lparr>subject_alt_names = [domain], custom_extensions = [acme_extension l ka]\<rparr>"
  from assms(1) obtain k der where "self_sign g ?p k = Some der" "a = \<lparr>resolved_cert = ([der], k), alpn_protocols = [as_bytes ''acme-tls/1'']\<rparr>"
    by (auto simp: build_alpn_acceptor_def split: option.splits if_splits)
  moreover have "answers_challenge l domain ka ?p"
    using assms(2) by (simp add: answers_challenge_def acme_extension_def)
  ultimately show ?thesis by (intro exI [of _ ?p] exI [of _ k] exI [of _ der]) (simp add: alpn_resolve_def)
qed

section \<open>Verifiers\<close>

definition SCHEMES :: "signature_scheme list" where
  "SCHEMES = [RSA_PSS_SHA256, ED25519, ECDSA_NISTP256_SHA256, ECDSA_NISTP384_SHA384]"

text \<open>
  A verifier: which chains it takes, which handshake signatures (message, certificate, signature) of
  either protocol version, the schemes it offers and the root names it hints at.
\<close>

record cert_verifier =
  verify_cert :: "byte list \<Rightarrow> byte list list \<Rightarrow> bool"
  verify_tls12_signature :: "byte list \<Rightarrow> byte list \<Rightarrow> byte list \<Rightarrow> bool"
  verify_tls13_signature :: "byte list \<Rightarrow> byte list \<Rightarrow> byte list \<Rightarrow> bool"
  supported_verify_schemes :: "signature_scheme list"
  root_hint_subjects :: "byte list list"

definition no_verify :: cert_verifier where
  "no_verify = \<lparr>verify_cert = \<lambda>_ _. True, verify_tls12_signature = \<lambda>_ _ _. True,
     verify_tls13_signature = \<lambda>_ _ _. True, supported_verify_schemes = SCHEMES, root_hint_subjects = []\<rparr>"

record webpki_algorithms =
  webpki_tls12 :: "byte list \<Rightarrow> byte list \<Rightarrow> byte list \<Rightarrow> bool"
  webpki_tls13 :: "byte list \<Rightarrow> byte list \<Rightarrow> byte list \<Rightarrow> bool"
  supported_schemes :: "signature_scheme list"

definition self_signed_verifier :: "webpki_algorithms \<Rightarrow> cert_verifier" where
  "self_signed_verifier algorithms =
     \<lparr>verify_cert = \<lambda>_ _. True, verify_tls12_signature = webpki_tls12 algorithms,
      verify_tls13_signature = webpki_tls13 algorithms, supported_verify_schemes = supported_schemes algorithms,
      root_hint_subjects = []\<rparr>"

text \<open>
  A handshake under a verifier: the peer's chain is judged, and its signature over the transcript. The
  relay's verifier turns away exactly the peers that cannot sign for the certificate they present.
\<close>

definition peer_accepted :: "cert_verifier \<Rightarrow> bool \<Rightarrow> byte list \<Rightarrow> byte list list \<Rightarrow> byte list \<Rightarrow> bool" where
  "peer_accepted v tls13 transcript chain s =
     (case chain of
        [] \<Rightarrow> False
      | leaf # rest \<Rightarrow> verify_cert v leaf rest \<and>
          (if tls13 then verify_tls13_signature v else verify_tls12_signature v) transcript leaf s)"

lemma self_signed_accepts:
  "peer_accepted (self_signed_verifier algs) tls13 transcript chain s \<longleftrightarrow>
     (\<exists>leaf rest. chain = leaf # rest \<and> (if tls13 then webpki_tls13 algs else webpki_tls12 algs) transcript leaf s)"
  by (cases chain) (simp_all add: peer_accepted_def self_signed_verifier_def)

lemma no_verify_accepts: "peer_accepted no_verify tls13 transcript chain s \<longleftrightarrow> chain \<noteq> []"
  by (cases chain) (simp_all add: peer_accepted_def no_verify_def)

text \<open>The client's keys can always take part: the schemes offered include those of both algorithms.\<close>

lemma schemes_cover_keys: "choose_scheme k (supported_verify_schemes no_verify) = Some (rustls_scheme (algorithm k))"
  by (cases "algorithm k") (simp_all add: choose_scheme_def no_verify_def SCHEMES_def rustls_scheme_def)

end
