(* ===== verification/Client_Account.thy ===== *)
theory Client_Account
  imports Server_Cert
begin

text \<open>
  The client's ACME account (\<^verbatim>\<open>tunnel-client/src/acme.rs\<close>: \<open>CertProvisioner::account\<close>, \<open>load_or_create_account\<close>): restored
  from its credentials on disk, or created and persisted, once per client. Accounts (\<open>'a\<close>) and their
  credentials are those of the ACME library.
\<close>

record 'a account_ca =
  creds_parse :: "string \<Rightarrow> bool"
  account_restore :: "string \<Rightarrow> (string + 'a) fut"
  account_create :: "string list \<Rightarrow> string \<Rightarrow> (string + 'a \<times> string option) fut"

datatype account_event = AccountCreated "string list" string | CredentialsWritten string string

datatype account_error = AccountIo string | BadAccountFile | AccountCa string | CannotSerialize

definition account_call :: "(string + 'b) fut \<Rightarrow> (account_event, account_error + 'b) task" where
  "account_call f = tbind (await f) (\<lambda>r. tret (map_sum AccountCa id r))"

definition load_or_create_account :: "'a account_ca \<Rightarrow> disk \<Rightarrow> string \<times> string \<Rightarrow> files \<Rightarrow> string option \<Rightarrow> bool \<Rightarrow> string \<Rightarrow>
    (account_event, account_error + 'a) task" where
  "load_or_create_account ca k le fs email stg path =
     (case fs path of
        Some json \<Rightarrow>
          if \<not> read_ok k path then tret (Inl (AccountIo path))
          else if \<not> creds_parse ca json then tret (Inl BadAccountFile)
          else account_call (account_restore ca json)
      | None \<Rightarrow>
          (let contact = (case email of Some e \<Rightarrow> [''mailto:'' @ e] | None \<Rightarrow> []);
               url = (if stg then fst le else snd le) in
           terr (account_call (account_create ca contact url)) (\<lambda>(account, credentials).
             tthen (emit (AccountCreated contact url))
               (case credentials of
                  None \<Rightarrow> tret (Inl CannotSerialize)
                | Some json \<Rightarrow>
                    if write_ok k path then tthen (emit (CredentialsWritten path json)) (tret (Inr account))
                    else tret (Inl (AccountIo path))))))"

text \<open>\<open>get_or_try_init\<close>: only a success is kept.\<close>

definition account :: "'a option \<Rightarrow> (account_event, account_error + 'a) task \<Rightarrow>
    'a option \<times> (account_event, account_error + 'a) task" where
  "account cell load =
     (case cell of
        Some a \<Rightarrow> (cell, tret (Inr a))
      | None \<Rightarrow> (case result load of Some (Inr a) \<Rightarrow> Some a | _ \<Rightarrow> None, load))"

fun written_files :: "account_event list \<Rightarrow> files \<Rightarrow> files" where
  "written_files [] fs = fs"
| "written_files (CredentialsWritten p c # es) fs = written_files es (fs(p \<mapsto> c))"
| "written_files (_ # es) fs = written_files es fs"

text \<open>
  What the ACME library documents of credentials: they restore the account they were made for.
\<close>

definition creds_restore :: "'a account_ca \<Rightarrow> bool" where
  "creds_restore ca \<longleftrightarrow> (\<forall>contact url t a json. account_create ca contact url = Some (t, Inr (a, Some json)) \<longrightarrow>
     creds_parse ca json \<and> map_option snd (account_restore ca json) = Some (Inr a))"

lemma result_account_call [simp]: "result (account_call f) = map_option (map_sum AccountCa id \<circ> snd) f"
  by (cases f) (auto simp: account_call_def result_tbind)

lemma trace_account_call [simp]: "trace (account_call f) = []"
  by (cases f) (auto simp: account_call_def trace_tbind)

text \<open>
  A client that got its account gets the same one after a restart, and creates none again.
\<close>

lemma account_survives_restart:
  assumes "creds_restore ca" and "read_ok k path"
    and "result (load_or_create_account ca k le fs email stg path) = Some (Inr a)"
  shows "result (load_or_create_account ca k le
      (written_files (trace (load_or_create_account ca k le fs email stg path)) fs) email' stg' path) = Some (Inr a) \<and>
    trace (load_or_create_account ca k le
      (written_files (trace (load_or_create_account ca k le fs email stg path)) fs) email' stg' path) = []"
proof (cases "fs path")
  case (Some json)
  then have "trace (load_or_create_account ca k le fs email stg path) = []"
    by (simp add: load_or_create_account_def)
  with Some assms show ?thesis by (simp add: load_or_create_account_def)
next
  case None
  let ?contact = "case email of Some e \<Rightarrow> [''mailto:'' @ e] | None \<Rightarrow> []" and ?url = "if stg then fst le else snd le"
  obtain t json where c: "account_create ca ?contact ?url = Some (t, Inr (a, Some json))" and w: "write_ok k path"
    using assms(3) None
    by (cases "account_create ca ?contact ?url"; cases "snd (the (account_create ca ?contact ?url))")
       (auto simp: load_or_create_account_def Let_def result_terr_eq split: option.splits if_splits)
  then have "trace (load_or_create_account ca k le fs email stg path) =
      [AccountCreated ?contact ?url, CredentialsWritten path json]"
    using None by (simp add: load_or_create_account_def Let_def trace_terr)
  moreover have "creds_parse ca json \<and> map_option snd (account_restore ca json) = Some (Inr a)"
    using assms(1) c unfolding creds_restore_def by blast
  ultimately show ?thesis using assms(2) by (auto simp: load_or_create_account_def)
qed

end
