(* ===== verification/Ffi_Events.thy ===== *)
theory Ffi_Events
  imports Connection_Run "HOL-Library.Sublist"
begin

text \<open>
  The foreign surface of the client (\<^verbatim>\<open>tunnel-client-ffi/src/ffi/mod.rs\<close>): the events the foreign
  handler sees, and \<open>TunnelClient::run\<close> with its \<open>TerminalGuard\<close>, which owes the handler exactly one
  terminal event even when the foreign side cancels the call at an arbitrary await. The step relation
  \<open>ffi_step\<close> interleaves the call, the tunnel task that queues events, \<open>stop()\<close> and the cancellation;
  \<open>calls\<close> are the events whose \<open>on_event\<close> was started, \<open>delivered\<close> those for which it returned.
\<close>

section \<open>Events\<close>

datatype tunnel_event =
    Started
  | Stopped
  | CertIssued string
  | ConnectionEstablished string string string
  | ConnectionLost string string string string
  | ConnectionAttemptFailed string string u32 string u64
  | ConnectionGaveUp string string string
  | Failed string

datatype inner = Cert string | Conn connection_event

text \<open>\<open>u64::try_from(..).unwrap_or(u64::MAX)\<close>\<close>

definition millis_u64 :: "duration \<Rightarrow> u64" where
  "millis_u64 d = (if as_millis d < 2 ^ 64 then of_nat (as_millis d) else - 1)"

fun from_conn :: "connection_event \<Rightarrow> tunnel_event" where
  "from_conn (Established tag addr t) = ConnectionEstablished tag addr (as_str t)"
| "from_conn (Lost tag addr t cause) = ConnectionLost tag addr (as_str t) cause"
| "from_conn (AttemptFailed tag addr n cause d) = ConnectionAttemptFailed tag addr n cause (millis_u64 d)"
| "from_conn (GaveUp tag addr cause) = ConnectionGaveUp tag addr cause"

fun event_of :: "inner \<Rightarrow> tunnel_event" where
  "event_of (Cert pem) = CertIssued pem"
| "event_of (Conn ev) = from_conn ev"

fun is_terminal :: "tunnel_event \<Rightarrow> bool" where
  "is_terminal Stopped \<longleftrightarrow> True"
| "is_terminal (Failed _) \<longleftrightarrow> True"
| "is_terminal _ \<longleftrightarrow> False"

fun is_conn_established :: "tunnel_event \<Rightarrow> bool" where
  "is_conn_established (ConnectionEstablished _ _ _) \<longleftrightarrow> True"
| "is_conn_established _ \<longleftrightarrow> False"

lemma from_conn_plain [simp]:
  "\<not> is_terminal (from_conn ev)" "from_conn ev \<noteq> Started" "Started \<noteq> from_conn ev"
  by (cases ev; simp)+

lemma event_of_plain [simp]: "\<not> is_terminal (event_of x)" "event_of x \<noteq> Started" "Started \<noteq> event_of x"
  by (cases x; simp)+

text \<open>\<open>deliver\<close>: the calls of the handler that one queued item makes.\<close>

definition deliver :: "bool \<Rightarrow> inner \<Rightarrow> tunnel_event list" where
  "deliver announced x =
     (if is_conn_established (event_of x) \<and> \<not> announced then [Started, event_of x] else [event_of x])"

text \<open>The terminal event after the tunnel task has ended; a panic of the task is a failure too.\<close>

definition format_error_chain :: "string list \<Rightarrow> string" where
  "format_error_chain chain =
     (case chain of [] \<Rightarrow> [] | first # causes \<Rightarrow> first @ concat (map (\<lambda>c. '': '' @ c) causes))"

datatype tunnel_outcome = RanOk | RanErr "string list" | Panicked string

definition terminal_event :: "tunnel_outcome \<Rightarrow> tunnel_event" where
  "terminal_event t =
     (case t of
        RanOk \<Rightarrow> Stopped
      | RanErr chain \<Rightarrow> Failed (format_error_chain chain)
      | Panicked e \<Rightarrow> Failed e)"

section \<open>The call\<close>

text \<open>
  Where the events are being delivered from: the loop of \<open>run\<close>, its final drain (with the terminal
  event to come), the terminal event itself, and the same in the tail that the guard spawns.
\<close>

datatype place = InLoop | InDrain tunnel_event | InTerminal | TailShutdown | TailDrain | TailTerminal

text \<open>\<open>OnEvent w ev rest\<close>: \<open>on_event(ev)\<close> is being awaited, \<open>rest\<close> is still to be delivered.\<close>

datatype run_phase = Idle | At place | OnEvent place tunnel_event "tunnel_event list" | Over

datatype tunnel_task = NotSpawned | Running | Ended_with tunnel_outcome | Aborted

record ffi_client =
  phase :: run_phase
  tunnel :: tunnel_task
  queue :: "inner list"
  sent_items :: "inner list"
  announced :: bool
  stopped :: bool
  started :: bool
  terminal :: bool
  cancelled_run :: bool
  calls :: "tunnel_event list"
  delivered :: "tunnel_event list"

definition TunnelClient_ffi_new :: ffi_client where
  "TunnelClient_ffi_new = \<lparr>phase = Idle, tunnel = NotSpawned, queue = [], sent_items = [], announced = False,
     stopped = False, started = False, terminal = False, cancelled_run = False, calls = [], delivered = []\<rparr>"

definition begin_events :: "place \<Rightarrow> tunnel_event list \<Rightarrow> ffi_client \<Rightarrow> ffi_client" where
  "begin_events w evs c =
     (case evs of
        [] \<Rightarrow> c\<lparr>phase := At w\<rparr>
      | ev # rest \<Rightarrow> c\<lparr>phase := OnEvent w ev rest, calls := calls c @ [ev]\<rparr>)"

text \<open>The first call of \<open>run\<close>; \<open>rt\<close> is whether the runtime could be built.\<close>

definition run_begin :: "string + unit \<Rightarrow> ffi_client \<Rightarrow> ffi_client" where
  "run_begin rt c =
     (let c = c\<lparr>started := True\<rparr> in
      if stopped c then begin_events InTerminal [Stopped] c
      else
        (case rt of
           Inl cause \<Rightarrow> begin_events InTerminal [Failed cause] c
         | Inr _ \<Rightarrow> c\<lparr>tunnel := Running, phase := At InLoop\<rparr>))"

definition take_item :: "place \<Rightarrow> ffi_client \<Rightarrow> ffi_client" where
  "take_item w c =
     (case queue c of
        [] \<Rightarrow> c
      | x # q \<Rightarrow> begin_events w (deliver (announced c) x) (c\<lparr>queue := q\<rparr>))"

definition event_returns :: "place \<Rightarrow> tunnel_event \<Rightarrow> tunnel_event list \<Rightarrow> ffi_client \<Rightarrow> ffi_client" where
  "event_returns w ev rest c =
     (let c = c\<lparr>delivered := delivered c @ [ev], announced := (announced c \<or> Started = ev)\<rparr> in
      if w = InTerminal \<or> w = TailTerminal then c\<lparr>terminal := True, phase := Over\<rparr>
      else begin_events w rest c)"

definition cancellable :: "place \<Rightarrow> bool" where
  "cancellable w \<longleftrightarrow> w \<notin> {TailShutdown, TailDrain, TailTerminal}"

text \<open>The future of \<open>run\<close> is dropped: the guard, if no terminal event was delivered, spawns the tail.\<close>

definition drop_run :: "ffi_client \<Rightarrow> ffi_client" where
  "drop_run c = (if terminal c then c else c\<lparr>phase := At TailShutdown, cancelled_run := True\<rparr>)"

inductive ffi_step :: "ffi_client \<Rightarrow> ffi_client \<Rightarrow> bool" where
  runs: "\<not> started c \<Longrightarrow> ffi_step c (run_begin rt c)"
| runs_again: "started c \<Longrightarrow> ffi_step c c"
| stops: "ffi_step c (c\<lparr>stopped := True\<rparr>)"
| queues: "tunnel c = Running \<Longrightarrow> ffi_step c (c\<lparr>queue := queue c @ [x], sent_items := sent_items c @ [x]\<rparr>)"
| ends: "tunnel c = Running \<Longrightarrow> ffi_step c (c\<lparr>tunnel := Ended_with t\<rparr>)"
| loops: "phase c = At InLoop \<Longrightarrow> queue c \<noteq> [] \<Longrightarrow> ffi_step c (take_item InLoop c)"
| joins: "phase c = At InLoop \<Longrightarrow> tunnel c = Ended_with t \<Longrightarrow>
    ffi_step c (c\<lparr>phase := At (InDrain (terminal_event t))\<rparr>)"
| drains: "phase c = At (InDrain ev) \<Longrightarrow> queue c \<noteq> [] \<Longrightarrow> ffi_step c (take_item (InDrain ev) c)"
| drained: "phase c = At (InDrain ev) \<Longrightarrow> queue c = [] \<Longrightarrow> ffi_step c (begin_events InTerminal [ev] c)"
| returns: "phase c = OnEvent w ev rest \<Longrightarrow> ffi_step c (event_returns w ev rest c)"
| cancels_await: "phase c = At w \<Longrightarrow> cancellable w \<Longrightarrow> ffi_step c (drop_run c)"
| cancels_event: "phase c = OnEvent w ev rest \<Longrightarrow> cancellable w \<Longrightarrow> ffi_step c (drop_run c)"
| tail_shuts_down: "phase c = At TailShutdown \<Longrightarrow>
    ffi_step c (c\<lparr>phase := At TailDrain, tunnel := (if tunnel c = Running then Aborted else tunnel c)\<rparr>)"
| tail_drains: "phase c = At TailDrain \<Longrightarrow> queue c \<noteq> [] \<Longrightarrow> ffi_step c (take_item TailDrain c)"
| tail_drained: "phase c = At TailDrain \<Longrightarrow> queue c = [] \<Longrightarrow> ffi_step c (begin_events TailTerminal [Stopped] c)"

definition ffi_init :: "ffi_client \<Rightarrow> bool" where
  "ffi_init c \<longleftrightarrow> c = TunnelClient_ffi_new"

section \<open>Invariant\<close>

fun pending :: "run_phase \<Rightarrow> tunnel_event list" where
  "pending (OnEvent _ ev rest) = ev # rest"
| "pending _ = []"

fun place_of :: "run_phase \<Rightarrow> place option" where
  "place_of (OnEvent w _ _) = Some w"
| "place_of (At w) = Some w"
| "place_of _ = None"

definition payload :: "tunnel_event list \<Rightarrow> tunnel_event list" where
  "payload evs = filter (\<lambda>e. e \<noteq> Started \<and> \<not> is_terminal e) evs"

lemma payload_simps [simp]:
  "payload [] = []" "payload (e # es) = (if e \<noteq> Started \<and> \<not> is_terminal e then e # payload es else payload es)"
  "payload (xs @ ys) = payload xs @ payload ys"
  by (simp_all add: payload_def)

text \<open>No terminal event before the end, and the last delivered event at the end.\<close>

definition ends_once :: "ffi_client \<Rightarrow> bool" where
  "ends_once c \<longleftrightarrow>
     (if phase c = Over
      then \<exists>evs ev. delivered c = evs @ [ev] \<and> is_terminal ev \<and> \<not> list_ex is_terminal evs
      else \<not> list_ex is_terminal (delivered c))"

definition terminal_ok :: "ffi_client \<Rightarrow> bool" where
  "terminal_ok c \<longleftrightarrow> (terminal c \<longleftrightarrow> phase c = Over) \<and> (started c \<longleftrightarrow> phase c \<noteq> Idle) \<and> ends_once c \<and>
     (case phase c of
        OnEvent w ev rest \<Rightarrow>
          if w = InTerminal \<or> w = TailTerminal then is_terminal ev \<and> rest = []
          else \<not> list_ex is_terminal (ev # rest)
      | At w \<Rightarrow> w \<notin> {InTerminal, TailTerminal}
      | _ \<Rightarrow> True) \<and>
     (\<forall>ev. place_of (phase c) = Some (InDrain ev) \<longrightarrow> is_terminal ev)"

lemma terminal_plain [simp]: "is_terminal ev \<Longrightarrow> \<not> is_conn_established ev" "\<not> is_terminal Started"
  by (cases ev; simp) simp

lemma is_terminal_event [simp]: "is_terminal (terminal_event t)"
  by (cases t) (simp_all add: terminal_event_def)

lemmas ffi_defs = run_begin_def take_item_def event_returns_def drop_run_def begin_events_def deliver_def
  cancellable_def

lemma terminal_step:
  assumes "ffi_step c c'" and "terminal_ok c"
  shows "terminal_ok c'"
  using assms
  by (cases rule: ffi_step.cases)
     (auto simp: terminal_ok_def ends_once_def ffi_defs Let_def split: list.splits sum.splits if_splits)

text \<open>When nothing can be queued any more.\<close>

definition quiet_ok :: "ffi_client \<Rightarrow> bool" where
  "quiet_ok c \<longleftrightarrow>
     (phase c = Idle \<longrightarrow> sent_items c = [] \<and> delivered c = [] \<and> \<not> cancelled_run c) \<and>
     (place_of (phase c) \<notin> {Some InLoop, Some TailShutdown} \<longrightarrow> tunnel c \<noteq> Running) \<and>
     (place_of (phase c) \<in> {None, Some InTerminal, Some TailTerminal} \<longrightarrow> queue c = [])"

lemma quiet_step:
  assumes "ffi_step c c'" and "quiet_ok c" and "terminal_ok c"
  shows "quiet_ok c'"
  using assms
  by (cases rule: ffi_step.cases)
     (auto simp: quiet_ok_def terminal_ok_def ffi_defs Let_def split: list.splits sum.splits if_splits place.splits)

text \<open>Started is announced once, before the first established connection.\<close>

fun announces :: "bool \<Rightarrow> tunnel_event list \<Rightarrow> bool" where
  "announces b [] \<longleftrightarrow> True"
| "announces b (ev # evs) \<longleftrightarrow>
     (is_conn_established ev \<longrightarrow> b) \<and> (Started = ev \<longrightarrow> \<not> b) \<and> announces (b \<or> Started = ev) evs"

lemma announces_append [simp]:
  "announces b (xs @ ys) \<longleftrightarrow> announces b xs \<and> announces (b \<or> Started \<in> set xs) ys"
  by (induction b xs rule: announces.induct) auto

definition announced_ok :: "ffi_client \<Rightarrow> bool" where
  "announced_ok c \<longleftrightarrow> (announced c \<longleftrightarrow> Started \<in> set (delivered c)) \<and>
     announces False (delivered c @ pending (phase c))"

lemma announced_step:
  assumes "ffi_step c c'" and "announced_ok c" and "terminal_ok c"
  shows "announced_ok c'"
  using assms
  by (cases rule: ffi_step.cases)
     (auto simp: announced_ok_def terminal_ok_def ffi_defs Let_def split: list.splits sum.splits if_splits)

text \<open>What was queued is delivered in order; a cancellation may drop the one event being delivered.\<close>

definition undelivered :: "ffi_client \<Rightarrow> tunnel_event list" where
  "undelivered c = payload (pending (phase c)) @ map event_of (queue c)"

definition accounted :: "ffi_client \<Rightarrow> tunnel_event list" where
  "accounted c = payload (delivered c) @ undelivered c"

lemma payload_deliver [simp]: "payload (deliver b x) = [event_of x]"
  by (simp add: deliver_def)

lemma accounted_begin:
  "accounted (begin_events w evs c) = payload (delivered c) @ payload evs @ map event_of (queue c)"
  by (auto simp: begin_events_def accounted_def undelivered_def split: list.splits)

lemma begin_events_keeps [simp]:
  "sent_items (begin_events w evs c) = sent_items c" "cancelled_run (begin_events w evs c) = cancelled_run c"
  "queue (begin_events w evs c) = queue c" "delivered (begin_events w evs c) = delivered c"
  "place_of (phase (begin_events w evs c)) = Some w" "pending (phase (begin_events w evs c)) = evs"
  "phase (begin_events w evs c) \<noteq> Over"
  by (auto simp: begin_events_def split: list.splits)

lemma accounted_take: "queue c = x # q \<Longrightarrow> phase c = At w' \<Longrightarrow> accounted (take_item w c) = accounted c"
  by (simp add: take_item_def accounted_begin) (simp add: accounted_def undelivered_def)

lemma accounted_returns:
  "phase c = OnEvent w ev rest \<Longrightarrow> w = InTerminal \<or> w = TailTerminal \<Longrightarrow> is_terminal ev \<and> rest = [] \<Longrightarrow>
   accounted (event_returns w ev rest c) = accounted c"
  "phase c = OnEvent w ev rest \<Longrightarrow> w \<noteq> InTerminal \<Longrightarrow> w \<noteq> TailTerminal \<Longrightarrow>
   accounted (event_returns w ev rest c) = accounted c"
  by (auto simp: event_returns_def Let_def accounted_begin) (auto simp: accounted_def undelivered_def)

lemma content_cases:
  assumes "ffi_step c c'" and "terminal_ok c"
  shows "(accounted c' = accounted c \<and> sent_items c' = sent_items c \<and> cancelled_run c' = cancelled_run c) \<or>
    (\<exists>x. accounted c' = accounted c @ [event_of x] \<and> sent_items c' = sent_items c @ [x] \<and> cancelled_run c' = cancelled_run c) \<or>
    (accounted c' = payload (delivered c) @ map event_of (queue c) \<and> sent_items c' = sent_items c \<and>
     (\<exists>w. place_of (phase c) = Some w \<and> cancellable w) \<and> cancelled_run c')"
  using assms
proof (cases rule: ffi_step.cases)
  case (runs rt)
  with assms(2) show ?thesis
    by (auto simp: run_begin_def Let_def accounted_begin terminal_ok_def split: sum.splits)
       (auto simp: accounted_def undelivered_def)
next
  case loops
  then show ?thesis by (cases "queue c") (simp_all add: accounted_take, simp add: take_item_def)
next
  case (drains ev)
  then show ?thesis by (cases "queue c") (simp_all add: accounted_take, simp add: take_item_def)
next
  case tail_drains
  then show ?thesis by (cases "queue c") (simp_all add: accounted_take, simp add: take_item_def)
next
  case (returns w ev rest)
  then have "accounted c' = accounted c"
    using assms(2) accounted_returns [of c w ev rest] by (auto simp: terminal_ok_def split: if_splits)
  then show ?thesis using returns by (simp add: event_returns_def Let_def)
next
  case (drained ev)
  with assms(2) have "accounted c' = accounted c"
    by (simp add: terminal_ok_def accounted_begin) (simp add: accounted_def undelivered_def)
  then show ?thesis using drained by simp
next
  case tail_drained
  then have "accounted c' = accounted c"
    by (simp add: accounted_begin) (simp add: accounted_def undelivered_def)
  then show ?thesis using tail_drained by simp
next
  case (cancels_await w)
  with assms(2) show ?thesis by (simp add: drop_run_def terminal_ok_def accounted_def undelivered_def)
next
  case (cancels_event w ev rest)
  with assms(2) show ?thesis by (simp add: drop_run_def terminal_ok_def accounted_def undelivered_def)
qed (simp_all add: accounted_def undelivered_def)

definition content_ok :: "ffi_client \<Rightarrow> bool" where
  "content_ok c \<longleftrightarrow>
     subseq (accounted c) (map event_of (sent_items c)) \<and>
     length (sent_items c) \<le> length (accounted c) + (if cancelled_run c then 1 else 0) \<and>
     length (payload (pending (phase c))) \<le> 1 \<and>
     (cancelled_run c \<longrightarrow> (\<forall>w. place_of (phase c) = Some w \<longrightarrow> \<not> cancellable w))"

lemma pending_step:
  assumes "ffi_step c c'" and "content_ok c" and "terminal_ok c" and "quiet_ok c"
  shows "length (payload (pending (phase c'))) \<le> 1 \<and>
    (cancelled_run c' \<longrightarrow> (\<forall>w. place_of (phase c') = Some w \<longrightarrow> \<not> cancellable w))"
  using assms
  by (cases rule: ffi_step.cases)
     (auto simp: content_ok_def terminal_ok_def quiet_ok_def run_begin_def take_item_def event_returns_def drop_run_def
      cancellable_def Let_def split: list.splits sum.splits if_splits)

lemma content_step:
  assumes "ffi_step c c'" and "content_ok c" and "terminal_ok c" and "quiet_ok c"
  shows "content_ok c'"
proof -
  note p = pending_step [OF assms]
  from content_cases [OF assms(1,3)] show ?thesis
  proof (elim disjE conjE exE)
    assume "accounted c' = accounted c" "sent_items c' = sent_items c" "cancelled_run c' = cancelled_run c"
    with p assms(2) show ?thesis by (simp add: content_ok_def)
  next
    fix x assume "accounted c' = accounted c @ [event_of x]" "sent_items c' = sent_items c @ [x]"
      "cancelled_run c' = cancelled_run c"
    with p assms(2) show ?thesis by (simp add: content_ok_def)
  next
    fix w assume c: "accounted c' = payload (delivered c) @ map event_of (queue c)" "sent_items c' = sent_items c"
      "cancelled_run c'" "place_of (phase c) = Some w" "cancellable w"
    with assms(2) have "\<not> cancelled_run c" by (auto simp: content_ok_def)
    moreover have "subseq (payload (delivered c) @ map event_of (queue c)) (accounted c)"
      unfolding accounted_def undelivered_def
      by (intro list_emb_append_mono list_emb_append2 subseq_order.order_refl)
    ultimately show ?thesis
      using p assms(2) c
      by (auto simp: content_ok_def intro: subseq_order.trans) (simp add: accounted_def undelivered_def)
  qed
qed

definition ffi_inv :: "ffi_client \<Rightarrow> bool" where
  "ffi_inv c \<longleftrightarrow> terminal_ok c \<and> quiet_ok c \<and> announced_ok c \<and> content_ok c"

interpretation ffi: invariant_of ffi_init ffi_step ffi_inv
proof unfold_locales
  show "ffi_init c \<Longrightarrow> ffi_inv c" for c
    by (simp add: ffi_init_def TunnelClient_ffi_new_def ffi_inv_def terminal_ok_def ends_once_def quiet_ok_def
        announced_ok_def content_ok_def accounted_def undelivered_def)
  show "ffi_inv c \<Longrightarrow> ffi_step c c' \<Longrightarrow> ffi_inv c'" for c c'
    by (auto simp: ffi_inv_def intro: terminal_step quiet_step announced_step content_step)
qed

section \<open>The contract with the handler\<close>

text \<open>
  C24. The foreign handler is told the end exactly once: whatever the tunnel does, whenever \<open>stop()\<close>
  is called and wherever the call is cancelled, no terminal event is delivered before the end, the
  last delivered event is the only terminal one, \<open>Started\<close> is delivered at most once, and no
  connection is reported as established before it.
\<close>

theorem ffi_ends_once:
  assumes "reachable ffi_init ffi_step c"
  shows "(if phase c = Over
      then \<exists>evs ev. delivered c = evs @ [ev] \<and> is_terminal ev \<and> \<not> list_ex is_terminal evs
      else \<not> list_ex is_terminal (delivered c)) \<and> announces False (delivered c)"
  using ffi.inv_reachable [OF assms]
  by (simp add: ffi_inv_def terminal_ok_def ends_once_def announced_ok_def)


text \<open>A run: the tunnel reports a connection, which is delivered, and is stopped.\<close>

definition demo_run :: "ffi_client list" where
  "demo_run =
     (let c0 = TunnelClient_ffi_new;
          c1 = run_begin (Inr ()) c0;
          x = Conn (Established ''PRI'' ''r:1'' TransportQuic);
          c2 = c1\<lparr>queue := queue c1 @ [x], sent_items := sent_items c1 @ [x]\<rparr>;
          c3 = take_item InLoop c2;
          c4 = event_returns InLoop Started [event_of x] c3;
          c5 = event_returns InLoop (event_of x) [] c4;
          c6 = c5\<lparr>tunnel := Ended_with RanOk\<rparr>;
          c7 = c6\<lparr>phase := At (InDrain (terminal_event RanOk))\<rparr>;
          c8 = begin_events InTerminal [terminal_event RanOk] c7;
          c9 = event_returns InTerminal (terminal_event RanOk) [] c8
      in [c0, c1, c2, c3, c4, c5, c6, c7, c8, c9])"

lemma reachable_last: "reachable init step c \<Longrightarrow> successively step (c # cs) \<Longrightarrow> reachable init step (last (c # cs))"
proof (induction cs arbitrary: c)
  case (Cons a cs)
  then have "reachable init step a" by (auto intro: reach_step)
  with Cons.IH [of a] Cons.prems(2) show ?case by simp
qed simp

lemma demo_run_steps: "successively ffi_step demo_run"
  unfolding demo_run_def Let_def successively.simps
  apply (intro conjI TrueI)
  subgoal by (rule runs) (simp add: TunnelClient_ffi_new_def)
  subgoal by (rule queues) (simp add: TunnelClient_ffi_new_def run_begin_def)
  subgoal by (rule loops) (simp_all add: TunnelClient_ffi_new_def run_begin_def)
  subgoal by (rule returns) (simp add: TunnelClient_ffi_new_def run_begin_def take_item_def begin_events_def deliver_def)
  subgoal by (rule returns)
      (simp add: TunnelClient_ffi_new_def run_begin_def take_item_def begin_events_def deliver_def event_returns_def)
  subgoal by (rule ends)
      (simp add: TunnelClient_ffi_new_def run_begin_def take_item_def begin_events_def deliver_def event_returns_def)
  subgoal by (rule joins)
      (simp_all add: TunnelClient_ffi_new_def run_begin_def take_item_def begin_events_def deliver_def event_returns_def)
  subgoal by (rule drained)
      (simp_all add: TunnelClient_ffi_new_def run_begin_def take_item_def begin_events_def deliver_def event_returns_def)
  subgoal by (rule returns) (simp add: begin_events_def)
  done

lemma demo_run_over:
  "reachable ffi_init ffi_step (last demo_run)" "phase (last demo_run) = Over" "\<not> cancelled_run (last demo_run)"
proof -
  have "demo_run = TunnelClient_ffi_new # tl demo_run" by (simp add: demo_run_def Let_def)
  with demo_run_steps show "reachable ffi_init ffi_step (last demo_run)"
    by (metis reachable_last reach_init ffi_init_def)
  show "phase (last demo_run) = Over" "\<not> cancelled_run (last demo_run)"
    by (simp_all add: demo_run_def Let_def event_returns_def)
       (simp_all add: TunnelClient_ffi_new_def run_begin_def take_item_def begin_events_def deliver_def)
qed

theorem ffi_ends_once_witness:
  "\<exists>evs ev. delivered (last demo_run) = evs @ [ev] \<and> is_terminal ev \<and> \<not> list_ex is_terminal evs"
  using ffi_ends_once [OF demo_run_over(1)] demo_run_over(2) by simp


text \<open>
  A cancellation while the terminal event itself is being delivered makes the handler's \<open>on_event\<close> be
  called with a second one: exactly one delivery completes, but two may be begun.
\<close>

definition demo_cancelled :: "ffi_client list" where
  "demo_cancelled =
     (let c0 = TunnelClient_ffi_new;
          c1 = run_begin (Inl ''no threads'') c0;
          c2 = drop_run c1;
          c3 = c2\<lparr>phase := At TailDrain, tunnel := (if tunnel c2 = Running then Aborted else tunnel c2)\<rparr>;
          c4 = begin_events TailTerminal [Stopped] c3
      in [c0, c1, c2, c3, c4])"

theorem ffi_two_terminal_calls:
  "\<exists>c. reachable ffi_init ffi_step c \<and> calls c = [Failed ''no threads'', Stopped]"
proof (intro exI conjI)
  have "successively ffi_step demo_cancelled"
    unfolding demo_cancelled_def Let_def successively.simps
    apply (intro conjI TrueI)
    subgoal by (rule runs) (simp add: TunnelClient_ffi_new_def)
    subgoal by (rule cancels_event [of _ InTerminal "Failed ''no threads''" "[]"])
        (simp_all add: TunnelClient_ffi_new_def run_begin_def begin_events_def cancellable_def)
    subgoal by (rule tail_shuts_down) (simp add: TunnelClient_ffi_new_def run_begin_def begin_events_def drop_run_def)
    subgoal by (rule tail_drained) (simp_all add: TunnelClient_ffi_new_def run_begin_def begin_events_def drop_run_def)
    done
  moreover have "demo_cancelled = TunnelClient_ffi_new # tl demo_cancelled" by (simp add: demo_cancelled_def Let_def)
  ultimately show "reachable ffi_init ffi_step (last demo_cancelled)"
    by (metis reachable_last reach_init ffi_init_def)
  show "calls (last demo_cancelled) = [Failed ''no threads'', Stopped]"
    by (simp add: demo_cancelled_def Let_def TunnelClient_ffi_new_def run_begin_def begin_events_def drop_run_def)
qed

section \<open>Configuration\<close>

record reconnect_config =
  cfg_max_attempts :: u32
  base_backoff_ms :: u64
  max_backoff_ms :: u64
  connect_timeout_ms :: u64

text \<open>\<open>as u64\<close> of the milliseconds truncates.\<close>

definition config_of_policy :: "reconnect_policy \<Rightarrow> reconnect_config" where
  "config_of_policy p = \<lparr>cfg_max_attempts = max_attempts p, base_backoff_ms = of_nat (as_millis (base_backoff p)),
     max_backoff_ms = of_nat (as_millis (max_backoff p)), connect_timeout_ms = of_nat (as_millis (connect_timeout p))\<rparr>"

definition ReconnectConfig_default :: reconnect_config where
  "ReconnectConfig_default = config_of_policy ReconnectPolicy_mobile"

definition policy_of_config :: "reconnect_config \<Rightarrow> reconnect_policy" where
  "policy_of_config c = \<lparr>max_attempts = cfg_max_attempts c, base_backoff = from_millis (unat (base_backoff_ms c)),
     max_backoff = from_millis (unat (max_backoff_ms c)), connect_timeout = from_millis (unat (connect_timeout_ms c))\<rparr>"

text \<open>A configuration survives the way through the policy, and the defaults are the mobile ones.\<close>

lemma config_roundtrip: "config_of_policy (policy_of_config c) = c"
  by (simp add: config_of_policy_def policy_of_config_def)

lemma config_default_mobile: "policy_of_config ReconnectConfig_default = ReconnectPolicy_mobile"
  by (simp add: ReconnectConfig_default_def config_of_policy_def policy_of_config_def ReconnectPolicy_mobile_def
      as_millis_def from_secs_def from_millis_def)

section \<open>Runtimes\<close>

text \<open>
  \<open>LazyRuntime::get\<close> on its cell; \<open>building\<close> serialises the builds, so a call is atomic.
\<close>

definition lazy_get :: "string + 'r \<Rightarrow> 'r option \<Rightarrow> 'r option \<times> (string + 'r)" where
  "lazy_get build cell =
     (case cell of
        Some rt \<Rightarrow> (cell, Inr rt)
      | None \<Rightarrow> (case build of Inl e \<Rightarrow> (None, Inl e) | Inr rt \<Rightarrow> (Some rt, Inr rt)))"

fun lazy_gets :: "(string + 'r) list \<Rightarrow> 'r option \<Rightarrow> (string + 'r) list" where
  "lazy_gets [] cell = []"
| "lazy_gets (b # bs) cell = (case lazy_get b cell of (cell, r) \<Rightarrow> r # lazy_gets bs cell)"

text \<open>A failed build is not cached; after the first success everybody gets that runtime.\<close>

lemma lazy_gets_cached: "lazy_gets bs (Some rt) = replicate (length bs) (Inr rt)"
  by (induction bs) (simp_all add: lazy_get_def)

lemma lazy_gets_first:
  "lazy_gets (map Inl es @ Inr rt # bs) None = map Inl es @ Inr rt # replicate (length bs) (Inr rt)"
  by (induction es) (simp_all add: lazy_get_def lazy_gets_cached)

section \<open>Foreign signatures\<close>

definition SIGN_TIMEOUT :: duration where
  "SIGN_TIMEOUT = from_secs 10"

text \<open>The foreign side signs, or its worker dies, after a while; or neither happens.\<close>

datatype foreign_reply = Signs duration "byte list" | WorkerDies duration | Silent

datatype sign_error = RuntimeUnavailable string | SignTimedOut | SignWorkerDied

definition recv_blocking :: "duration \<Rightarrow> foreign_reply \<Rightarrow> (sign_error + byte list) fut" where
  "recv_blocking limit r =
     (case r of
        Signs t s \<Rightarrow> if t \<le> limit then Some (t, Inr s) else Some (limit, Inl SignTimedOut)
      | WorkerDies t \<Rightarrow> if t \<le> limit then Some (t, Inl SignWorkerDied) else Some (limit, Inl SignTimedOut)
      | Silent \<Rightarrow> Some (limit, Inl SignTimedOut))"

definition foreign_sign :: "string + unit \<Rightarrow> (byte list \<Rightarrow> foreign_reply) \<Rightarrow> byte list \<Rightarrow> (sign_error + byte list) fut" where
  "foreign_sign rt foreign msg =
     (case rt of
        Inl e \<Rightarrow> Some (0, Inl (RuntimeUnavailable e))
      | Inr _ \<Rightarrow> recv_blocking SIGN_TIMEOUT (foreign msg))"

text \<open>The caller is blocked for at most ten seconds, whatever the foreign side does.\<close>

lemma foreign_sign_bounded: "\<exists>t r. foreign_sign rt foreign msg = Some (t, r) \<and> t \<le> SIGN_TIMEOUT"
  by (auto simp: foreign_sign_def recv_blocking_def split: sum.split foreign_reply.split)

end
