(* ===== verification/Ffi_Setup.thy ===== *)
theory Ffi_Setup
  imports Command_Line Ffi_Events
begin

text \<open>
  The constructor of the foreign-function surface (\<^verbatim>\<open>tunnel-client-ffi/src/ffi/mod.rs\<close>: \<open>TunnelClient::new\<close>, \<open>ForeignKey\<close>,
  \<open>spawn_detached\<close>): the foreign configuration becomes a client's, the foreign key one of its keys. Then,
  for every way to build a client, that what comes out is well-formed.
\<close>

section \<open>Configuration\<close>

record secondary_connection =
  sec_cert_extension :: "byte list option"
  sec_local_addr :: "string option"

record ffi_config =
  f_server_addrs :: "string list"
  f_local_addr :: string
  f_domain_suffix :: string
  f_primary_algorithm :: key_algorithm
  f_primary_bytes :: "byte list"
  f_primary_extension :: "byte list option"
  f_secondary :: "secondary_connection option"
  f_force_h2 :: bool
  f_pool_size :: u32
  f_acme_email :: "string option"
  f_acme_creds_path :: string
  f_acme_staging :: bool
  f_cert_pem :: "string option"
  f_reconnect :: "reconnect_config option"

record tunnel_info =
  info_url :: string
  info_client_id :: string
  info_secondary_url :: "string option"
  info_secondary_client_id :: "string option"

datatype tunnel_error = InvalidConfig string | Runtime string

section \<open>The foreign key\<close>

text \<open>A key of the foreign side: its algorithm, its public part, and how it answers a request to sign.\<close>

record foreign_key =
  fk_algorithm :: key_algorithm
  fk_public_key :: "byte list"
  fk_sign :: "byte list \<Rightarrow> foreign_reply"

definition sign_message :: "sign_error \<Rightarrow> string" where
  "sign_message e =
     (case e of
        RuntimeUnavailable m \<Rightarrow> m
      | SignTimedOut \<Rightarrow> ''foreign sign timed out after 10s''
      | SignWorkerDied \<Rightarrow> ''foreign sign worker died'')"

definition ForeignKey_new :: "string + unit \<Rightarrow> foreign_key \<Rightarrow> tunnel_key" where
  "ForeignKey_new rt k =
     \<lparr>algorithm = fk_algorithm k, public_key_raw = fk_public_key k,
      key_sign = (\<lambda>msg. case foreign_sign rt (fk_sign k) msg of
        Some (_, r) \<Rightarrow> map_sum sign_message id r
      | None \<Rightarrow> Inl '''')\<rparr>"

section \<open>The constructor\<close>

definition secondary_identity :: "string + unit \<Rightarrow> ffi_config \<Rightarrow> foreign_key option \<Rightarrow> identity_config option" where
  "secondary_identity rt cfg secondary_key =
     (case (f_secondary cfg, secondary_key) of
        (Some sec_cfg, Some sec_foreign) \<Rightarrow>
          Some \<lparr>keypair = ForeignKey_new rt sec_foreign, cert_extension = sec_cert_extension sec_cfg\<rparr>
      | _ \<Rightarrow> None)"

definition inner_config :: "ffi_config \<Rightarrow> tunnel_key \<Rightarrow> identity_config option \<Rightarrow> tunnel_config" where
  "inner_config cfg prim sec =
     \<lparr>server_addrs = f_server_addrs cfg, local_addr = f_local_addr cfg,
      secondary_local_addr = Option.bind (f_secondary cfg) sec_local_addr, domain_suffix = f_domain_suffix cfg,
      force_h2 = f_force_h2 cfg, cfg_pool_size = unat (f_pool_size cfg),
      cfg_acme_email = f_acme_email cfg, cfg_acme_creds_path = f_acme_creds_path cfg,
      cfg_acme_staging = f_acme_staging cfg, cfg_cert_pem = f_cert_pem cfg,
      primary_identity = \<lparr>keypair = prim, cert_extension = f_primary_extension cfg\<rparr>,
      reconnect = policy_of_config (case f_reconnect cfg of Some r \<Rightarrow> r | None \<Rightarrow> ReconnectConfig_default),
      keepalive = H2KeepAlive_default, self_signed_identity = sec\<rparr>"

definition info_of :: "client \<Rightarrow> tunnel_info" where
  "info_of c =
     \<lparr>info_url = url (primary c), info_client_id = client_id (primary c),
      info_secondary_url = map_option url (secondary c), info_secondary_client_id = map_option client_id (secondary c)\<rparr>"

text \<open>\<open>chain\<close> prints an error of the client's constructor with its causes.\<close>

definition ffi_new :: "'k pair_libs \<Rightarrow> client_libs \<Rightarrow> (setup_error \<Rightarrow> string list) \<Rightarrow> string + unit \<Rightarrow> ffi_config \<Rightarrow>
    foreign_key option \<Rightarrow> tunnel_error + client \<times> tunnel_info \<times> ffi_client" where
  "ffi_new kl l chain rt cfg secondary_key =
     (case primary_key (key_loader.truncate kl) (f_primary_algorithm cfg) (f_primary_bytes cfg) of
        Inl e \<Rightarrow> Inl (InvalidConfig (format_error_chain [e]))
      | Inr pair \<Rightarrow>
          (case TunnelClient_new l (inner_config cfg (RcgenKey kl pair) (secondary_identity rt cfg secondary_key)) of
             Inl e \<Rightarrow> Inl (InvalidConfig (format_error_chain (chain e)))
           | Inr c \<Rightarrow> Inr (c, info_of c, TunnelClient_ffi_new)))"

section \<open>Where the trailing events run\<close>

datatype spawned_on = TunnelRuntime | CurrentRuntime | OwnThread | NoRuntime

text \<open>
  The fallbacks of \<open>spawn_detached\<close>: whether the tunnel runtime can be had, whether a runtime is entered,
  whether a thread can be started, and whether that thread can build a runtime.
\<close>

definition spawn_detached :: "string + unit \<Rightarrow> bool \<Rightarrow> string + unit \<Rightarrow> bool \<Rightarrow> string + spawned_on" where
  "spawn_detached tunnel_rt entered thread builds =
     (case tunnel_rt of
        Inr _ \<Rightarrow> Inr TunnelRuntime
      | Inl rt_err \<Rightarrow>
          if entered then Inr CurrentRuntime
          else (case thread of
              Inr _ \<Rightarrow> Inr (if builds then OwnThread else NoRuntime)
            | Inl e \<Rightarrow> Inl (rt_err @ ''; no thread either: '' @ e)))"

section \<open>Every client is well-formed\<close>

text \<open>A connection speaks for a P-256 key and is named after it.\<close>

definition wf_connection :: "client_libs \<Rightarrow> string \<Rightarrow> tunnel_key \<Rightarrow> tunnel_key \<Rightarrow> connection \<Rightarrow> bool" where
  "wf_connection l sfx agent identity c \<longleftrightarrow>
     algorithm identity = EcdsaP256 \<and> identity_keypair c = identity \<and> agent_keypair c = agent \<and>
     (\<exists>vk. from_sec1_bytes l (public_key_raw identity) = Some vk \<and>
        client_id c = hex_encode (relay_libs l) (take 8 (sha256 (relay_libs l) (to_encoded_point (relay_libs l) vk)))) \<and>
     conn_domain c = client_id c @ ''.'' @ sfx \<and> url c = ''https://'' @ conn_domain c"

definition wf_client :: "client_libs \<Rightarrow> client \<Rightarrow> bool" where
  "wf_client l c \<longleftrightarrow>
     (let cfg = config c; pk = keypair (primary_identity cfg) in
      server_addrs cfg \<noteq> [] \<and> cfg_pool_size cfg \<noteq> 0 \<and>
      policy_validate (reconnect cfg) = Inr () \<and> H2KeepAlive_validate (keepalive cfg) = Inr () \<and>
      csr_der (primary c) \<noteq> None \<and>
      (case (self_signed_identity cfg, secondary c) of
         (None, None) \<Rightarrow> wf_connection l (domain_suffix cfg) pk pk (primary c)
       | (Some s, Some c2) \<Rightarrow>
           wf_connection l (domain_suffix cfg) (keypair s) pk (primary c) \<and>
           wf_connection l (domain_suffix cfg) (keypair s) (keypair s) c2 \<and> csr_der c2 = None
       | _ \<Rightarrow> False))"

lemma build_connection_wf:
  assumes "build_connection l agent identity sfx ext st csr = Inr c" and "algorithm identity = EcdsaP256"
  shows "wf_connection l sfx agent identity c \<and> (csr_der c \<noteq> None \<longleftrightarrow> csr)"
  using assms
  by (auto simp: build_connection_def id_bytes_def wf_connection_def Let_def split: sum.splits option.splits if_splits)

lemma TunnelClient_new_wf:
  assumes "TunnelClient_new l cfg = Inr c"
  shows "wf_client l c \<and> config c = cfg"
proof -
  let ?pk = "keypair (primary_identity cfg)"
  have ok: "algorithm ?pk = EcdsaP256" "\<And>s. self_signed_identity cfg = Some s \<Longrightarrow> algorithm (keypair s) = EcdsaP256"
      "server_addrs cfg \<noteq> []" "cfg_pool_size cfg \<noteq> 0" "policy_validate (reconnect cfg) = Inr ()"
      "H2KeepAlive_validate (keepalive cfg) = Inr ()" "config c = cfg"
    and p: "build_connection l (case self_signed_identity cfg of Some s \<Rightarrow> keypair s | None \<Rightarrow> ?pk) ?pk (domain_suffix cfg)
      (cert_extension (primary_identity cfg)) (cfg_acme_staging cfg) True = Inr (primary c)"
    using assms by (auto simp: TunnelClient_new_def Let_def split: if_splits sum.splits option.splits)
  have s: "case self_signed_identity cfg of None \<Rightarrow> secondary c = None | Some s \<Rightarrow> \<exists>c2. secondary c = Some c2 \<and>
      build_connection l (keypair s) (keypair s) (domain_suffix cfg) (cert_extension s) (cfg_acme_staging cfg) False = Inr c2"
    using assms by (auto simp: TunnelClient_new_def Let_def split: if_splits sum.splits option.splits)
  note prim = build_connection_wf [OF p ok(1)]
  show ?thesis
  proof (cases "self_signed_identity cfg")
    case None
    with ok s prim show ?thesis by (simp add: wf_client_def)
  next
    case (Some x)
    with s obtain c2 where "secondary c = Some c2" "build_connection l (keypair x) (keypair x) (domain_suffix cfg)
        (cert_extension x) (cfg_acme_staging cfg) False = Inr c2" by auto
    with ok prim Some build_connection_wf [OF this(2) ok(2) [OF Some]] show ?thesis by (simp add: wf_client_def)
  qed
qed

text \<open>
  C20. Every client there is has the type its later steps rely on, whether it was built by the library,
  from the command line or over the foreign surface: it has a relay and a pool to connect with, a
  valid retry policy and keep-alive, a certificate request for the primary connection and none for
  the secondary, and each connection speaks for a P-256 key and bears the id, the domain and the URL
  derived from that key; and the foreign side is told these ids and URLs.
\<close>

theorem clients_well_formed:
  "(\<forall>c. TunnelClient_new l cfg = Inr c \<longrightarrow> wf_client l c) \<and>
   (\<forall>fs' c. cli_setup kl k l hex a f1 f2 fs = (fs', Inr c) \<longrightarrow> wf_client l c) \<and>
   (\<forall>c i s. ffi_new kl l chain rt fcfg sk = Inr (c, i, s) \<longrightarrow> wf_client l c \<and>
      info_url i = url (primary c) \<and> info_client_id i = client_id (primary c) \<and> s = TunnelClient_ffi_new)"
proof (intro conjI allI impI)
  show "TunnelClient_new l cfg = Inr c \<Longrightarrow> wf_client l c" for c
    using TunnelClient_new_wf by blast
  have "wf_client l c" if "cli_build kl k l hex a d1 d2 fs = Inr c" for d1 d2 fs c
    using that by (auto simp: cli_build_def map_sum_SetupFailed dest!: TunnelClient_new_wf split: sum.splits)
  then show "cli_setup kl k l hex a f1 f2 fs = (fs', Inr c) \<Longrightarrow> wf_client l c" for fs' c
    by (auto simp: cli_setup_def split: prod.splits sum.splits option.splits)
  fix c i s
  assume "ffi_new kl l chain rt fcfg sk = Inr (c, i, s)"
  then show "wf_client l c" "info_url i = url (primary c)" "info_client_id i = client_id (primary c)" "s = TunnelClient_ffi_new"
    by (auto simp: ffi_new_def info_of_def dest: TunnelClient_new_wf split: sum.splits)
qed

theorem clients_well_formed_witness: "wf_client demo_client_libs demo_cli_client"
  using clients_well_formed demo_first_start by blast

text \<open>
  A raw Ed25519 seed, which the surface takes, never makes a client; and for any other input the
  algorithm that is declared makes no difference to the key that is loaded.
\<close>

lemma ffi_seed_refused:
  assumes "f_primary_algorithm cfg = Ed25519" and "length (f_primary_bytes cfg) = 32"
  shows "\<exists>m. ffi_new kl l chain rt cfg sk = Inl (InvalidConfig m)"
proof (cases "primary_key (key_loader.truncate kl) (f_primary_algorithm cfg) (f_primary_bytes cfg)")
  case (Inr pair)
  with assms have "snd pair = Ed25519"
    by (auto simp: primary_key_def from_ed25519_seed_def split: option.splits)
  then have "TunnelClient_new l (inner_config cfg (RcgenKey kl pair) sec) = Inl (NotP256 ''primary_identity'')" for sec
    by (simp add: TunnelClient_new_def inner_config_def RcgenKey_def)
  with Inr show ?thesis by (simp add: ffi_new_def)
qed (simp add: ffi_new_def)

lemma ffi_declared_algorithm_ignored:
  assumes "length bytes \<noteq> 32" and "primary_key kl a bytes = Inr pair"
  shows "primary_key kl b bytes = Inr pair"
proof -
  have "from_pkcs8_der kl bytes = Inr pair"
    using assms by (cases "from_pkcs8_der kl bytes") (auto simp: primary_key_def split: key_algorithm.splits)
  with assms(1) show ?thesis by (simp add: primary_key_def split: key_algorithm.split)
qed

text \<open>The trailing events of a cancelled run are lost only if no runtime and no thread can be had.\<close>

lemma spawn_detached_runs:
  "spawn_detached rt entered thread builds \<in> {Inr TunnelRuntime, Inr CurrentRuntime, Inr OwnThread} \<longleftrightarrow>
     rt = Inr () \<or> entered \<or> thread = Inr () \<and> builds"
  by (auto simp: spawn_detached_def split: sum.split)

end
