(* ===== verification/Log_Filter.thy ===== *)
theory Log_Filter
  imports Cert_Provisioner
begin

text \<open>
  The logger of the foreign library (\<^verbatim>\<open>tunnel-client-ffi/src/lib.rs\<close>): which level it is started with. The
  filter itself is parsed by the logging library; the level in front of it is found here, and
  what is shown is that it never hides a level the filter names.
\<close>

section \<open>Levels\<close>

datatype level_filter = Off | Error | Warn | Info | Debug | Trace

fun verbosity :: "level_filter \<Rightarrow> nat" where
  "verbosity Off = 0"
| "verbosity Error = 1"
| "verbosity Warn = 2"
| "verbosity Info = 3"
| "verbosity Debug = 4"
| "verbosity Trace = 5"

lemma verbosity_inject [simp]: "verbosity a = verbosity b \<longleftrightarrow> a = b"
  by (cases a; cases b) simp_all

instantiation level_filter :: linorder
begin

definition less_eq_level_filter :: "level_filter \<Rightarrow> level_filter \<Rightarrow> bool" where
  "a \<le> b \<longleftrightarrow> verbosity a \<le> verbosity b"

definition less_level_filter :: "level_filter \<Rightarrow> level_filter \<Rightarrow> bool" where
  "a < b \<longleftrightarrow> verbosity a < verbosity b"

instance
  by standard (auto simp: less_eq_level_filter_def less_level_filter_def)

end

lemma Off_least [simp]: "Off \<le> a" "a \<le> Off \<longleftrightarrow> a = Off"
  by (cases a; simp add: less_eq_level_filter_def)+

section \<open>Strings\<close>

text \<open>\<open>str::split\<close> and the first item of \<open>str::rsplit\<close>.\<close>

function split_all :: "char \<Rightarrow> string \<Rightarrow> string list" where
  "split_all c s = (case split_once c s of None \<Rightarrow> [s] | Some (a, b) \<Rightarrow> a # split_all c b)"
  by auto
termination by (relation "measure (\<lambda>(c, s). length s)") (auto simp: split_once_Some)

declare split_all.simps [simp del]

definition rsplit_next :: "char \<Rightarrow> string \<Rightarrow> string" where
  "rsplit_next c s = (case rsplit_once c s of None \<Rightarrow> s | Some (_, b) \<Rightarrow> b)"

text \<open>\<open>str::trim\<close>: the characters with the Unicode property White_Space, in UTF-8.\<close>

definition WHITE_SPACE :: "string list" where
  "WHITE_SPACE = map (map char_of)
     ([[9], [10], [11], [12], [13], [32], [0xC2, 0x85], [0xC2, 0xA0], [0xE1, 0x9A, 0x80],
       [0xE2, 0x80, 0x80], [0xE2, 0x80, 0x81], [0xE2, 0x80, 0x82], [0xE2, 0x80, 0x83], [0xE2, 0x80, 0x84],
       [0xE2, 0x80, 0x85], [0xE2, 0x80, 0x86], [0xE2, 0x80, 0x87], [0xE2, 0x80, 0x88], [0xE2, 0x80, 0x89],
       [0xE2, 0x80, 0x8A], [0xE2, 0x80, 0xA8], [0xE2, 0x80, 0xA9], [0xE2, 0x80, 0xAF], [0xE2, 0x81, 0x9F],
       [0xE3, 0x80, 0x80]] :: nat list list)"

function strip :: "string list \<Rightarrow> string \<Rightarrow> string" where
  "strip ws s =
     (case find (\<lambda>w. w \<noteq> [] \<and> take (length w) s = w) ws of
        None \<Rightarrow> s
      | Some w \<Rightarrow> strip ws (drop (length w) s))"
  by auto
termination
proof (relation "measure (\<lambda>(ws, s). length s)")
  fix ws :: "string list" and s w
  assume "find (\<lambda>w. w \<noteq> [] \<and> take (length w) s = w) ws = Some w"
  then have "w \<noteq> []" "take (length w) s = w" by (auto simp: find_Some_iff)
  then show "((ws, drop (length w) s), ws, s) \<in> measure (\<lambda>(ws, s). length s)"
    by (cases s) auto
qed simp

declare strip.simps [simp del]

definition trim :: "string \<Rightarrow> string" where
  "trim s = rev (strip (map rev WHITE_SPACE) (rev (strip WHITE_SPACE s)))"

section \<open>The level of a filter\<close>

definition parse_level :: "string \<Rightarrow> level_filter option" where
  "parse_level s =
     (let t = map ascii_lower (trim s) in
      if t = ''off'' then Some Off
      else if t = ''error'' then Some Error
      else if t = ''warn'' then Some Warn
      else if t = ''info'' then Some Info
      else if t = ''debug'' then Some Debug
      else if t = ''trace'' then Some Trace
      else None)"

definition louder :: "level_filter \<Rightarrow> string \<Rightarrow> level_filter" where
  "louder m part =
     (case parse_level (rsplit_next (CHR ''='') part) of
        Some level \<Rightarrow> if m < level then level else m
      | None \<Rightarrow> m)"

definition max_level_from_filter_spec :: "string \<Rightarrow> level_filter option" where
  "max_level_from_filter_spec spec =
     (let m = foldl louder Off (split_all (CHR '','') spec) in if m = Off then None else Some m)"

text \<open>The filter and the level the logger is started with; a string that cannot be had is \<open>"info"\<close>.\<close>

definition initAndroid :: "string option \<Rightarrow> string \<times> level_filter" where
  "initAndroid filter_spec =
     (let spec = (case filter_spec of Some s \<Rightarrow> s | None \<Rightarrow> ''info'') in
      (spec, case max_level_from_filter_spec spec of Some m \<Rightarrow> m | None \<Rightarrow> Info))"

section \<open>What the level lets through\<close>

definition named_levels :: "string \<Rightarrow> level_filter set" where
  "named_levels spec = {v. \<exists>part \<in> set (split_all (CHR '','') spec). parse_level (rsplit_next (CHR ''='') part) = Some v}"

lemma foldl_louder:
  "foldl louder m ps =
     Max (insert m {v. \<exists>part \<in> set ps. parse_level (rsplit_next (CHR ''='') part) = Some v})"
proof (induction ps arbitrary: m)
  case (Cons p ps)
  let ?S = "\<lambda>ps. {v. \<exists>part \<in> set ps. parse_level (rsplit_next (CHR ''='') part) = Some v}"
  have fin: "finite (?S ps)"
    by (rule finite_subset [of _ "the ` (\<lambda>part. parse_level (rsplit_next (CHR ''='') part)) ` set ps"]) force+
  show ?case
  proof (cases "parse_level (rsplit_next (CHR ''='') p)")
    case None
    then have "?S (p # ps) = ?S ps" by auto
    with None Cons show ?thesis by (simp add: louder_def)
  next
    case (Some v)
    then have S: "?S (p # ps) = insert v (?S ps)" by auto
    have "Max (insert (max m v) (?S ps)) = Max (insert m (insert v (?S ps)))"
      using fin by (cases "?S ps = {}") (simp_all add: max.assoc)
    moreover have "louder m p = max m v" using Some by (auto simp: louder_def max_def)
    ultimately show ?thesis using Cons [of "max m v"] unfolding S by simp
  qed
qed simp

lemma finite_named_levels: "finite (named_levels spec)"
  unfolding named_levels_def
  by (rule finite_subset [of _ "the ` (\<lambda>part. parse_level (rsplit_next (CHR ''='') part)) ` set (split_all (CHR '','') spec)"]) force+

text \<open>The result is the most verbose level the filter names, and none if that is \<open>Off\<close> or there is none.\<close>

lemma max_level_most_verbose:
  "max_level_from_filter_spec spec = Some m \<longleftrightarrow> m \<noteq> Off \<and> m \<in> named_levels spec \<and> (\<forall>v \<in> named_levels spec. v \<le> m)"
proof -
  have f: "foldl louder Off (split_all (CHR '','') spec) = Max (insert Off (named_levels spec))"
    by (simp add: foldl_louder named_levels_def)
  have "Max (insert Off (named_levels spec)) = m \<longleftrightarrow> m \<in> named_levels spec \<and> (\<forall>v \<in> named_levels spec. v \<le> m)" if "m \<noteq> Off"
    using that finite_named_levels [of spec] by (subst Max_eq_iff) auto
  then show ?thesis by (auto simp: max_level_from_filter_spec_def f Let_def)
qed

lemma init_level_covers:
  assumes "v \<in> named_levels (fst (initAndroid filter_spec))"
  shows "v \<le> snd (initAndroid filter_spec)"
proof (cases "max_level_from_filter_spec (fst (initAndroid filter_spec))")
  case None
  have "v = Off"
  proof (rule ccontr)
    assume "v \<noteq> Off"
    let ?S = "named_levels (fst (initAndroid filter_spec))"
    have "Max ?S \<in> ?S" by (rule Max_in) (use assms finite_named_levels in auto)
    moreover have "\<forall>u \<in> ?S. u \<le> Max ?S" "v \<le> Max ?S" using assms finite_named_levels by auto
    ultimately have "max_level_from_filter_spec (fst (initAndroid filter_spec)) = Some (Max ?S)"
      using \<open>v \<noteq> Off\<close> by (auto simp: max_level_most_verbose)
    with None show False by simp
  qed
  then show ?thesis by simp
next
  case (Some m)
  then have "snd (initAndroid filter_spec) = m" by (simp add: initAndroid_def Let_def)
  with Some assms show ?thesis by (simp add: max_level_most_verbose)
qed

text \<open>\<open>off\<close> is a level the filter names, and yet the logger starts with \<open>Info\<close>, as if it named none.\<close>

lemma strip_plain:
  assumes "\<And>w. w \<in> set ws \<Longrightarrow> w \<noteq> [] \<Longrightarrow> s = [] \<or> hd w \<noteq> hd s"
  shows "strip ws s = s"
proof -
  have "find (\<lambda>w. w \<noteq> [] \<and> take (length w) s = w) ws = None"
    unfolding find_None_iff using assms by (metis hd_take length_greater_0_conv take_Nil)
  then show ?thesis by (simp add: strip.simps)
qed

lemma WHITE_SPACE_ends:
  assumes "w \<in> set WHITE_SPACE"
  shows "of_char (hd w) \<in> {9, 10, 11, 12, 13, 32, 0xC2, 0xE1, 0xE2, 0xE3 :: nat}"
    and "of_char (last w) \<in> {9, 10, 11, 12, 13, 32} \<union> {0x80 .. 0xAF :: nat}"
  using assms by (auto simp: WHITE_SPACE_def)

lemma trim_plain:
  assumes "s \<noteq> []" and "32 < (of_char (hd s) :: nat)" "of_char (hd s) < (128 :: nat)"
    and "32 < (of_char (last s) :: nat)" "of_char (last s) < (128 :: nat)"
  shows "trim s = s"
proof -
  have "strip WHITE_SPACE s = s"
    by (rule strip_plain) (use assms WHITE_SPACE_ends(1) in fastforce)
  moreover have "strip (map rev WHITE_SPACE) (rev s) = rev s"
    by (rule strip_plain) (use assms WHITE_SPACE_ends(2) in \<open>fastforce simp: hd_rev\<close>)
  ultimately show ?thesis by (simp add: trim_def)
qed

lemma off_starts_at_info:
  "named_levels ''off'' = {Off}" "initAndroid (Some ''off'') = (''off'', Info)"
proof -
  have "trim ''off'' = ''off''" by (rule trim_plain) simp_all
  then have p: "parse_level ''off'' = Some Off" by (simp add: parse_level_def ascii_lower_def)
  have s: "split_all (CHR '','') ''off'' = [''off'']" by (simp add: split_all.simps)
  have r: "rsplit_next (CHR ''='') ''off'' = ''off''" by (simp add: rsplit_next_def rsplit_once_def)
  show "named_levels ''off'' = {Off}" by (auto simp: named_levels_def s r p)
  show "initAndroid (Some ''off'') = (''off'', Info)"
    by (simp add: initAndroid_def max_level_from_filter_spec_def s r p louder_def)
qed

end
