(* ===== verification/Spec2Isabelle.thy ===== *)
theory Spec2Isabelle
  imports Ctrl_Frame H2_Transport Agent_Registry Identity Admission Relay_Auth
    Quic_Listener H2_Listener Public_Router Connection_Run H2_Pool
    Acme_Order Cert_Provisioner Cert_Sharing Server_Cert Relay_Run
    Client_Setup Client_Ctrl Client_Session Client_H2 Tunnel_Handshake Client_Connect
    Agent_Listeners Command_Line Key_Adapters Tls_Helpers Client_Account
    Ffi_Events Ffi_Setup Log_Filter
begin

text \<open>
  A verification library for the QUIC/H2 tunnel of this repository.

  \<^bold>\<open>The program.\<close> A \<^emph>\<open>relay\<close> (\<^verbatim>\<open>tunnel-server\<close>) has a public TCP port and lends it to \<^emph>\<open>agents\<close>
  (\<^verbatim>\<open>tunnel-client\<close>) that have none. An agent connects over QUIC or, where UDP is blocked, over a pool
  of HTTP/2 connections; it proves on a control stream that it owns the key its domain is derived
  from, tells the relay whether an ACME challenge is about to be validated, and is registered. A
  user's TCP connection is then routed by the SNI of its ClientHello to an agent of that domain, and
  by its ALPN to the challenge responder while one is in progress. Both sides obtain their
  certificates over ACME (\<^verbatim>\<open>tunnel-common/src/acme.rs\<close>); \<^verbatim>\<open>tunnel-client-ffi\<close> hands the client to
  foreign code and its events to a foreign handler.

  \<^bold>\<open>Conventions.\<close> An \<open>async fn\<close> is a \<open>task\<close>: the effects it has with the time of each, and when and
  with what it completes, if it does (\<^verbatim>\<open>Async_Task\<close>); a future of the environment is \<open>None\<close> when it
  never resolves. Tasks that share state are step relations whose steps are the atomic sections of
  the code, so that a theorem about reachable states covers every interleaving; each relation is an
  interpretation of the locale \<open>invariant_of\<close> of the prelude. Machine integers are words, byte
  strings lists of words, durations natural numbers of nanoseconds with \<open>Duration\<close>'s saturation.
  Errors are values of a sum or an option. Crates (\<^verbatim>\<open>quinn\<close>, \<^verbatim>\<open>h2\<close>, \<^verbatim>\<open>rustls\<close>, \<^verbatim>\<open>instant_acme\<close>, the
  signature and hash functions, the X.509 parser) are parameters: the record \<open>libs\<close> of \<^verbatim>\<open>Identity\<close> and
  the peers and environments the definitions take. What a theorem relies on of them is a hypothesis
  of it, and its witness instantiates them.

  \<^bold>\<open>Theories, and the code they model.\<close>
  \<^item> \<^verbatim>\<open>Tunnel_Prelude\<close>: types, saturating arithmetic, UTF-8 as Rust validates it, reachability and
    \<open>invariant_of\<close>. \<^verbatim>\<open>Async_Task\<close>: tasks, timeouts, byte sources.
  \<^item> \<^verbatim>\<open>Ctrl_Frame\<close>, \<^verbatim>\<open>H2_Transport\<close> (\<^verbatim>\<open>tunnel-common/src/lib.rs\<close>): framing of the control stream and
    bounded bodies; \<open>H2Send\<close>, \<open>H2Recv\<close> and the PING loop. Round trip, refusal of oversized frames,
    conservation of bytes under flow control, detection of a dead peer.
  \<^item> \<^verbatim>\<open>Agent_Registry\<close> (\<^verbatim>\<open>tunnel-server/src/lib.rs\<close>, \<^verbatim>\<open>util.rs\<close>): pools, registration and its two-step
    clean-up, the challenge table with its tokens. Invariants over all interleavings; fairness.
  \<^item> \<^verbatim>\<open>Identity\<close>, \<^verbatim>\<open>Admission\<close>, \<^verbatim>\<open>Relay_Auth\<close> (\<^verbatim>\<open>util.rs\<close>, \<^verbatim>\<open>admission.rs\<close>, the shared half of the
    listeners): suffixes, identity signatures, TXT authorisation, the permits, and the contract
    \<open>auth_verdict\<close> of the exchange with its meaning \<open>authorized\<close>.
  \<^item> \<^verbatim>\<open>Quic_Listener\<close>, \<^verbatim>\<open>H2_Listener\<close> (\<^verbatim>\<open>quic.rs\<close>, \<^verbatim>\<open>h2_listener.rs\<close>): the handler of one connection on
    either transport. Both exchanges refine \<open>auth_verdict\<close>, hence agree; only authorised agents are
    registered; the permit is held for a bounded time; every exit leaves the tables clean.
    \<^verbatim>\<open>Agent_Listeners\<close>: their accept loops, which turn a connection away only when the whole budget was
    spent on others a short time ago.
  \<^item> \<^verbatim>\<open>Public_Router\<close> (\<^verbatim>\<open>public.rs\<close>, \<^verbatim>\<open>alpn.rs\<close>): accepting, sniffing the ClientHello and proxying. Every
    hello of at most 16 KiB is found, and a connection goes only to a live agent of the client it names.
  \<^item> \<^verbatim>\<open>Relay_Run\<close>, \<^verbatim>\<open>Server_Cert\<close> (\<^verbatim>\<open>lib.rs\<close>, \<^verbatim>\<open>cert.rs\<close>): \<open>run_until\<close>, start-up, shutdown and what is
    aborted when; the relay's certificate on disk, its renewal under concurrent handshakes.
  \<^item> \<^verbatim>\<open>Connection_Run\<close>, \<^verbatim>\<open>H2_Pool\<close> (\<^verbatim>\<open>tunnel-client/src/client.rs\<close>): the reconnect loop with its budget
    and backoff, and the pool of H2 connections as one connection.
  \<^item> \<^verbatim>\<open>Acme_Order\<close>, \<^verbatim>\<open>Cert_Provisioner\<close>, \<^verbatim>\<open>Cert_Sharing\<close> (\<^verbatim>\<open>tunnel-common/src/acme.rs\<close>,
    \<^verbatim>\<open>tunnel-client/src/acme.rs\<close>): driving an order, and the connections of a client that share one.
    \<^verbatim>\<open>Client_Account\<close>: the account and its credentials on disk, which survive a restart.
  \<^item> \<^verbatim>\<open>Client_Setup\<close>, \<^verbatim>\<open>Key_Adapters\<close> (\<^verbatim>\<open>client.rs\<close>, \<^verbatim>\<open>key.rs\<close>): keys and their adapters to the TLS and the
    certificate library, construction, \<open>run\<close>, and the opening of the control exchange with the verdict
    the relay gives on it.
  \<^item> \<^verbatim>\<open>Client_Connect\<close> (\<^verbatim>\<open>client.rs\<close>: \<open>ClientTls\<close>, \<open>connect_quic\<close>, \<open>connect_h2\<close>): the TLS configurations of a relay
    given by name and by address, and the connect phase under its budget.
  \<^item> \<^verbatim>\<open>Client_Ctrl\<close>, \<^verbatim>\<open>Client_Session\<close> (\<open>quic_loop_inner\<close>), \<^verbatim>\<open>Client_H2\<close> (\<open>h2_ctrl_exchange\<close>): the client's half of the
    control exchange on either transport, leader and follower of a challenge included. What a client
    says is a fixed script; it carries traffic only after it; a rejection is heard wherever it waits.
  \<^item> \<^verbatim>\<open>Tunnel_Handshake\<close>: both halves run against each other. An honest client and its relay bring the
    tunnel up; with an empty key authorization they do not.
  \<^item> \<^verbatim>\<open>Tls_Helpers\<close> (\<^verbatim>\<open>tunnel-common/src/lib.rs\<close>): joined streams, self-signed and challenge certificates, the
    verifiers.
  \<^item> \<^verbatim>\<open>Ffi_Events\<close>, \<^verbatim>\<open>Ffi_Setup\<close> (\<^verbatim>\<open>tunnel-client-ffi/src/ffi/mod.rs\<close>): delivery of events to the foreign handler
    under cancellation, configuration, the lazily built runtime, foreign signing, the constructor.
    \<^verbatim>\<open>Log_Filter\<close> (\<^verbatim>\<open>tunnel-client-ffi/src/lib.rs\<close>): the level the logger is started with.
  \<^item> \<^verbatim>\<open>Command_Line\<close> (\<^verbatim>\<open>client/src/main.rs\<close>, \<^verbatim>\<open>relay/src/main.rs\<close>): from parsed arguments to a client or a
    relay, and both shutdowns. Every client is well-formed; a restart keeps identity and certificate.
  \<^item> This theory: the properties that span both listeners.

  \<^bold>\<open>Bounds and fuel.\<close> The loops of the code that wait on a peer run over the list of what the
  environment does next; a result \<open>None\<close> of a task means that it is still waiting then, and the
  liveness and termination properties state how much has to arrive. \<open>finalize_order\<close> and
  \<open>raise_windows\<close> recurse on the round counts of the source. \<open>connection_run\<close> runs over a list of
  attempts and returns \<open>StillRunning\<close> at its end. Counters the source keeps in 64 bits keep their width
  where a property depends on it (tokens, round-robin).

  \<^bold>\<open>Not modelled.\<close> What is logged, and the parsing of command-line arguments, which the library
  for them does. The internals of the crates: TLS and QUIC handshakes, DER and PEM encodings, key and
  certificate generation, HTTP and the ACME wire format, DNS; they are parameters, and so is the HTTP
  client with a custom root (\<open>make_acme_http_client\<close>), which only calls them. The copying of bytes once a
  stream is open is one call of the runtime and appears as one event. The scaffolding generated for
  foreign languages (\<^verbatim>\<open>uniffi-bindgen.rs\<close>), the Android wrapper and the
  container files have no logic of the tunnel in them.
\<close>

section \<open>Both listeners decide alike\<close>

text \<open>The reasons an exchange closed a QUIC connection with.\<close>

definition close_reasons :: "'a relay_task \<Rightarrow> string set" where
  "close_reasons m = {r. happens m (CloseConn REJECT_UNAUTHORIZED r)}"

lemma close_reasons_verdict:
  "closes m = quic_events v \<Longrightarrow> close_reasons m = refusals v"
  by (cases v) (auto simp: closes_def quic_events_def close_reasons_def refusals_def)

text \<open>
  C5. The two transports authenticate alike: an agent that sends the same domain and the same
  signature to the QUIC and to the H2 listener, under the same certificate decision and the same
  DNS answers, is accepted by both under the same id or by neither, and is told the same reason
  when it is refused, however either transport times and fragments the exchange.
\<close>

theorem transports_agree:
  assumes "contents r = frame d @ frame s @ rest"
    and "length d \<le> MAX_CTRL_FRAME" and "length s \<le> MAX_CTRL_FRAME"
    and "\<And>n. n \<le> MAX_CTRL_FRAME \<Longrightarrow> alloc n"
    and "serves p ''/_ctrl/domain'' d" and "serves p ''/_ctrl/sig'' s" and "can_reject p"
    and "\<And>n. txt_lookup ctx n = Some (t n, dns n)"
  shows "(\<exists>q h. result (quic_auth_exchange l alloc ctx tok r) = Some q \<and>
      result (h2_auth_exchange l ctx p tok) = Some h \<and> map_option fst q = h) \<and>
    close_reasons (quic_auth_exchange l alloc ctx tok r) = rejections (h2_auth_exchange l ctx p tok)"
proof -
  let ?v = "auth_verdict l (domain_suffixes ctx) tok dns d s"
  obtain r' where "result (quic_auth_exchange l alloc ctx tok r) =
      Some (case ?v of Accept i \<Rightarrow> Some (i, r') | _ \<Rightarrow> None)"
    and q: "closes (quic_auth_exchange l alloc ctx tok r) = quic_events ?v"
    using quic_auth_exchange_verdict [where l = l and token = tok and alloc = alloc, OF assms(1-4,8)] by blast
  moreover have "result (h2_auth_exchange l ctx p tok) =
      Some (case ?v of Accept i \<Rightarrow> Some i | _ \<Rightarrow> None)"
    and "rejections (h2_auth_exchange l ctx p tok) = refusals ?v"
    using h2_auth_exchange_verdict [where l = l and token = tok, OF assms(5,6,8,7)] by simp_all
  ultimately show ?thesis
    using close_reasons_verdict [OF q] by (auto split: verdict.split)
qed

lemma demo_serves:
  "serves demo_h2_peer ''/_ctrl/domain'' (as_bytes ''k.x'')"
  "serves demo_h2_peer ''/_ctrl/sig'' (as_bytes ''k.xk'')"
proof -
  have "serves demo_h2_peer path bs"
    if "answer demo_h2_peer path = Inr (Some (0, Inr (demo_body bs)))" "length bs \<le> 4" for path bs
    unfolding serves_def
    using that by (intro exI [of _ 0] exI [of _ "demo_body bs"] exI [of _ "[bs]"])
      (simp add: demo_body_def contents_def MAX_CTRL_FRAME_def)
  then show "serves demo_h2_peer ''/_ctrl/domain'' (as_bytes ''k.x'')"
    and "serves demo_h2_peer ''/_ctrl/sig'' (as_bytes ''k.xk'')"
    by (simp_all add: demo_h2_peer_def)
qed

theorem transports_agree_witness:
  "\<exists>q h. result (quic_auth_exchange demo_libs (\<lambda>_. True) demo_ctx None
       (instantly (frame (as_bytes ''k.x'') @ frame (as_bytes ''k.xk'') @ []))) = Some q \<and>
     result (h2_auth_exchange demo_libs demo_ctx demo_h2_peer None) = Some h \<and> map_option fst q = h"
  by (rule transports_agree [where dns = "\<lambda>_. Inl ''''" and t = "\<lambda>_. 3", OF _ _ _ _ demo_serves,
      THEN conjunct1])
     (simp_all add: MAX_CTRL_FRAME_def can_reject_def demo_h2_peer_def demo_ctx_def)

text \<open>
  C16. The shared tables see every connection in order, on both transports: a connection waits for at
  most one ACME challenge, it always leaves the challenge table before it is registered and before
  its handler gives up, and a handler that reports success has registered exactly one agent.
\<close>

theorem connection_lifecycle:
  "lifecycle (handle_quic_connection l alloc ctx q) \<and> lifecycle (handle_h2_connection l ctx p)"
  by (simp add: lifecycle_quic lifecycle_h2)

end
